(* ===== verification/Prelude.thy ===== *)
theory Prelude
  imports Main "HOL-Library.Char_ord" "HOL-Library.List_Lexorder"
begin

text \<open>
  Shared vocabulary of the development: the outcome type that carries C undefined
  behaviour, the characters the protocol uses, the collections of rewrite rules
  (\<open>c_simps\<close> for the C library layer, \<open>fs_simps\<close> for the file system,
  \<open>conn_simps\<close> for sockets, \<open>db_simps\<close> for the database) and the generic lemmas on
  lists and options that the components use.
\<close>

named_theorems c_simps
named_theorems fs_simps
named_theorems conn_simps
named_theorems db_simps

section \<open>Outcomes\<close>

text \<open>
  A C function may reach undefined behaviour: it dereferences a null pointer, it reads an
  array that was never written, or it
  reads or writes outside an array. Such an outcome is a value of the model,
  \<open>Inl fault\<close>, so that it can neither be ignored nor assumed away; \<open>Inr\<close> carries the
  ordinary result.
\<close>

datatype fault = NullDeref | OutOfBounds | Uninit

type_synonym 'a outcome = "fault + 'a"

definition bind_ok :: "'a outcome \<Rightarrow> ('a \<Rightarrow> 'b outcome) \<Rightarrow> 'b outcome" where
  "bind_ok m f = (case m of Inl e \<Rightarrow> Inl e | Inr x \<Rightarrow> f x)"

lemma bind_ok_simps [simp]:
  "bind_ok (Inl e) f = Inl e"
  "bind_ok (Inr x) f = f x"
  by (simp_all add: bind_ok_def)

lemma bind_ok_Inr_iff:
  "bind_ok m f = Inr y \<longleftrightarrow> (\<exists>x. m = Inr x \<and> f x = Inr y)"
  by (cases m) auto

section \<open>Characters and strings\<close>

abbreviation LF :: char where "LF \<equiv> CHR 0x0A"
abbreviation NUL :: char where "NUL \<equiv> CHR 0x00"
abbreviation SP :: char where "SP \<equiv> CHR '' ''"

section \<open>Lists\<close>

lemma takeWhile_all: "(\<And>x. x \<in> set xs \<Longrightarrow> P x) \<Longrightarrow> takeWhile P xs = xs"
  by (simp add: takeWhile_eq_all_conv)

lemma dropWhile_none: "xs = [] \<or> \<not> P (hd xs) \<Longrightarrow> dropWhile P xs = xs"
  by (cases xs) auto

lemma takeWhile_until: "(\<And>x. x \<in> set xs \<Longrightarrow> P x) \<Longrightarrow> \<not> P y \<Longrightarrow> takeWhile P (xs @ y # ys) = xs"
  by (simp add: takeWhile_append2)

lemma dropWhile_until: "(\<And>x. x \<in> set xs \<Longrightarrow> P x) \<Longrightarrow> \<not> P y \<Longrightarrow> dropWhile P (xs @ y # ys) = y # ys"
  by (simp add: dropWhile_append2)

lemma set_butlast_last: "xs \<noteq> [] \<Longrightarrow> set xs = insert (last xs) (set (butlast xs))"
  by (metis Un_insert_right append_butlast_last_id list.simps(15) set_append set_empty sup_bot_right)

lemma replicate_pad_length: "length (replicate (w - length s) c @ s) = max w (length s)"
  by auto

lemma map_of_filter_fst:
  "map_of (filter (\<lambda>(k, v). P k) xs) k = (if P k then map_of xs k else None)"
  by (induction xs) auto

end
