(* ===== verification/CLib.thy ===== *)
theory CLib
  imports Prelude "HOL-Library.Word"
begin

text \<open>
  The part of the C standard library the program uses, as functions on strings:
  \<open>strlen\<close>/\<open>strcpy\<close> views of a zero-terminated array (\<open>cstr\<close>), \<open>isdigit\<close> and
  \<open>isalnum\<close> in the C locale, \<open>strtok\<close> with its saved position made explicit, \<open>atoi\<close>,
  \<open>atol\<close>, the integer conversions of \<open>sprintf\<close> and \<open>sscanf\<close>, \<open>gmtime\<close> and the one
  \<open>strftime\<close> format of the program. A C string is the \<open>string\<close> of its characters
  before the terminating zero.
\<close>

section \<open>Character classes and C strings\<close>

definition isdigit :: "char \<Rightarrow> bool" where
  "isdigit c \<longleftrightarrow> 48 \<le> (of_char c :: nat) \<and> (of_char c :: nat) \<le> 57"

definition isalpha :: "char \<Rightarrow> bool" where
  "isalpha c \<longleftrightarrow> (65 \<le> (of_char c :: nat) \<and> (of_char c :: nat) \<le> 90)
     \<or> (97 \<le> (of_char c :: nat) \<and> (of_char c :: nat) \<le> 122)"

definition isalnum :: "char \<Rightarrow> bool" where
  "isalnum c \<longleftrightarrow> isalpha c \<or> isdigit c"

definition isspace :: "char \<Rightarrow> bool" where
  "isspace c \<longleftrightarrow> c = SP \<or> (9 \<le> (of_char c :: nat) \<and> (of_char c :: nat) \<le> 13)"

definition cstr :: "char list \<Rightarrow> string" where
  "cstr buf = takeWhile (\<lambda>c. c \<noteq> NUL) buf"

lemma cstr_simps [simp, c_simps]:
  "cstr [] = []"
  "cstr (c # cs) = (if c = NUL then [] else c # cstr cs)"
  by (simp_all add: cstr_def)

lemma cstr_no_nul: "NUL \<notin> set s \<Longrightarrow> cstr s = s"
  by (induction s) auto

lemma cstr_append_nul: "NUL \<notin> set s \<Longrightarrow> cstr (s @ NUL # t) = s"
  by (induction s) auto

lemma cstr_append: "NUL \<notin> set s \<Longrightarrow> cstr (s @ t) = s @ cstr t"
  by (induction s) auto

lemma NUL_notin_cstr [simp]: "NUL \<notin> set (cstr s)"
  by (induction s) auto

section \<open>strtok\<close>

text \<open>
  \<open>strtok\<close> skips leading delimiters, cuts the token at the next delimiter and saves the
  position after it in one static variable of the C library. The model returns the saved
  position; \<open>strtok(NULL, d)\<close> is \<open>strtok d\<close> on the position saved last.
\<close>

definition strtok :: "string \<Rightarrow> string \<Rightarrow> string option \<times> string" where
  "strtok d s =
     (let s' = dropWhile (\<lambda>c. c \<in> set d) s
      in if s' = [] then (None, [])
         else (Some (takeWhile (\<lambda>c. c \<notin> set d) s'), drop 1 (dropWhile (\<lambda>c. c \<notin> set d) s')))"

lemma strtok_empty [simp, c_simps]: "strtok d [] = (None, [])"
  by (simp add: strtok_def)

lemma strtok_until:
  assumes "tok \<noteq> []" and "set tok \<inter> set d = {}" and "c \<in> set d"
  shows "strtok d (tok @ c # rest) = (Some tok, rest)"
proof -
  have "dropWhile (\<lambda>c. c \<in> set d) (tok @ c # rest) = tok @ c # rest"
    using assms by (intro dropWhile_none) (cases tok, auto)
  moreover have "takeWhile (\<lambda>c. c \<notin> set d) (tok @ c # rest) = tok"
    using assms by (intro takeWhile_until) auto
  moreover have "dropWhile (\<lambda>c. c \<notin> set d) (tok @ c # rest) = c # rest"
    using assms by (intro dropWhile_until) auto
  ultimately show ?thesis by (simp add: strtok_def)
qed

lemma strtok_all:
  assumes "tok \<noteq> []" and "set tok \<inter> set d = {}"
  shows "strtok d tok = (Some tok, [])"
proof -
  have "dropWhile (\<lambda>c. c \<in> set d) tok = tok"
    using assms by (intro dropWhile_none) (cases tok, auto)
  moreover have "takeWhile (\<lambda>c. c \<notin> set d) tok = tok"
    using assms by (intro takeWhile_all) auto
  moreover have "dropWhile (\<lambda>c. c \<notin> set d) tok = []"
    using assms by (subst dropWhile_eq_Nil_conv) auto
  ultimately show ?thesis using assms(1) by (simp only: strtok_def Let_def if_False drop_Nil)
qed

lemma strtok_skip: "c \<in> set d \<Longrightarrow> strtok d (c # s) = strtok d s"
  by (simp add: strtok_def)

lemma strtok_Some_iff:
  "strtok d s = (Some tok, rest) \<longleftrightarrow>
     dropWhile (\<lambda>c. c \<in> set d) s \<noteq> []
     \<and> tok = takeWhile (\<lambda>c. c \<notin> set d) (dropWhile (\<lambda>c. c \<in> set d) s)
     \<and> rest = drop 1 (dropWhile (\<lambda>c. c \<notin> set d) (dropWhile (\<lambda>c. c \<in> set d) s))"
  by (cases "dropWhile (\<lambda>c. c \<in> set d) s") (auto simp: strtok_def Let_def)

lemma strtok_SomeD:
  assumes "strtok d s = (Some tok, rest)"
  shows "tok \<noteq> []" and "set tok \<subseteq> set s" and "set tok \<inter> set d = {}" and "set rest \<subseteq> set s"
proof -
  obtain x xs where s': "dropWhile (\<lambda>c. c \<in> set d) s = x # xs"
    using assms by (cases "dropWhile (\<lambda>c. c \<in> set d) s") (simp_all add: strtok_Some_iff)
  have x: "x \<notin> set d"
    using s' hd_dropWhile [of "\<lambda>c. c \<in> set d" s] by simp
  have sub: "set (x # xs) \<subseteq> set s"
    using set_dropWhileD [of _ "\<lambda>c. c \<in> set d" s] by (simp only: s') blast
  have tok: "tok = takeWhile (\<lambda>c. c \<notin> set d) (x # xs)"
    and rest: "rest = drop 1 (dropWhile (\<lambda>c. c \<notin> set d) (x # xs))"
    using assms by (simp_all add: strtok_Some_iff s')
  show "tok \<noteq> []" using tok x by simp
  have "set tok \<subseteq> set (x # xs)" and disj: "\<And>c. c \<in> set tok \<Longrightarrow> c \<notin> set d"
    unfolding tok using set_takeWhileD [of _ "\<lambda>c. c \<notin> set d" "x # xs"] by blast+
  then show "set tok \<subseteq> set s" and "set tok \<inter> set d = {}" using sub by blast+
  have "set rest \<subseteq> set (x # xs)"
    unfolding rest
    using set_dropWhileD [of _ "\<lambda>c. c \<notin> set d" "x # xs"] in_set_dropD by fast
  then show "set rest \<subseteq> set s" using sub by blast
qed

section \<open>Reading decimal numbers\<close>

definition digit_val :: "char \<Rightarrow> int" where
  "digit_val c = of_char c - 48"

fun read_digits :: "int \<Rightarrow> string \<Rightarrow> int" where
  "read_digits acc [] = acc"
| "read_digits acc (c # cs) = (if isdigit c then read_digits (10 * acc + digit_val c) cs else acc)"

text \<open>The conversion to a 32-bit \<open>int\<close> keeps the low 32 bits, read as two's complement.\<close>

definition c_int :: "int \<Rightarrow> int" where
  "c_int x = sint (word_of_int x :: 32 word)"

definition strtol10 :: "string \<Rightarrow> int" where
  "strtol10 s =
     (let s' = dropWhile isspace s;
          v = (case s' of
                 [] \<Rightarrow> 0
               | c # cs \<Rightarrow> if c = CHR ''-'' then - read_digits 0 cs
                           else if c = CHR ''+'' then read_digits 0 cs
                           else read_digits 0 s')
      in max (- (2 ^ 63)) (min (2 ^ 63 - 1) v))"

definition atol :: "string \<Rightarrow> int" where "atol s = strtol10 s"

definition atoi :: "string \<Rightarrow> int" where "atoi s = c_int (strtol10 s)"

text \<open>
  The \<open>%Nd\<close> conversion of \<open>sscanf\<close>: white space is skipped, then at most \<open>N\<close>
  characters are read, an optional sign and at least one digit. With no width the
  conversion is \<open>%d\<close>.
\<close>

definition scan_d :: "nat \<Rightarrow> string \<Rightarrow> (int \<times> string) option" where
  "scan_d w s =
     (let s' = dropWhile isspace s;
          sign = (s' \<noteq> [] \<and> (hd s' = CHR ''-'' \<or> hd s' = CHR ''+''));
          w' = (if sign then w - 1 else w);
          body = (if sign then tl s' else s');
          ds = takeWhile isdigit (take w' body)
      in if ds = [] then None
         else Some ((if sign \<and> hd s' = CHR ''-'' then - read_digits 0 ds else read_digits 0 ds),
                    drop (length ds) body))"

definition scan_lit :: "char \<Rightarrow> string \<Rightarrow> string option" where
  "scan_lit c s = (case s of [] \<Rightarrow> None | x # xs \<Rightarrow> if x = c then Some xs else None)"

definition scan_ws :: "string \<Rightarrow> string" where
  "scan_ws s = dropWhile isspace s"

section \<open>Writing decimal numbers\<close>

definition digit_char :: "nat \<Rightarrow> char" where
  "digit_char n = char_of (48 + n mod 10)"

fun digits :: "nat \<Rightarrow> string" where
  "digits n = (if n < 10 then [digit_char n] else digits (n div 10) @ [digit_char n])"

declare digits.simps [simp del]

definition fmt_d :: "int \<Rightarrow> string" where
  "fmt_d i = (if i < 0 then CHR ''-'' # digits (nat (- i)) else digits (nat i))"

definition fmt_0d :: "nat \<Rightarrow> int \<Rightarrow> string" where
  "fmt_0d w i =
     (if i < 0 then CHR ''-'' # (let s = digits (nat (- i)) in replicate (w - 1 - length s) (CHR ''0'') @ s)
      else (let s = digits (nat i) in replicate (w - length s) (CHR ''0'') @ s))"

definition fmt_wd :: "nat \<Rightarrow> int \<Rightarrow> string" where
  "fmt_wd w i = (let s = fmt_d i in replicate (w - length s) SP @ s)"

text \<open>The \<open>%Ns\<close> conversion pads on the left, \<open>%.Ns\<close> cuts.\<close>

definition fmt_ws :: "nat \<Rightarrow> string \<Rightarrow> string" where
  "fmt_ws w s = replicate (w - length s) SP @ s"

lemma fmt_ws_id [simp]: "length s = w \<Longrightarrow> fmt_ws w s = s"
  by (simp add: fmt_ws_def)

lemma digits_nonempty [simp]: "digits n \<noteq> []"
  by (subst digits.simps) simp

lemma of_char_digit_char: "(of_char (digit_char n) :: nat) = 48 + n mod 10"
  by (simp add: digit_char_def)

lemma isdigit_digit_char [simp]: "isdigit (digit_char n)"
  by (simp add: isdigit_def of_char_digit_char)

lemma digit_val_digit_char [simp]: "digit_val (digit_char n) = int (n mod 10)"
proof -
  have "(of_char (digit_char n) :: int) = int (of_char (digit_char n))"
    by (rule of_nat_of_char [symmetric])
  then show ?thesis by (simp only: digit_val_def of_char_digit_char)
qed

lemma digits_isdigit: "c \<in> set (digits n) \<Longrightarrow> isdigit c"
proof (induction n rule: digits.induct)
  case (1 n)
  then show ?case by (subst (asm) digits.simps) (auto split: if_splits)
qed

lemma read_digits_append:
  "(\<And>c. c \<in> set s \<Longrightarrow> isdigit c) \<Longrightarrow> read_digits acc (s @ t) = read_digits (read_digits acc s) t"
  by (induction s arbitrary: acc) auto

lemma read_digits_digits: "read_digits 0 (digits n) = int n"
proof (induction n rule: digits.induct)
  case (1 n)
  show ?case
  proof (cases "n < 10")
    case True
    then show ?thesis by (subst digits.simps) simp
  next
    case False
    then have "read_digits 0 (digits n) = read_digits (int (n div 10)) [digit_char n]"
      using "1.IH" by (subst digits.simps) (simp add: read_digits_append digits_isdigit)
    then show ?thesis by (simp add: zmod_int zdiv_int)
  qed
qed

lemma read_digits_zeros: "read_digits 0 (replicate k (CHR ''0'') @ s) = read_digits 0 s"
  by (induction k) (auto simp: isdigit_def digit_val_def)

lemma length_digits_le: "n < 10 ^ k \<Longrightarrow> 0 < k \<Longrightarrow> length (digits n) \<le> k"
proof (induction k arbitrary: n)
  case 0
  then show ?case by simp
next
  case (Suc k)
  show ?case
  proof (cases "n < 10")
    case True
    then show ?thesis by (subst digits.simps) simp
  next
    case False
    with Suc.prems have "n div 10 < 10 ^ k" and "0 < k"
      by (auto intro: gr0I)
    then have "length (digits (n div 10)) \<le> k" by (rule Suc.IH)
    with False show ?thesis by (subst digits.simps) simp
  qed
qed

lemma length_digits_ge: "10 ^ k \<le> n \<Longrightarrow> k < length (digits n)"
proof (induction k arbitrary: n)
  case 0
  then show ?case by simp
next
  case (Suc k)
  have "1 \<le> (10::nat) ^ k" by simp
  then have "10 \<le> (10::nat) ^ Suc k" by simp
  with Suc.prems have ge: "\<not> n < 10" by (simp only: not_less)
  from Suc.prems have "10 ^ k \<le> n div 10" by (simp add: less_eq_div_iff_mult_less_eq)
  then have "k < length (digits (n div 10))" by (intro Suc.IH)
  then show ?case using ge by (subst digits.simps) simp
qed

lemma isdigit_0 [simp]: "isdigit (CHR ''0'')"
  by (simp add: isdigit_def)

lemma fmt_0d_nonneg:
  "0 \<le> i \<Longrightarrow> fmt_0d w i = replicate (w - length (digits (nat i))) (CHR ''0'') @ digits (nat i)"
  by (simp add: fmt_0d_def Let_def)

lemma fmt_d_nonneg: "0 \<le> i \<Longrightarrow> fmt_d i = digits (nat i)"
  by (simp add: fmt_d_def)

lemma fmt_0d_isdigit: "0 \<le> i \<Longrightarrow> c \<in> set (fmt_0d w i) \<Longrightarrow> isdigit c"
  by (auto simp: fmt_0d_nonneg dest: digits_isdigit)

lemma fmt_0d_length: "0 \<le> i \<Longrightarrow> i < 10 ^ w \<Longrightarrow> 0 < w \<Longrightarrow> length (fmt_0d w i) = w"
  using length_digits_le [of "nat i" w]
  by (simp add: fmt_0d_nonneg nat_less_iff)

lemma read_digits_fmt_0d: "0 \<le> i \<Longrightarrow> read_digits 0 (fmt_0d w i) = i"
  by (simp add: fmt_0d_nonneg read_digits_zeros read_digits_digits)

lemma fmt_d_isdigit: "0 \<le> i \<Longrightarrow> c \<in> set (fmt_d i) \<Longrightarrow> isdigit c"
  by (auto simp: fmt_d_nonneg dest: digits_isdigit)

lemma fmt_d_nonempty [simp]: "fmt_d i \<noteq> []"
  by (simp add: fmt_d_def)

lemma fmt_d_length_le: "0 \<le> i \<Longrightarrow> i < 10 ^ w \<Longrightarrow> 0 < w \<Longrightarrow> length (fmt_d i) \<le> w"
  using length_digits_le [of "nat i" w] by (simp add: fmt_d_nonneg nat_less_iff)

lemma read_digits_fmt_d: "0 \<le> i \<Longrightarrow> read_digits 0 (fmt_d i) = i"
  by (simp add: fmt_d_nonneg read_digits_digits)

lemma fmt_wd_4:
  assumes "1000 \<le> i" and "i \<le> 9999"
  shows "fmt_wd 4 i = digits (nat i)" and "length (digits (nat i)) = 4"
proof -
  have "3 < length (digits (nat i))" using assms by (intro length_digits_ge) simp
  moreover have "length (digits (nat i)) \<le> 4" using assms by (intro length_digits_le) auto
  ultimately show *: "length (digits (nat i)) = 4" by simp
  then show "fmt_wd 4 i = digits (nat i)" using assms by (simp add: fmt_wd_def fmt_d_def Let_def)
qed

subsection \<open>Digits are not delimiters\<close>

lemma isdigit_neqs:
  "isdigit c \<Longrightarrow> c \<noteq> SP" "isdigit c \<Longrightarrow> c \<noteq> LF" "isdigit c \<Longrightarrow> c \<noteq> NUL"
  "isdigit c \<Longrightarrow> c \<noteq> CHR ''-''" "isdigit c \<Longrightarrow> c \<noteq> CHR ''+''" "isdigit c \<Longrightarrow> c \<noteq> CHR ''.''"
  "isdigit c \<Longrightarrow> c \<noteq> CHR ''/''"  "isdigit c \<Longrightarrow> c \<noteq> CHR '':''"
  by (auto simp: isdigit_def)

lemma not_isdigit [simp]:
  "\<not> isdigit SP" "\<not> isdigit LF" "\<not> isdigit NUL" "\<not> isdigit (CHR ''-'')" "\<not> isdigit (CHR ''+'')"
  "\<not> isdigit (CHR ''.'')" "\<not> isdigit (CHR ''/'')" "\<not> isdigit (CHR '':'')"
  by (simp_all add: isdigit_def)

lemma not_isalnum [simp]:
  "\<not> isalnum SP" "\<not> isalnum LF" "\<not> isalnum NUL" "\<not> isalnum (CHR ''/'')" "\<not> isalnum (CHR ''.'')"
  by (simp_all add: isdigit_def isalpha_def isalnum_def)

lemma isdigit_not_isspace: "isdigit c \<Longrightarrow> \<not> isspace c"
  by (auto simp: isdigit_def isspace_def)

lemma isalnum_neqs:
  "isalnum c \<Longrightarrow> c \<noteq> SP" "isalnum c \<Longrightarrow> c \<noteq> LF" "isalnum c \<Longrightarrow> c \<noteq> NUL"
  "isalnum c \<Longrightarrow> c \<noteq> CHR ''/''"
  by (auto simp: isdigit_def isalpha_def isalnum_def)

lemma digit_val_bounds: "isdigit c \<Longrightarrow> 0 \<le> digit_val c \<and> digit_val c \<le> 9"
proof -
  assume "isdigit c"
  then have "48 \<le> (of_char c :: nat)" and "(of_char c :: nat) \<le> 57"
    by (simp_all add: isdigit_def)
  then have "48 \<le> int (of_char c)" and "int (of_char c) \<le> 57"
    by linarith+
  moreover have "(of_char c :: int) = int (of_char c)"
    by (rule of_nat_of_char [symmetric])
  ultimately show ?thesis unfolding digit_val_def by linarith
qed

lemma read_digits_bounds_aux:
  "(\<And>c. c \<in> set s \<Longrightarrow> isdigit c) \<Longrightarrow> 0 \<le> acc \<Longrightarrow>
     0 \<le> read_digits acc s \<and> read_digits acc s < (acc + 1) * 10 ^ length s"
proof (induction s arbitrary: acc)
  case Nil
  then show ?case by simp
next
  case (Cons c s)
  have c: "0 \<le> digit_val c" "digit_val c \<le> 9"
    using digit_val_bounds [of c] Cons.prems by auto
  have IH: "0 \<le> read_digits (10 * acc + digit_val c) s
      \<and> read_digits (10 * acc + digit_val c) s < (10 * acc + digit_val c + 1) * 10 ^ length s"
    using Cons.prems c by (intro Cons.IH) auto
  have "(10 * acc + digit_val c + 1) * 10 ^ length s \<le> ((acc + 1) * 10) * (10::int) ^ length s"
    using c by (intro mult_right_mono) auto
  with IH have "read_digits (10 * acc + digit_val c) s < (acc + 1) * 10 * 10 ^ length s"
    by linarith
  with IH show ?case using Cons.prems(1) [of c] by (simp add: algebra_simps)
qed

lemma read_digits_bounds:
  "(\<And>c. c \<in> set s \<Longrightarrow> isdigit c) \<Longrightarrow> 0 \<le> read_digits 0 s \<and> read_digits 0 s < 10 ^ length s"
  using read_digits_bounds_aux [of s 0] by simp

lemma c_int_id: "- (2 ^ 31) \<le> x \<Longrightarrow> x < 2 ^ 31 \<Longrightarrow> c_int x = x"
  by (simp add: c_int_def signed_of_int signed_take_bit_int_eq_self)

lemma strtol10_digits:
  assumes d: "\<And>c. c \<in> set s \<Longrightarrow> isdigit c" and len: "length s \<le> 18"
  shows "strtol10 s = read_digits 0 s"
proof -
  have sp: "dropWhile isspace s = s"
    using d isdigit_not_isspace by (intro dropWhile_none) (cases s, auto)
  have "0 \<le> read_digits 0 s \<and> read_digits 0 s < 10 ^ length s"
    using d by (rule read_digits_bounds)
  moreover have "(10::int) ^ length s \<le> 10 ^ 18" using len by (intro power_increasing) auto
  ultimately have "read_digits 0 s < 10 ^ 18" and "0 \<le> read_digits 0 s" by linarith+
  moreover have "(case s of [] \<Rightarrow> 0 | c # cs \<Rightarrow> if c = CHR ''-'' then - read_digits 0 cs
       else if c = CHR ''+'' then read_digits 0 cs else read_digits 0 s) = read_digits 0 s"
    using d isdigit_neqs by (cases s) auto
  ultimately show ?thesis by (simp add: strtol10_def sp Let_def)
qed

lemma atoi_digits:
  assumes d: "\<And>c. c \<in> set s \<Longrightarrow> isdigit c" and len: "length s \<le> 9"
  shows "atoi s = read_digits 0 s"
proof -
  have "0 \<le> read_digits 0 s \<and> read_digits 0 s < 10 ^ length s"
    using d by (rule read_digits_bounds)
  moreover have "(10::int) ^ length s \<le> 10 ^ 9" using len by (intro power_increasing) auto
  ultimately have "read_digits 0 s < 10 ^ 9" and "0 \<le> read_digits 0 s" by linarith+
  then show ?thesis using d len by (simp add: atoi_def strtol10_digits c_int_id)
qed

lemma atoi_bounds:
  assumes "\<And>c. c \<in> set s \<Longrightarrow> isdigit c" and "length s \<le> 9"
  shows "0 \<le> atoi s" and "atoi s < 10 ^ length s"
  using atoi_digits [OF assms] read_digits_bounds [of s] assms(1) by auto

lemma scan_d_digits:
  assumes "ds \<noteq> []" and d: "\<And>c. c \<in> set ds \<Longrightarrow> isdigit c" and len: "length ds = w"
  shows "scan_d w (ds @ rest) = Some (read_digits 0 ds, rest)"
proof -
  obtain x xs where ds: "ds = x # xs" using assms by (cases ds) auto
  with d have x: "isdigit x" by simp
  have sp: "dropWhile isspace (ds @ rest) = ds @ rest"
    using ds x isdigit_not_isspace by (intro dropWhile_none) auto
  have tk: "takeWhile isdigit (take w (ds @ rest)) = ds"
    using d len by (simp add: takeWhile_all)
  have sign: "\<not> (ds @ rest \<noteq> [] \<and> (hd (ds @ rest) = CHR ''-'' \<or> hd (ds @ rest) = CHR ''+''))"
    using ds x isdigit_neqs by auto
  show ?thesis using assms(1)
    by (simp only: scan_d_def sp Let_def sign if_False tk simp_thms) (simp add: len)
qed

section \<open>Broken-down time\<close>

text \<open>
  \<open>gmtime\<close> walks the proleptic Gregorian calendar from 1970: first the year, then the
  month. \<open>time_t\<close> is an integer number of seconds. (A real \<open>gmtime\<close> returns a null
  pointer for years beyond the range of \<open>int\<close>; the clock values of the model are below.)
\<close>

record tm =
  tm_year :: int
  tm_mon :: int
  tm_mday :: int
  tm_hour :: int
  tm_min :: int
  tm_sec :: int

definition leap :: "int \<Rightarrow> bool" where
  "leap y \<longleftrightarrow> (y mod 4 = 0 \<and> y mod 100 \<noteq> 0) \<or> y mod 400 = 0"

definition year_len :: "int \<Rightarrow> int" where
  "year_len y = (if leap y then 366 else 365)"

definition month_lens :: "int \<Rightarrow> int list" where
  "month_lens y = [31, if leap y then 29 else 28, 31, 30, 31, 30, 31, 31, 30, 31, 30, 31]"

function civil_year :: "int \<Rightarrow> int \<Rightarrow> int \<times> int" where
  "civil_year y d =
     (if d < 0 then civil_year (y - 1) (d + year_len (y - 1))
      else if d < year_len y then (y, d)
      else civil_year (y + 1) (d - year_len y))"
  by pat_completeness auto
termination
  by (relation "measure (\<lambda>(y, d). if d < 0 then nat (400 - d) else nat d)")
    (auto simp: year_len_def split: if_splits)

declare civil_year.simps [simp del]

fun civil_month :: "int list \<Rightarrow> int \<Rightarrow> int \<Rightarrow> int \<times> int" where
  "civil_month [] m d = (m, d)"
| "civil_month (l # ls) m d = (if d < l then (m, d) else civil_month ls (m + 1) (d - l))"

definition gmtime :: "int \<Rightarrow> tm" where
  "gmtime t =
     (let s = t mod 86400; (y, yd) = civil_year 1970 (t div 86400);
          (m, md) = civil_month (month_lens y) 0 yd
      in \<lparr>tm_year = y - 1900, tm_mon = m, tm_mday = md + 1,
           tm_hour = s div 3600, tm_min = s div 60 mod 60, tm_sec = s mod 60\<rparr>)"

lemma civil_year_bounds:
  "0 \<le> d \<Longrightarrow> civil_year y d = (y', d') \<Longrightarrow>
     y \<le> y' \<and> 365 * (y' - y) \<le> d \<and> 0 \<le> d' \<and> d' < year_len y'"
proof (induction y d rule: civil_year.induct)
  case (1 y d)
  show ?case
  proof (cases "d < year_len y")
    case True
    with "1.prems" show ?thesis by (subst (asm) civil_year.simps) auto
  next
    case False
    with "1.prems" have step: "civil_year (y + 1) (d - year_len y) = (y', d')"
      by (subst (asm) civil_year.simps) simp
    have "y + 1 \<le> y' \<and> 365 * (y' - (y + 1)) \<le> d - year_len y \<and> 0 \<le> d' \<and> d' < year_len y'"
      using "1.IH"(2) [OF _ _ _ step] False "1.prems" by simp
    then show ?thesis by (auto simp: year_len_def split: if_splits)
  qed
qed

lemma civil_month_bounds:
  "0 \<le> d \<Longrightarrow> d < sum_list ls \<Longrightarrow> (\<And>l. l \<in> set ls \<Longrightarrow> l \<le> 31) \<Longrightarrow> civil_month ls m d = (m', d') \<Longrightarrow>
     m \<le> m' \<and> m' < m + int (length ls) \<and> 0 \<le> d' \<and> d' < 31"
proof (induction ls m d rule: civil_month.induct)
  case (1 m d)
  then show ?case by simp
next
  case (2 l ls m d)
  show ?case
  proof (cases "d < l")
    case True
    moreover have "l \<le> 31" using "2.prems"(3) by simp
    moreover have "m' = m" and "d' = d" using "2.prems"(4) True by simp_all
    ultimately show ?thesis using "2.prems"(1) by simp
  next
    case False
    with "2.IH" [OF False] "2.prems"(2-) show ?thesis by auto
  qed
qed

lemma gmtime_bounds:
  assumes "0 \<le> t" and "t < 2 ^ 36"
  shows "70 \<le> tm_year (gmtime t)" "tm_year (gmtime t) \<le> 8099"
    "0 \<le> tm_mon (gmtime t)" "tm_mon (gmtime t) \<le> 11"
    "1 \<le> tm_mday (gmtime t)" "tm_mday (gmtime t) \<le> 31"
    "0 \<le> tm_hour (gmtime t)" "tm_hour (gmtime t) \<le> 23"
    "0 \<le> tm_min (gmtime t)" "tm_min (gmtime t) \<le> 59"
    "0 \<le> tm_sec (gmtime t)" "tm_sec (gmtime t) \<le> 59"
proof -
  obtain y yd where y: "civil_year 1970 (t div 86400) = (y, yd)" by fastforce
  obtain m md where m: "civil_month (month_lens y) 0 yd = (m, md)" by fastforce
  have d: "0 \<le> t div 86400" "t div 86400 \<le> 800000" using assms by (simp_all add: pos_imp_zdiv_nonneg_iff)
  have yb: "1970 \<le> y \<and> 365 * (y - 1970) \<le> t div 86400 \<and> 0 \<le> yd \<and> yd < year_len y"
    using civil_year_bounds [OF d(1) y] .
  have mb: "0 \<le> m \<and> m < 0 + int (length (month_lens y)) \<and> 0 \<le> md \<and> md < 31"
  proof (rule civil_month_bounds [OF _ _ _ m])
    show "0 \<le> yd" using yb by simp
    show "yd < sum_list (month_lens y)" using yb by (simp add: month_lens_def year_len_def split: if_splits)
    show "\<And>l. l \<in> set (month_lens y) \<Longrightarrow> l \<le> 31" by (auto simp: month_lens_def)
  qed
  have len: "length (month_lens y) = 12" by (simp add: month_lens_def)
  have g: "gmtime t = \<lparr>tm_year = y - 1900, tm_mon = m, tm_mday = md + 1,
      tm_hour = t mod 86400 div 3600, tm_min = t mod 86400 div 60 mod 60, tm_sec = t mod 86400 mod 60\<rparr>"
    by (simp only: gmtime_def y m Let_def prod.case)
  show "70 \<le> tm_year (gmtime t)" "tm_year (gmtime t) \<le> 8099" using yb d(2) by (simp_all add: g)
  show "0 \<le> tm_mon (gmtime t)" "tm_mon (gmtime t) \<le> 11" "1 \<le> tm_mday (gmtime t)"
    "tm_mday (gmtime t) \<le> 31" using mb by (simp_all add: g len)
  have s: "0 \<le> t mod 86400" "t mod 86400 < 86400" by simp_all
  show "0 \<le> tm_hour (gmtime t)" unfolding g tm.simps using s(1) by (rule pos_imp_zdiv_nonneg_iff [THEN iffD2, rotated]) simp
  have "u < 86400 \<Longrightarrow> u div 3600 < 24" for u :: int by presburger
  then have "t mod 86400 div 3600 < 24" using s(2) by blast
  then show "tm_hour (gmtime t) \<le> 23" unfolding g tm.simps by linarith
  have "u mod 60 < 60" "0 \<le> u mod 60" for u :: int by simp_all
  then show "0 \<le> tm_min (gmtime t)" "tm_min (gmtime t) \<le> 59" "0 \<le> tm_sec (gmtime t)"
    "tm_sec (gmtime t) \<le> 59" unfolding g tm.simps by (simp_all add: zle_diff1_eq [symmetric] del: zle_diff1_eq)
qed

text \<open>The format \<open>%Y-%m-%d %H:%M:%S\<close> of \<open>strftime\<close>.\<close>

definition strftime_datetime :: "tm \<Rightarrow> string" where
  "strftime_datetime t =
     fmt_d (tm_year t + 1900) @ ''-'' @ fmt_0d 2 (tm_mon t + 1) @ ''-'' @ fmt_0d 2 (tm_mday t) @ '' ''
       @ fmt_0d 2 (tm_hour t) @ '':'' @ fmt_0d 2 (tm_min t) @ '':'' @ fmt_0d 2 (tm_sec t)"

end
