(* ===== verification/Validators.thy ===== *)
theory Validators
  imports CLib "HOL-Library.Monad_Syntax"
begin

text \<open>
  \<open>utils/validators.c\<close> and \<open>utils/constants.h\<close>: the syntactic checks that client and
  server apply to every protocol field. A validator that returns 0 or 1 is a Boolean
  function on the C string it receives. \<open>is_valid_date_time\<close> copies its arguments into a
  64-byte array without a length check, so it has an outcome: \<open>Inl OutOfBounds\<close> when the
  two strings do not fit.
\<close>

section \<open>Constants\<close>

definition UID_SIZE :: nat where "UID_SIZE = 6"
definition PASSWORD_SIZE :: nat where "PASSWORD_SIZE = 8"
definition AID_SIZE :: nat where "AID_SIZE = 3"
definition ASSET_NAME_LEN :: nat where "ASSET_NAME_LEN = 10"
definition START_VALUE_LEN :: nat where "START_VALUE_LEN = 6"
definition TIME_ACTIVE_LEN :: nat where "TIME_ACTIVE_LEN = 5"
definition MAX_BID_VALUE :: nat where "MAX_BID_VALUE = 6"
definition FNAME_LEN :: nat where "FNAME_LEN = 24"
definition FSIZE_STR_LEN :: nat where "FSIZE_STR_LEN = 8"

lemmas constants = UID_SIZE_def PASSWORD_SIZE_def AID_SIZE_def ASSET_NAME_LEN_def
  START_VALUE_LEN_def TIME_ACTIVE_LEN_def MAX_BID_VALUE_def FNAME_LEN_def FSIZE_STR_LEN_def

section \<open>Validators\<close>

definition is_valid_port :: "string \<Rightarrow> bool" where
  "is_valid_port port = (let port_int = atoi port in \<not> (port_int \<le> 0 \<or> port_int \<ge> 65536))"

definition is_valid_uid :: "string \<Rightarrow> bool" where
  "is_valid_uid uid = (if length uid \<noteq> UID_SIZE then False else list_all isdigit uid)"

definition is_valid_passwd :: "string \<Rightarrow> bool" where
  "is_valid_passwd passwd =
     (if length passwd \<noteq> PASSWORD_SIZE then False else list_all isalnum passwd)"

definition is_valid_name_char :: "char \<Rightarrow> bool" where
  "is_valid_name_char c \<longleftrightarrow> isalnum c \<or> c = CHR ''-'' \<or> c = CHR ''@'' \<or> c = CHR ''!''
     \<or> c = CHR ''?'' \<or> c = CHR ''_''"

definition is_valid_name :: "string \<Rightarrow> bool" where
  "is_valid_name name =
     (if length name > ASSET_NAME_LEN then False else list_all is_valid_name_char name)"

definition is_valid_start_value :: "string \<Rightarrow> bool" where
  "is_valid_start_value sv =
     (if length sv > START_VALUE_LEN \<or> length sv = 0 then False else list_all isdigit sv)"

definition is_valid_time_active :: "string \<Rightarrow> bool" where
  "is_valid_time_active ta =
     (if length ta > TIME_ACTIVE_LEN \<or> length ta = 0 then False else list_all isdigit ta)"

definition is_valid_path_char :: "char \<Rightarrow> bool" where
  "is_valid_path_char c \<longleftrightarrow> c \<noteq> CHR ''/'' \<and> c \<noteq> CHR '':'' \<and> c \<noteq> CHR ''*'' \<and> c \<noteq> CHR 0x5C
     \<and> c \<noteq> CHR 0x60 \<and> c \<noteq> CHR ''~'' \<and> c \<noteq> CHR ''|'' \<and> c \<noteq> CHR ''?'' \<and> c \<noteq> CHR ''!''
     \<and> c \<noteq> CHR ''#'' \<and> c \<noteq> CHR ''$'' \<and> c \<noteq> CHR ''%''"

definition is_valid_fname :: "string \<Rightarrow> bool" where
  "is_valid_fname fname =
     (if length fname > FNAME_LEN \<or> length fname = 0 then False
      else if hd fname = CHR ''.'' then False
      else list_all is_valid_path_char fname)"

definition is_valid_fsize :: "string \<Rightarrow> bool" where
  "is_valid_fsize fsize =
     (if length fsize > FSIZE_STR_LEN \<or> length fsize = 0 then False else list_all isdigit fsize)"

definition is_valid_aid :: "string \<Rightarrow> bool" where
  "is_valid_aid aid = (if length aid \<noteq> AID_SIZE then False else list_all isdigit aid)"

text \<open>The \<open>sscanf\<close> call with \<open>%4d-%2d-%2d %2d:%2d:%2d\<close>, and the two corrections after it.\<close>

definition scan_date_time :: "string \<Rightarrow> tm option" where
  "scan_date_time s0 =
     do {
       (y, s) \<leftarrow> scan_d 4 s0; s \<leftarrow> scan_lit (CHR ''-'') s;
       (mo, s) \<leftarrow> scan_d 2 s; s \<leftarrow> scan_lit (CHR ''-'') s;
       (dd, s) \<leftarrow> scan_d 2 s;
       (h, s) \<leftarrow> scan_d 2 (scan_ws s); s \<leftarrow> scan_lit (CHR '':'') s;
       (mi, s) \<leftarrow> scan_d 2 s; s \<leftarrow> scan_lit (CHR '':'') s;
       (se, s) \<leftarrow> scan_d 2 s;
       Some \<lparr>tm_year = y - 1900, tm_mon = mo - 1, tm_mday = dd, tm_hour = h, tm_min = mi, tm_sec = se\<rparr>
     }"

definition is_valid_date_time :: "string \<Rightarrow> string \<Rightarrow> bool outcome" where
  "is_valid_date_time date time =
     (let date_time_str = date @ '' '' @ time
      in if length date_time_str \<ge> 64 then Inl OutOfBounds
         else case scan_date_time date_time_str of
                None \<Rightarrow> Inr False
              | Some tm \<Rightarrow>
                  let reconverted = strftime_datetime tm
                  in if length reconverted \<noteq> 19 then Inr False
                     else Inr (date_time_str = reconverted))"

lemmas validator_defs = is_valid_uid_def is_valid_passwd_def is_valid_name_def
  is_valid_start_value_def is_valid_time_active_def is_valid_fname_def is_valid_fsize_def
  is_valid_aid_def

section \<open>What a validated field looks like\<close>

lemma is_valid_uid_iff: "is_valid_uid u \<longleftrightarrow> length u = 6 \<and> (\<forall>c \<in> set u. isdigit c)"
  by (simp add: is_valid_uid_def constants list_all_iff)

lemma is_valid_passwd_iff: "is_valid_passwd p \<longleftrightarrow> length p = 8 \<and> (\<forall>c \<in> set p. isalnum c)"
  by (simp add: is_valid_passwd_def constants list_all_iff)

lemma is_valid_aid_iff: "is_valid_aid a \<longleftrightarrow> length a = 3 \<and> (\<forall>c \<in> set a. isdigit c)"
  by (simp add: is_valid_aid_def constants list_all_iff)

lemma is_valid_start_value_iff:
  "is_valid_start_value s \<longleftrightarrow> 0 < length s \<and> length s \<le> 6 \<and> (\<forall>c \<in> set s. isdigit c)"
  by (auto simp: is_valid_start_value_def constants list_all_iff)

lemma is_valid_time_active_iff:
  "is_valid_time_active s \<longleftrightarrow> 0 < length s \<and> length s \<le> 5 \<and> (\<forall>c \<in> set s. isdigit c)"
  by (auto simp: is_valid_time_active_def constants list_all_iff)

lemma is_valid_fsize_iff:
  "is_valid_fsize s \<longleftrightarrow> 0 < length s \<and> length s \<le> 8 \<and> (\<forall>c \<in> set s. isdigit c)"
  by (auto simp: is_valid_fsize_def constants list_all_iff)

lemma is_valid_name_iff:
  "is_valid_name s \<longleftrightarrow> length s \<le> 10 \<and> (\<forall>c \<in> set s. is_valid_name_char c)"
  by (auto simp: is_valid_name_def constants list_all_iff)

lemma is_valid_fname_iff:
  "is_valid_fname s \<longleftrightarrow> 0 < length s \<and> length s \<le> 24 \<and> hd s \<noteq> CHR ''.'' \<and> (\<forall>c \<in> set s. is_valid_path_char c)"
  by (auto simp: is_valid_fname_def constants list_all_iff)

lemmas validator_iffs = is_valid_uid_iff is_valid_passwd_iff is_valid_aid_iff
  is_valid_start_value_iff is_valid_time_active_iff is_valid_fsize_iff is_valid_name_iff
  is_valid_fname_iff

lemma valid_name_char_neqs:
  "is_valid_name_char c \<Longrightarrow> c \<noteq> SP" "is_valid_name_char c \<Longrightarrow> c \<noteq> LF" "is_valid_name_char c \<Longrightarrow> c \<noteq> NUL"
  by (auto simp: is_valid_name_char_def dest: isalnum_neqs)

lemma not_valid_name_char [simp]:
  "\<not> is_valid_name_char SP" "\<not> is_valid_name_char LF" "\<not> is_valid_name_char NUL"
  by (simp_all add: is_valid_name_char_def)

lemma valid_uid_clean: "is_valid_uid u \<Longrightarrow> u \<noteq> [] \<and> SP \<notin> set u \<and> LF \<notin> set u \<and> NUL \<notin> set u"
  by (auto simp: is_valid_uid_iff)

lemma valid_passwd_clean: "is_valid_passwd u \<Longrightarrow> u \<noteq> [] \<and> SP \<notin> set u \<and> LF \<notin> set u \<and> NUL \<notin> set u"
  by (auto simp: is_valid_passwd_iff)

lemma valid_aid_clean: "is_valid_aid u \<Longrightarrow> u \<noteq> [] \<and> SP \<notin> set u \<and> LF \<notin> set u \<and> NUL \<notin> set u"
  by (auto simp: is_valid_aid_iff)

lemma valid_start_value_atoi: "is_valid_start_value s \<Longrightarrow> 0 \<le> atoi s \<and> atoi s \<le> 999999"
proof -
  assume v: "is_valid_start_value s"
  then have "0 \<le> atoi s" and "atoi s < 10 ^ length s"
    using atoi_bounds [of s] by (auto simp: is_valid_start_value_iff)
  moreover have "(10::int) ^ length s \<le> 10 ^ 6"
    using v by (intro power_increasing) (auto simp: is_valid_start_value_iff)
  ultimately show ?thesis by simp
qed

lemma valid_time_active_atoi: "is_valid_time_active s \<Longrightarrow> 0 \<le> atoi s \<and> atoi s \<le> 99999"
proof -
  assume v: "is_valid_time_active s"
  then have "0 \<le> atoi s" and "atoi s < 10 ^ length s"
    using atoi_bounds [of s] by (auto simp: is_valid_time_active_iff)
  moreover have "(10::int) ^ length s \<le> 10 ^ 5"
    using v by (intro power_increasing) (auto simp: is_valid_time_active_iff)
  ultimately show ?thesis by simp
qed

lemma valid_aid_atoi: "is_valid_aid s \<Longrightarrow> 0 \<le> atoi s \<and> atoi s \<le> 999"
  using atoi_bounds [of s] by (auto simp: is_valid_aid_iff)

lemma fmt_d_valid_start_value: "0 \<le> i \<Longrightarrow> i \<le> 999999 \<Longrightarrow> is_valid_start_value (fmt_d i)"
  using fmt_d_length_le [of i 6] fmt_d_isdigit [of i] by (auto simp: is_valid_start_value_iff)

lemma fmt_d_valid_time_active: "0 \<le> i \<Longrightarrow> i \<le> 99999 \<Longrightarrow> is_valid_time_active (fmt_d i)"
  using fmt_d_length_le [of i 5] fmt_d_isdigit [of i] by (auto simp: is_valid_time_active_iff)

lemma fmt_0d_valid_aid: "0 \<le> i \<Longrightarrow> i \<le> 999 \<Longrightarrow> is_valid_aid (fmt_0d 3 i)"
  using fmt_0d_length [of i 3] fmt_0d_isdigit [of i] by (auto simp: is_valid_aid_iff)

lemma atoi_fmt_d: "0 \<le> i \<Longrightarrow> i < 10 ^ 9 \<Longrightarrow> atoi (fmt_d i) = i"
  using fmt_d_length_le [of i 9] atoi_digits [of "fmt_d i"] fmt_d_isdigit [of i]
  by (auto simp: read_digits_fmt_d)

lemma atoi_fmt_0d: "0 \<le> i \<Longrightarrow> i < 10 ^ w \<Longrightarrow> 0 < w \<Longrightarrow> w \<le> 9 \<Longrightarrow> atoi (fmt_0d w i) = i"
  using fmt_0d_length [of i w] atoi_digits [of "fmt_0d w i"] fmt_0d_isdigit [of i]
  by (auto simp: read_digits_fmt_0d)

text \<open>
  An aid is the three-digit decimal form of its number, so \<open>atoi\<close> and \<open>%03d\<close> are
  inverse on auction identifiers.
\<close>

lemma read_digits_inj:
  "length a = length b \<Longrightarrow> (\<And>c. c \<in> set a \<Longrightarrow> isdigit c) \<Longrightarrow> (\<And>c. c \<in> set b \<Longrightarrow> isdigit c) \<Longrightarrow>
     read_digits 0 a = read_digits 0 b \<Longrightarrow> a = b"
proof (induction a arbitrary: b rule: rev_induct)
  case Nil
  then show ?case by simp
next
  case (snoc x xs)
  then obtain y ys where b: "b = ys @ [y]" by (cases b rule: rev_cases) auto
  have dx: "isdigit x" "isdigit y" using snoc.prems(2,3) b by auto
  have eq: "10 * read_digits 0 xs + digit_val x = 10 * read_digits 0 ys + digit_val y"
    using snoc.prems b dx by (simp add: read_digits_append)
  have "0 \<le> digit_val x \<and> digit_val x \<le> 9" "0 \<le> digit_val y \<and> digit_val y \<le> 9"
    using dx digit_val_bounds by auto
  with eq have "read_digits 0 xs = read_digits 0 ys" and v: "digit_val x = digit_val y" by presburger+
  then have "xs = ys" using snoc.prems b by (intro snoc.IH) auto
  moreover have "x = y" using v by (simp add: digit_val_def)
  ultimately show ?case using b by simp
qed

lemma fmt_0d_atoi_aid:
  assumes "is_valid_aid a"
  shows "fmt_0d 3 (atoi a) = a"
proof (rule read_digits_inj)
  have b: "0 \<le> atoi a" "atoi a \<le> 999" using valid_aid_atoi [OF assms] by auto
  have d: "\<And>c. c \<in> set a \<Longrightarrow> isdigit c" and l: "length a = 3"
    using assms by (auto simp: is_valid_aid_iff)
  show "length (fmt_0d 3 (atoi a)) = length a" using b l by (simp add: fmt_0d_length)
  show "\<And>c. c \<in> set (fmt_0d 3 (atoi a)) \<Longrightarrow> isdigit c" using b by (auto dest: fmt_0d_isdigit)
  show "\<And>c. c \<in> set a \<Longrightarrow> isdigit c" by (rule d)
  show "read_digits 0 (fmt_0d 3 (atoi a)) = read_digits 0 a"
    using b d l by (simp add: read_digits_fmt_0d atoi_digits)
qed

section \<open>Date and time\<close>

text \<open>The two words of a time stamp, as \<open>sprintf\<close> writes them in \<open>database.c\<close>.\<close>

definition date_word :: "tm \<Rightarrow> string" where
  "date_word t = fmt_wd 4 (tm_year t + 1900) @ ''-'' @ fmt_0d 2 (tm_mon t + 1) @ ''-'' @ fmt_0d 2 (tm_mday t)"

definition time_word :: "tm \<Rightarrow> string" where
  "time_word t = fmt_0d 2 (tm_hour t) @ '':'' @ fmt_0d 2 (tm_min t) @ '':'' @ fmt_0d 2 (tm_sec t)"

definition tm_ok :: "tm \<Rightarrow> bool" where
  "tm_ok t \<longleftrightarrow> - 900 \<le> tm_year t \<and> tm_year t \<le> 8099 \<and> 0 \<le> tm_mon t \<and> tm_mon t \<le> 98
     \<and> 0 \<le> tm_mday t \<and> tm_mday t \<le> 99 \<and> 0 \<le> tm_hour t \<and> tm_hour t \<le> 99
     \<and> 0 \<le> tm_min t \<and> tm_min t \<le> 99 \<and> 0 \<le> tm_sec t \<and> tm_sec t \<le> 99"

lemma gmtime_ok: "0 \<le> t \<Longrightarrow> t < 2 ^ 36 \<Longrightarrow> tm_ok (gmtime t)"
  using gmtime_bounds [of t] by (simp add: tm_ok_def)

lemma fmt_2:
  assumes "0 \<le> i" "i \<le> 99"
  shows "length (fmt_0d 2 i) = 2" "fmt_0d 2 i \<noteq> []" "\<And>c. c \<in> set (fmt_0d 2 i) \<Longrightarrow> isdigit c"
    "scan_d 2 (fmt_0d 2 i @ rest) = Some (i, rest)" "scan_d 2 (fmt_0d 2 i) = Some (i, [])"
proof -
  show l: "length (fmt_0d 2 i) = 2" using assms by (simp add: fmt_0d_length)
  then show ne: "fmt_0d 2 i \<noteq> []" by auto
  show d: "\<And>c. c \<in> set (fmt_0d 2 i) \<Longrightarrow> isdigit c" using assms by (auto dest: fmt_0d_isdigit)
  show s: "scan_d 2 (fmt_0d 2 i @ rest) = Some (i, rest)" for rest
    using scan_d_digits [OF ne d l] assms by (simp add: read_digits_fmt_0d)
  show "scan_d 2 (fmt_0d 2 i) = Some (i, [])" using s [of "[]"] by simp
qed

lemma date_time_scan:
  assumes "tm_ok t"
  shows "scan_date_time (date_word t @ '' '' @ time_word t) = Some t"
proof -
  have y: "fmt_wd 4 (tm_year t + 1900) = digits (nat (tm_year t + 1900))"
    and yl: "length (digits (nat (tm_year t + 1900))) = 4"
    using assms fmt_wd_4 [of "tm_year t + 1900"] by (simp_all add: tm_ok_def)
  have ys: "scan_d 4 (digits (nat (tm_year t + 1900)) @ rest) = Some (tm_year t + 1900, rest)" for rest
    using scan_d_digits [OF digits_nonempty digits_isdigit yl] assms
    by (simp add: read_digits_digits tm_ok_def)
  have ws: "scan_ws (CHR '' '' # fmt_0d 2 (tm_hour t) @ rest) = fmt_0d 2 (tm_hour t) @ rest" for rest
  proof -
    obtain x xs where x: "fmt_0d 2 (tm_hour t) = x # xs" "isdigit x"
      using fmt_2 [of "tm_hour t"] assms by (cases "fmt_0d 2 (tm_hour t)") (auto simp: tm_ok_def)
    then show ?thesis by (simp add: scan_ws_def isdigit_not_isspace isspace_def [of SP])
  qed
  show ?thesis
    using assms unfolding tm_ok_def
    by (simp add: scan_date_time_def date_word_def time_word_def y ys ws fmt_2 scan_lit_def)
qed

lemma strftime_words:
  assumes "tm_ok t"
  shows "strftime_datetime t = date_word t @ '' '' @ time_word t"
    and "length (strftime_datetime t) = 19"
proof -
  have y: "fmt_wd 4 (tm_year t + 1900) = digits (nat (tm_year t + 1900))"
    and yl: "length (digits (nat (tm_year t + 1900))) = 4"
    using assms fmt_wd_4 [of "tm_year t + 1900"] by (simp_all add: tm_ok_def)
  have d: "fmt_d (tm_year t + 1900) = digits (nat (tm_year t + 1900))"
    using assms by (simp add: fmt_d_nonneg tm_ok_def)
  show "strftime_datetime t = date_word t @ '' '' @ time_word t"
    by (simp add: strftime_datetime_def date_word_def time_word_def y d)
  show "length (strftime_datetime t) = 19"
    using assms by (simp add: strftime_datetime_def d yl fmt_2 tm_ok_def)
qed

lemma date_time_words_valid:
  assumes "tm_ok t"
  shows "is_valid_date_time (date_word t) (time_word t) = Inr True"
  using date_time_scan [OF assms] strftime_words [OF assms]
  by (simp add: is_valid_date_time_def Let_def)

lemma date_word_clean:
  assumes "tm_ok t"
  shows "date_word t \<noteq> []" "length (date_word t) = 10" "SP \<notin> set (date_word t)" "LF \<notin> set (date_word t)"
    "NUL \<notin> set (date_word t)"
proof -
  have y: "fmt_wd 4 (tm_year t + 1900) = digits (nat (tm_year t + 1900))"
    and yl: "length (digits (nat (tm_year t + 1900))) = 4"
    using assms fmt_wd_4 [of "tm_year t + 1900"] by (simp_all add: tm_ok_def)
  show "date_word t \<noteq> []" by (simp add: date_word_def)
  show "length (date_word t) = 10" using assms by (simp add: date_word_def y yl fmt_2 tm_ok_def)
  have "c \<in> set (date_word t) \<Longrightarrow> isdigit c \<or> c = CHR ''-''" for c
    using assms by (auto simp: date_word_def y tm_ok_def dest: digits_isdigit fmt_0d_isdigit [rotated])
  then show "SP \<notin> set (date_word t)" "LF \<notin> set (date_word t)" "NUL \<notin> set (date_word t)"
    using isdigit_neqs by fastforce+
qed

lemma time_word_clean:
  assumes "tm_ok t"
  shows "time_word t \<noteq> []" "length (time_word t) = 8" "SP \<notin> set (time_word t)" "LF \<notin> set (time_word t)"
    "NUL \<notin> set (time_word t)"
proof -
  show "time_word t \<noteq> []" by (simp add: time_word_def)
  show "length (time_word t) = 8" using assms by (simp add: time_word_def fmt_2 tm_ok_def)
  have "c \<in> set (time_word t) \<Longrightarrow> isdigit c \<or> c = CHR '':''" for c
    using assms by (auto simp: time_word_def tm_ok_def dest: fmt_0d_isdigit [rotated])
  then show "SP \<notin> set (time_word t)" "LF \<notin> set (time_word t)" "NUL \<notin> set (time_word t)"
    using isdigit_neqs by fastforce+
qed

end
