(* ===== verification/FileSystem.thy ===== *)
theory FileSystem
  imports CLib "HOL-Library.AList"
begin

text \<open>
  The POSIX file operations \<open>server/database.c\<close> calls, on a tree of directories and
  regular files. A path is the list of its components, relative to the database root. The
  tree is an association list in creation order, which stands for the unspecified order of
  \<open>readdir\<close>. Two fields let every error branch of the program be reached: the operating
  system refuses to open, create or remove a path in \<open>denied\<close>, and when \<open>full\<close> holds a
  write stores nothing (\<open>ENOSPC\<close>). A small buffered \<open>fputs\<close> reports success even then,
  because the data is only written by \<open>fclose\<close>, whose result the program ignores.
\<close>

type_synonym path = "string list"

datatype node = Dir | File string

datatype errno = ENOENT | EEXIST | EACCES | ENOTEMPTY | EISDIR | ENOSPC

record fsys =
  nodes :: "(path \<times> node) list"
  denied :: "path list"
  full :: bool

section \<open>Lookup and update\<close>

definition fs_get :: "fsys \<Rightarrow> path \<Rightarrow> node option" where
  "fs_get s p = (if p = [] then Some Dir else map_of (nodes s) p)"

definition fs_put :: "path \<Rightarrow> node \<Rightarrow> fsys \<Rightarrow> fsys" where
  "fs_put p n s = s\<lparr>nodes := AList.update p n (nodes s)\<rparr>"

definition fs_del :: "path \<Rightarrow> fsys \<Rightarrow> fsys" where
  "fs_del p s = s\<lparr>nodes := AList.delete p (nodes s)\<rparr>"

definition fs_names :: "path \<Rightarrow> fsys \<Rightarrow> string list" where
  "fs_names d s = map last (filter (\<lambda>p. p \<noteq> [] \<and> butlast p = d) (map fst (nodes s)))"

section \<open>System calls\<close>

definition sys_mkdir :: "path \<Rightarrow> fsys \<Rightarrow> errno + fsys" where
  "sys_mkdir p s =
     (if fs_get s p \<noteq> None then Inl EEXIST
      else if p \<in> set (denied s) then Inl EACCES
      else if fs_get s (butlast p) \<noteq> Some Dir then Inl ENOENT
      else Inr (fs_put p Dir s))"

text \<open>\<open>open\<close> with \<open>O_CREAT\<close>: an existing file is left as it is (there is no \<open>O_TRUNC\<close>).\<close>

definition sys_creat :: "path \<Rightarrow> fsys \<Rightarrow> errno + fsys" where
  "sys_creat p s =
     (if p \<in> set (denied s) then Inl EACCES
      else case fs_get s p of
             Some (File _) \<Rightarrow> Inr s
           | Some Dir \<Rightarrow> Inl EISDIR
           | None \<Rightarrow> if fs_get s (butlast p) \<noteq> Some Dir then Inl ENOENT
                     else Inr (fs_put p (File []) s))"

text \<open>\<open>open\<close> or \<open>fopen\<close> for reading succeeds (a directory can be opened too).\<close>

definition sys_can_read :: "path \<Rightarrow> fsys \<Rightarrow> bool" where
  "sys_can_read p s \<longleftrightarrow> p \<notin> set (denied s) \<and> fs_get s p \<noteq> None"

text \<open>The first \<open>fgets(buf, n, fp)\<close> on a file opened for reading.\<close>

definition first_line :: "nat \<Rightarrow> string \<Rightarrow> string" where
  "first_line n c =
     take (n - 1) (takeWhile (\<lambda>x. x \<noteq> LF) c @ (if LF \<in> set c then [LF] else []))"

definition sys_fgets :: "nat \<Rightarrow> path \<Rightarrow> fsys \<Rightarrow> string option" where
  "sys_fgets n p s =
     (case fs_get s p of
        Some (File c) \<Rightarrow> if c = [] then None else Some (cstr (first_line n c))
      | _ \<Rightarrow> None)"

text \<open>\<open>fopen(p, "w")\<close>, \<open>fputs\<close>, \<open>fclose\<close>: \<open>Inl\<close> when the file cannot be opened.\<close>

definition sys_fputs :: "path \<Rightarrow> string \<Rightarrow> fsys \<Rightarrow> errno + fsys" where
  "sys_fputs p c s =
     (case sys_creat p s of
        Inl e \<Rightarrow> Inl e
      | Inr s' \<Rightarrow> Inr (fs_put p (File (if full s then [] else c)) s'))"

text \<open>\<open>write\<close> at offset 0 of a file that is open: it overwrites, it does not truncate.\<close>

definition sys_write0 :: "path \<Rightarrow> string \<Rightarrow> fsys \<Rightarrow> errno + fsys" where
  "sys_write0 p c s =
     (if full s then Inl ENOSPC
      else case fs_get s p of
             Some (File old) \<Rightarrow> Inr (fs_put p (File (c @ drop (length c) old)) s)
           | _ \<Rightarrow> Inl ENOENT)"

definition sys_remove :: "path \<Rightarrow> fsys \<Rightarrow> errno + fsys" where
  "sys_remove p s =
     (if p \<in> set (denied s) then Inl EACCES
      else case fs_get s p of
             None \<Rightarrow> Inl ENOENT
           | Some (File _) \<Rightarrow> Inr (fs_del p s)
           | Some Dir \<Rightarrow> if fs_names p s \<noteq> [] then Inl ENOTEMPTY else Inr (fs_del p s))"

text \<open>\<open>opendir\<close> with \<open>readdir\<close>, and \<open>scandir\<close> with \<open>alphasort\<close> in the C locale (byte order).\<close>

definition sys_readdir :: "path \<Rightarrow> fsys \<Rightarrow> string list option" where
  "sys_readdir d s =
     (if d \<notin> set (denied s) \<and> fs_get s d = Some Dir
      then Some ([''.'', ''..''] @ fs_names d s) else None)"

definition sys_scandir :: "path \<Rightarrow> fsys \<Rightarrow> string list option" where
  "sys_scandir d s = map_option sort (sys_readdir d s)"

text \<open>\<open>chdir\<close> to a subdirectory: paths are relative to it from then on.\<close>

definition sys_chdir :: "string \<Rightarrow> fsys \<Rightarrow> errno + fsys" where
  "sys_chdir d s =
     (if [d] \<in> set (denied s) then Inl EACCES
      else if fs_get s [d] \<noteq> Some Dir then Inl ENOENT
      else Inr (s\<lparr>nodes := [(tl p, n). (p, n) \<leftarrow> nodes s, p \<noteq> [] \<and> hd p = d \<and> tl p \<noteq> []],
                  denied := [tl p. p \<leftarrow> denied s, p \<noteq> [] \<and> hd p = d]\<rparr>))"

section \<open>Rules for lookup\<close>

lemma fs_get_root [simp]: "fs_get s [] = Some Dir"
  by (simp add: fs_get_def)

lemma fs_get_put [simp]: "p \<noteq> [] \<Longrightarrow> fs_get (fs_put p n s) q = (if q = p then Some n else fs_get s q)"
  by (auto simp: fs_get_def fs_put_def update_conv)

lemma fs_get_del [simp]: "p \<noteq> [] \<Longrightarrow> fs_get (fs_del p s) q = (if q = p then None else fs_get s q)"
  by (auto simp: fs_get_def fs_del_def delete_conv)

lemma fs_put_frame [simp]: "denied (fs_put p n s) = denied s" "full (fs_put p n s) = full s"
  by (simp_all add: fs_put_def)

lemma fs_del_frame [simp]: "denied (fs_del p s) = denied s" "full (fs_del p s) = full s"
  by (simp_all add: fs_del_def)

definition fs_keys :: "fsys \<Rightarrow> path list" where
  "fs_keys s = map fst (nodes s)"

lemma fs_keys_iff: "p \<noteq> [] \<Longrightarrow> p \<in> set (fs_keys s) \<longleftrightarrow> fs_get s p \<noteq> None"
  by (auto simp: fs_get_def fs_keys_def map_of_eq_None_iff)

lemma fs_keys_put: "fs_keys (fs_put p n s) = (if p \<in> set (fs_keys s) then fs_keys s else fs_keys s @ [p])"
  by (simp add: fs_keys_def fs_put_def update_keys)

lemma fs_keys_del: "fs_keys (fs_del p s) = filter (\<lambda>q. q \<noteq> p) (fs_keys s)"
  by (simp add: fs_keys_def fs_del_def delete_keys removeAll_filter_not_eq eq_commute)

lemma fs_names_keys: "fs_names d s = map last (filter (\<lambda>p. p \<noteq> [] \<and> butlast p = d) (fs_keys s))"
  by (simp add: fs_names_def fs_keys_def)

lemma set_fs_names: "x \<in> set (fs_names d s) \<longleftrightarrow> fs_get s (d @ [x]) \<noteq> None"
proof -
  have "x \<in> set (fs_names d s) \<longleftrightarrow> d @ [x] \<in> set (fs_keys s)"
    by (auto simp: fs_names_keys image_iff)
  then show ?thesis by (simp add: fs_keys_iff)
qed

lemma fs_names_put:
  "p \<noteq> [] \<Longrightarrow> fs_names d (fs_put p n s)
     = (if fs_get s p = None \<and> butlast p = d then fs_names d s @ [last p] else fs_names d s)"
  by (auto simp: fs_names_keys fs_keys_put fs_keys_iff)

lemma fs_names_put_snoc [simp]:
  "fs_names d (fs_put (e @ [x]) n s)
     = (if fs_get s (e @ [x]) = None \<and> e = d then fs_names d s @ [x] else fs_names d s)"
  by (auto simp: fs_names_put)

section \<open>Well-formed trees\<close>

text \<open>Names are unique and every parent is a directory.\<close>

definition fs_wf :: "fsys \<Rightarrow> bool" where
  "fs_wf s \<longleftrightarrow> distinct (fs_keys s) \<and> [] \<notin> set (fs_keys s)
     \<and> (\<forall>p \<in> set (fs_keys s). fs_get s (butlast p) = Some Dir)"

definition healthy :: "fsys \<Rightarrow> bool" where
  "healthy s \<longleftrightarrow> denied s = [] \<and> \<not> full s"

lemma healthy_simps [simp]:
  "healthy (fs_put p n s) = healthy s" "healthy (fs_del p s) = healthy s"
  by (simp_all add: healthy_def)

lemma fs_wf_put:
  assumes "fs_wf s" and "p \<noteq> []" and "fs_get s (butlast p) = Some Dir"
    and "fs_get s p = Some Dir \<Longrightarrow> n = Dir"
  shows "fs_wf (fs_put p n s)"
proof -
  have "p \<noteq> butlast p" using assms(2) by (metis append_butlast_last_id append_self_conv list.distinct(1))
  then show ?thesis using assms by (auto simp: fs_wf_def fs_keys_put fs_keys_iff)
qed

lemma fs_wf_parent: "fs_wf s \<Longrightarrow> p \<noteq> [] \<Longrightarrow> fs_get s p \<noteq> None \<Longrightarrow> fs_get s (butlast p) = Some Dir"
  by (simp add: fs_wf_def fs_keys_iff)

lemma fs_wf_del_file:
  assumes wf: "fs_wf s" and p: "p \<noteq> []" and f: "fs_get s p = Some (File c)"
  shows "fs_wf (fs_del p s)"
  using assms by (auto simp: fs_wf_def fs_keys_del)

lemma fs_wf_del_dir:
  assumes wf: "fs_wf s" and p: "p \<noteq> []" and e: "fs_names p s = []"
  shows "fs_wf (fs_del p s)"
proof -
  have "butlast q \<noteq> p" if "q \<in> set (fs_keys s)" "q \<noteq> p" for q
  proof
    assume "butlast q = p"
    moreover have "q \<noteq> []" using that wf by (auto simp: fs_wf_def)
    ultimately have "last q \<in> set (fs_names p s)"
      using that by (auto simp: fs_names_keys)
    with e show False by simp
  qed
  with wf p show ?thesis by (auto simp: fs_wf_def fs_keys_del)
qed

lemma distinct_fs_names: "fs_wf s \<Longrightarrow> distinct (fs_names d s)"
proof -
  assume "fs_wf s"
  then have "distinct (filter (\<lambda>p. p \<noteq> [] \<and> butlast p = d) (fs_keys s))"
    by (simp add: fs_wf_def)
  then show ?thesis
    unfolding fs_names_keys
    by (simp add: distinct_map inj_on_def) (metis append_butlast_last_id)
qed

section \<open>What the system calls do on a healthy disk\<close>

lemma sys_mkdir_Inr:
  "sys_mkdir p s = Inr s' \<Longrightarrow>
     s' = fs_put p Dir s \<and> fs_get s p = None \<and> fs_get s (butlast p) = Some Dir \<and> p \<noteq> []"
  by (auto simp: sys_mkdir_def split: if_splits)

lemma sys_mkdir_new:
  "healthy s \<Longrightarrow> fs_get s p = None \<Longrightarrow> fs_get s (butlast p) = Some Dir \<Longrightarrow>
     sys_mkdir p s = Inr (fs_put p Dir s)"
  by (simp add: sys_mkdir_def healthy_def)

lemma sys_mkdir_old: "fs_get s p \<noteq> None \<Longrightarrow> sys_mkdir p s = Inl EEXIST"
  by (simp add: sys_mkdir_def)

lemma sys_creat_new:
  "healthy s \<Longrightarrow> fs_get s p = None \<Longrightarrow> fs_get s (butlast p) = Some Dir \<Longrightarrow>
     sys_creat p s = Inr (fs_put p (File []) s)"
  by (simp add: sys_creat_def healthy_def)

lemma sys_creat_old: "healthy s \<Longrightarrow> fs_get s p = Some (File c) \<Longrightarrow> sys_creat p s = Inr s"
  by (simp add: sys_creat_def healthy_def)

lemma sys_fputs_ok:
  "healthy s \<Longrightarrow> fs_get s p \<noteq> Some Dir \<Longrightarrow> fs_get s (butlast p) = Some Dir \<Longrightarrow>
     \<exists>s'. sys_fputs p c s = Inr s' \<and> s' = fs_put p (File c) (if fs_get s p = None then fs_put p (File []) s else s)"
  by (auto simp: sys_fputs_def sys_creat_def healthy_def split: option.splits node.splits)

lemma AList_update_update: "AList.update p n (AList.update p m xs) = AList.update p n xs"
  by (induction xs) auto

lemma fs_put_put [simp]: "fs_put p n (fs_put p m s) = fs_put p n s"
  by (simp add: fs_put_def AList_update_update)

lemma sys_fputs_eq:
  "healthy s \<Longrightarrow> fs_get s p \<noteq> Some Dir \<Longrightarrow> fs_get s (butlast p) = Some Dir \<Longrightarrow>
     sys_fputs p c s = Inr (fs_put p (File c) s)"
  using sys_fputs_ok [of s p c] by (auto split: if_splits)

lemma sys_can_read_healthy: "healthy s \<Longrightarrow> sys_can_read p s \<longleftrightarrow> fs_get s p \<noteq> None"
  by (simp add: sys_can_read_def healthy_def)

lemma sys_remove_file: "healthy s \<Longrightarrow> fs_get s p = Some (File c) \<Longrightarrow> sys_remove p s = Inr (fs_del p s)"
  by (simp add: sys_remove_def healthy_def)

lemma sys_readdir_healthy:
  "healthy s \<Longrightarrow> fs_get s d = Some Dir \<Longrightarrow> sys_readdir d s = Some ([''.'', ''..''] @ fs_names d s)"
  by (simp add: sys_readdir_def healthy_def)

lemmas sys_healthy [fs_simps] = sys_mkdir_new sys_mkdir_old sys_creat_new sys_creat_old sys_fputs_eq
  sys_can_read_healthy sys_remove_file sys_readdir_healthy

text \<open>Reading back one line that was written.\<close>

lemma first_line_all: "LF \<notin> set c \<Longrightarrow> length c < n \<Longrightarrow> first_line n c = c"
proof -
  assume c: "LF \<notin> set c" and len: "length c < n"
  have tw: "takeWhile (\<lambda>x. x \<noteq> LF) c = c" using c by (intro takeWhile_all) auto
  show ?thesis unfolding first_line_def tw using c len by simp
qed

lemma first_line_lf:
  assumes "LF \<notin> set c" and "length c + 1 < n"
  shows "first_line n (c @ [LF]) = c @ [LF]"
proof -
  have "takeWhile (\<lambda>x. x \<noteq> LF) (c @ [LF]) = c" using assms by (intro takeWhile_until) auto
  then show ?thesis using assms by (simp add: first_line_def)
qed

section \<open>Sorted listings\<close>

lemma sort_dots:
  assumes "\<forall>x \<in> set xs. ''..'' < x"
  shows "sort ([''.'', ''..''] @ xs) = ''.'' # ''..'' # sort xs"
proof -
  have le: "\<forall>x \<in> set (sort xs). ''..'' \<le> x" using assms by (simp add: less_imp_le)
  have dot: "(''.'' :: string) \<le> ''..''" by simp
  have "\<forall>x \<in> set (''..'' # sort xs). ''.'' \<le> x"
  proof
    fix x
    assume "x \<in> set (''..'' # sort xs)"
    then have "''..'' \<le> x" using le by (cases "x = ''..''") (simp_all only: set_simps insert_iff simp_thms order.refl)
    with dot show "''.'' \<le> x" by (rule order.trans)
  qed
  then show ?thesis using le by (simp add: insort_is_Cons)
qed

end
