(* ===== verification/DbUsers.thy ===== *)
theory DbUsers
  imports Validators FileSystem
begin

text \<open>
  The accounts of \<open>server/database.c\<close>. A user \<open>uid\<close> owns the directory
  \<open>USERS/uid\<close> with the directories \<open>HOSTED\<close> and \<open>BIDDED\<close>; the user is registered when
  \<open>uid_pass.txt\<close> exists (it holds the password) and logged in when \<open>uid_login.txt\<close>
  exists. Every function of the database API takes the one database mutex and releases it
  on each of its return paths, so it is one atomic function on the database state
  \<open>db\<close>: the file tree and the static counter \<open>auc_count\<close>. A function returns its C
  result with the new state.

  The locale \<open>user_store\<close> states what the protocol handlers rely on: an account table
  (\<open>view\<close>) that the four mutators update at one user and leave alone elsewhere, and
  three queries that read it. \<open>us\<close> interprets it on the model of the code.
\<close>

record db =
  fs :: fsys
  auc_count :: int

section \<open>Paths\<close>

text \<open>The code formats the uid with \<open>%6s\<close> (padding) in some paths and \<open>%.6s\<close> (cutting) in others.\<close>

definition pass_path :: "string \<Rightarrow> path" where
  "pass_path uid = [''USERS'', fmt_ws 6 uid, fmt_ws 6 uid @ ''_pass.txt'']"

definition pass_path_cut :: "string \<Rightarrow> path" where
  "pass_path_cut uid = [''USERS'', take 6 uid, take 6 uid @ ''_pass.txt'']"

definition login_path :: "string \<Rightarrow> path" where
  "login_path uid = [''USERS'', fmt_ws 6 uid, fmt_ws 6 uid @ ''_login.txt'']"

definition login_path_cut :: "string \<Rightarrow> path" where
  "login_path_cut uid = [''USERS'', take 6 uid, take 6 uid @ ''_login.txt'']"

lemmas user_paths = pass_path_def pass_path_cut_def login_path_def login_path_cut_def

section \<open>Queries\<close>

definition exists_user :: "string \<Rightarrow> db \<Rightarrow> bool" where
  "exists_user uid d = sys_can_read (pass_path uid) (fs d)"

definition is_user_logged_in :: "string \<Rightarrow> db \<Rightarrow> bool" where
  "is_user_logged_in uid d = sys_can_read (login_path uid) (fs d)"

text \<open>The result is 1, 0, or \<open>-1\<close> when the password file is empty.\<close>

definition is_authentic_user :: "string \<Rightarrow> string \<Rightarrow> db \<Rightarrow> int" where
  "is_authentic_user uid passwd d =
     (if \<not> sys_can_read (pass_path_cut uid) (fs d) then 0
      else case sys_fgets 16 (pass_path_cut uid) (fs d) of
             None \<Rightarrow> - 1
           | Some stored_password \<Rightarrow> if stored_password = passwd then 1 else 0)"

section \<open>Actions\<close>

definition log_in_user :: "string \<Rightarrow> db \<Rightarrow> int \<times> db" where
  "log_in_user uid d =
     (case sys_creat (login_path uid) (fs d) of
        Inl _ \<Rightarrow> (- 1, d)
      | Inr s \<Rightarrow> (0, d\<lparr>fs := s\<rparr>))"

definition log_out_user :: "string \<Rightarrow> db \<Rightarrow> int \<times> db" where
  "log_out_user uid d =
     (case sys_remove (login_path_cut uid) (fs d) of
        Inl _ \<Rightarrow> (- 1, d)
      | Inr s \<Rightarrow> (0, d\<lparr>fs := s\<rparr>))"

text \<open>\<open>mkdir\<close> where the code accepts \<open>EEXIST\<close>, and \<open>remove\<close> whose failure it only logs.\<close>

definition mkdir_if_absent :: "path \<Rightarrow> fsys \<Rightarrow> fsys option" where
  "mkdir_if_absent p s =
     (case sys_mkdir p s of
        Inl EEXIST \<Rightarrow> Some s
      | Inl _ \<Rightarrow> None
      | Inr s' \<Rightarrow> Some s')"

definition try_remove :: "path \<Rightarrow> fsys \<Rightarrow> fsys" where
  "try_remove p s = (case sys_remove p s of Inl _ \<Rightarrow> s | Inr s' \<Rightarrow> s')"

definition register_user :: "string \<Rightarrow> string \<Rightarrow> db \<Rightarrow> int \<times> db" where
  "register_user uid passwd d =
     (case mkdir_if_absent [''USERS'', take 6 uid] (fs d) of
        None \<Rightarrow> (- 1, d)
      | Some s1 \<Rightarrow>
     (case mkdir_if_absent [''USERS'', take 6 uid, ''HOSTED''] s1 of
        None \<Rightarrow> (- 1, d\<lparr>fs := s1\<rparr>)
      | Some s2 \<Rightarrow>
     (case mkdir_if_absent [''USERS'', fmt_ws 6 uid, ''BIDDED''] s2 of
        None \<Rightarrow> (- 1, d\<lparr>fs := s2\<rparr>)
      | Some s3 \<Rightarrow>
     (case sys_creat (login_path uid) s3 of
        Inl _ \<Rightarrow> (- 1, d\<lparr>fs := s3\<rparr>)
      | Inr s4 \<Rightarrow>
     (case sys_creat (pass_path uid) s4 of
        Inl _ \<Rightarrow> (- 1, d\<lparr>fs := s4\<rparr>)
      | Inr s5 \<Rightarrow>
     (case sys_write0 (pass_path uid) (take 8 passwd) s5 of
        Inl _ \<Rightarrow> (- 1, d\<lparr>fs := try_remove (pass_path uid) s5\<rparr>)
      | Inr s6 \<Rightarrow> (0, d\<lparr>fs := s6\<rparr>)))))))"

definition unregister_user :: "string \<Rightarrow> db \<Rightarrow> int \<times> db" where
  "unregister_user uid d =
     (case sys_remove (login_path uid) (fs d) of
        Inl _ \<Rightarrow> (- 1, d)
      | Inr s1 \<Rightarrow>
     (case sys_remove (pass_path_cut uid) s1 of
        Inl _ \<Rightarrow> (- 1, d\<lparr>fs := s1\<rparr>)
      | Inr s2 \<Rightarrow> (0, d\<lparr>fs := s2\<rparr>)))"

section \<open>The account table and its invariant\<close>

definition user_view :: "db \<Rightarrow> string \<Rightarrow> (string \<times> bool) option" where
  "user_view d uid =
     (if \<not> is_valid_uid uid then None
      else case fs_get (fs d) (pass_path uid) of
             Some (File pw) \<Rightarrow> Some (pw, fs_get (fs d) (login_path uid) \<noteq> None)
           | _ \<Rightarrow> None)"

text \<open>What the tree holds for one user.\<close>

definition is_dir_or_none :: "node option \<Rightarrow> bool" where
  "is_dir_or_none n \<longleftrightarrow> n = None \<or> n = Some Dir"

definition is_file_or_none :: "node option \<Rightarrow> bool" where
  "is_file_or_none n \<longleftrightarrow> n \<noteq> Some Dir"

definition user_ok :: "fsys \<Rightarrow> string \<Rightarrow> bool" where
  "user_ok s u \<longleftrightarrow>
     is_dir_or_none (fs_get s [''USERS'', u])
     \<and> is_dir_or_none (fs_get s [''USERS'', u, ''HOSTED''])
     \<and> is_dir_or_none (fs_get s [''USERS'', u, ''BIDDED''])
     \<and> is_file_or_none (fs_get s (login_path u))
     \<and> (case fs_get s (pass_path u) of
          None \<Rightarrow> fs_get s (login_path u) = None
        | Some Dir \<Rightarrow> False
        | Some (File pw) \<Rightarrow> is_valid_passwd pw \<and> fs_get s [''USERS'', u, ''HOSTED''] = Some Dir
             \<and> fs_get s [''USERS'', u, ''BIDDED''] = Some Dir)"

definition users_inv :: "db \<Rightarrow> bool" where
  "users_inv d \<longleftrightarrow> healthy (fs d) \<and> fs_wf (fs d) \<and> fs_get (fs d) [''USERS''] = Some Dir
     \<and> (\<forall>u. is_valid_uid u \<longrightarrow> user_ok (fs d) u)"

lemma users_invD:
  assumes "users_inv d"
  shows "healthy (fs d)" "fs_wf (fs d)" "fs_get (fs d) [''USERS''] = Some Dir"
    "is_valid_uid u \<Longrightarrow> user_ok (fs d) u"
  using assms by (auto simp: users_inv_def)

lemma valid_uid_paths:
  assumes "is_valid_uid u"
  shows "take 6 u = u" "fmt_ws 6 u = u"
    "pass_path_cut u = pass_path u" "login_path_cut u = login_path u"
    "pass_path u = [''USERS'', u, u @ ''_pass.txt'']" "login_path u = [''USERS'', u, u @ ''_login.txt'']"
  using assms by (auto simp: is_valid_uid_iff user_paths)

lemma length_neq_strings:
  "u @ ''_pass.txt'' \<noteq> ''HOSTED''" "u @ ''_pass.txt'' \<noteq> ''BIDDED''"
  "u @ ''_login.txt'' \<noteq> ''HOSTED''" "u @ ''_login.txt'' \<noteq> ''BIDDED''"
  by (auto dest!: arg_cong [where f = length])

lemmas name_neqs [simp] = length_neq_strings length_neq_strings [symmetric]

text \<open>Reading the invariant off the account table, and establishing it again.\<close>

lemma user_view_SomeD:
  assumes "users_inv d" "is_valid_uid u" "user_view d u = Some (pw, l)"
  shows "fs_get (fs d) (pass_path u) = Some (File pw)" "is_valid_passwd pw"
    "l \<longleftrightarrow> fs_get (fs d) (login_path u) \<noteq> None" "fs_get (fs d) (login_path u) \<noteq> Some Dir"
    "fs_get (fs d) [''USERS'', u] = Some Dir" "fs_get (fs d) [''USERS'', u, ''HOSTED''] = Some Dir"
    "fs_get (fs d) [''USERS'', u, ''BIDDED''] = Some Dir"
proof -
  have ok: "user_ok (fs d) u" using assms by (simp add: users_inv_def)
  show pass: "fs_get (fs d) (pass_path u) = Some (File pw)"
    and "l \<longleftrightarrow> fs_get (fs d) (login_path u) \<noteq> None"
    using assms(2,3) by (auto simp: user_view_def split: option.splits node.splits)
  show "is_valid_passwd pw" "fs_get (fs d) (login_path u) \<noteq> Some Dir"
    and hosted: "fs_get (fs d) [''USERS'', u, ''HOSTED''] = Some Dir"
    and "fs_get (fs d) [''USERS'', u, ''BIDDED''] = Some Dir"
    using ok pass by (simp_all add: user_ok_def is_file_or_none_def)
  show "fs_get (fs d) [''USERS'', u] = Some Dir"
    using fs_wf_parent [OF users_invD(2) [OF assms(1)], of "[''USERS'', u, ''HOSTED'']"] hosted by simp
qed

lemma user_view_NoneD:
  assumes "users_inv d" "is_valid_uid u" "user_view d u = None"
  shows "fs_get (fs d) (pass_path u) = None" "fs_get (fs d) (login_path u) = None"
    "is_dir_or_none (fs_get (fs d) [''USERS'', u])" "is_dir_or_none (fs_get (fs d) [''USERS'', u, ''HOSTED''])"
    "is_dir_or_none (fs_get (fs d) [''USERS'', u, ''BIDDED''])"
proof -
  have ok: "user_ok (fs d) u" using assms by (simp add: users_inv_def)
  show pass: "fs_get (fs d) (pass_path u) = None"
    using assms(2,3) ok by (auto simp: user_view_def user_ok_def split: option.splits node.splits)
  show "fs_get (fs d) (login_path u) = None"
    "is_dir_or_none (fs_get (fs d) [''USERS'', u])" "is_dir_or_none (fs_get (fs d) [''USERS'', u, ''HOSTED''])"
    "is_dir_or_none (fs_get (fs d) [''USERS'', u, ''BIDDED''])"
    using ok pass by (simp_all add: user_ok_def)
qed

lemma user_view_Some_eq:
  "is_valid_uid u \<Longrightarrow> fs_get (fs d) (pass_path u) = Some (File pw) \<Longrightarrow>
     user_view d u = Some (pw, fs_get (fs d) (login_path u) \<noteq> None)"
  by (simp add: user_view_def)

lemma user_view_None_eq: "fs_get (fs d) (pass_path u) = None \<Longrightarrow> user_view d u = None"
  by (simp add: user_view_def)

lemma user_ok_registered:
  assumes "fs_get s (pass_path u) = Some (File pw)" "is_valid_passwd pw" "fs_get s (login_path u) \<noteq> Some Dir"
    "fs_get s [''USERS'', u] = Some Dir" "fs_get s [''USERS'', u, ''HOSTED''] = Some Dir"
    "fs_get s [''USERS'', u, ''BIDDED''] = Some Dir"
  shows "user_ok s u"
  using assms by (simp add: user_ok_def is_dir_or_none_def is_file_or_none_def)

lemma user_ok_cong:
  assumes "fs_get s [''USERS'', u] = fs_get s' [''USERS'', u]"
    "fs_get s [''USERS'', u, ''HOSTED''] = fs_get s' [''USERS'', u, ''HOSTED'']"
    "fs_get s [''USERS'', u, ''BIDDED''] = fs_get s' [''USERS'', u, ''BIDDED'']"
    "fs_get s (login_path u) = fs_get s' (login_path u)" "fs_get s (pass_path u) = fs_get s' (pass_path u)"
  shows "user_ok s u = user_ok s' u"
  unfolding user_ok_def assms ..

text \<open>A step that changes the files of one user only keeps the invariant if that user stays well formed.\<close>

lemma users_inv_frame:
  assumes inv: "users_inv d" and u: "is_valid_uid u"
    and h: "healthy s" and wf: "fs_wf s" and ok: "user_ok s u"
    and same: "\<And>p. take 2 p \<noteq> [''USERS'', u] \<Longrightarrow> fs_get s p = fs_get (fs d) p"
  shows "users_inv (d\<lparr>fs := s\<rparr>)"
proof -
  have "user_ok s v" if v: "is_valid_uid v" for v
  proof (cases "v = u")
    case True
    with ok show ?thesis by simp
  next
    case False
    then have "user_ok s v = user_ok (fs d) v"
      using valid_uid_paths [OF v] by (intro user_ok_cong same) auto
    then show ?thesis using users_invD(4) [OF inv v] by simp
  qed
  moreover have "fs_get s [''USERS''] = Some Dir" using inv same by (simp add: users_inv_def)
  ultimately show ?thesis using h wf by (simp add: users_inv_def)
qed

lemma user_view_cong:
  assumes "is_valid_uid v \<Longrightarrow> fs_get (fs e) (login_path v) = fs_get (fs d) (login_path v)"
    "is_valid_uid v \<Longrightarrow> fs_get (fs e) (pass_path v) = fs_get (fs d) (pass_path v)"
  shows "user_view e v = user_view d v"
proof (cases "is_valid_uid v")
  case True
  show ?thesis unfolding user_view_def assms(1) [OF True] assms(2) [OF True] ..
next
  case False
  then show ?thesis by (simp add: user_view_def)
qed

lemma user_view_update:
  assumes u: "is_valid_uid u" and same: "\<And>p. take 2 p \<noteq> [''USERS'', u] \<Longrightarrow> fs_get (fs e) p = fs_get (fs d) p"
    and at: "user_view e u = r"
  shows "user_view e = (user_view d)(u := r)"
proof
  fix w
  show "user_view e w = ((user_view d)(u := r)) w"
  proof (cases "w = u")
    case False
    then have "user_view e w = user_view d w"
      using valid_uid_paths [of w] by (intro user_view_cong same) auto
    with False show ?thesis by simp
  qed (use at in simp)
qed

section \<open>The queries read the account table\<close>

lemma user_view_cases:
  assumes "users_inv d" "is_valid_uid u"
  obtains "user_view d u = None" "fs_get (fs d) (pass_path u) = None" "fs_get (fs d) (login_path u) = None"
  | pw l where "user_view d u = Some (pw, l)" "fs_get (fs d) (pass_path u) = Some (File pw)"
      "is_valid_passwd pw" "l \<longleftrightarrow> fs_get (fs d) (login_path u) \<noteq> None"
proof (cases "user_view d u")
  case None
  show ?thesis by (rule that(1) [OF None user_view_NoneD(1,2) [OF assms None]])
next
  case (Some r)
  obtain pw l where "r = (pw, l)" by fastforce
  with Some have v: "user_view d u = Some (pw, l)" by simp
  show ?thesis by (rule that(2) [OF v user_view_SomeD(1-3) [OF assms v]])
qed

lemma exists_user_view:
  assumes "users_inv d" "is_valid_uid u"
  shows "exists_user u d \<longleftrightarrow> user_view d u \<noteq> None"
  using user_view_cases [OF assms] users_invD(1) [OF assms(1)]
  by cases (simp_all add: exists_user_def sys_can_read_healthy)

lemma is_user_logged_in_view:
  assumes "users_inv d" "is_valid_uid u"
  shows "is_user_logged_in u d \<longleftrightarrow> (\<exists>pw. user_view d u = Some (pw, True))"
  using user_view_cases [OF assms] users_invD(1) [OF assms(1)]
  by cases (simp_all add: is_user_logged_in_def sys_can_read_healthy)

lemma passwd_fgets:
  assumes "is_valid_passwd pw" "fs_get s p = Some (File pw)"
  shows "sys_fgets 16 p s = Some pw"
proof -
  have len: "length pw = 8" using assms(1) by (simp add: is_valid_passwd_iff)
  have clean: "LF \<notin> set pw" "NUL \<notin> set pw" "pw \<noteq> []"
    using valid_passwd_clean [OF assms(1)] by simp_all
  have "first_line 16 pw = pw" using len clean by (intro first_line_all) simp_all
  then show ?thesis using assms(2) clean by (simp add: sys_fgets_def cstr_no_nul)
qed

lemma is_authentic_user_view:
  assumes "users_inv d" "is_valid_uid u"
  shows "is_authentic_user u pw d = (if \<exists>l. user_view d u = Some (pw, l) then 1 else 0)"
  using user_view_cases [OF assms] users_invD(1) [OF assms(1)]
  by cases (auto simp: is_authentic_user_def sys_can_read_healthy valid_uid_paths(3) [OF assms(2)] passwd_fgets)

section \<open>The actions update the account table\<close>

lemma log_in_user_spec:
  assumes inv: "users_inv d" and u: "is_valid_uid u" and v: "user_view d u = Some (pw, l)"
  shows "\<exists>s. log_in_user u d = (0, d\<lparr>fs := s\<rparr>) \<and> users_inv (d\<lparr>fs := s\<rparr>)
     \<and> user_view (d\<lparr>fs := s\<rparr>) = (user_view d)(u \<mapsto> (pw, True))"
proof (cases "fs_get (fs d) (login_path u)")
  case None
  let ?s = "fs_put (login_path u) (File []) (fs d)"
  note ok = users_invD [OF inv] and p = valid_uid_paths [OF u] and f = user_view_SomeD [OF inv u v]
  have step: "log_in_user u d = (0, d\<lparr>fs := ?s\<rparr>)"
    using None ok(1) f(5) by (simp add: log_in_user_def sys_creat_new p)
  have "users_inv (d\<lparr>fs := ?s\<rparr>)"
  proof (rule users_inv_frame [OF inv u])
    show "fs_wf ?s" using ok(2) f(5) None by (intro fs_wf_put) (auto simp: p)
    show "user_ok ?s u" using f by (intro user_ok_registered [where pw = pw]) (auto simp: p)
  qed (use ok(1) in \<open>auto simp: p\<close>)
  moreover have "user_view (d\<lparr>fs := ?s\<rparr>) = (user_view d)(u \<mapsto> (pw, True))"
    using f(1) by (intro user_view_update [OF u]) (auto simp: p user_view_Some_eq u)
  ultimately show ?thesis using step by blast
next
  case (Some n)
  note f = user_view_SomeD [OF inv u v]
  obtain c where c: "fs_get (fs d) (login_path u) = Some (File c)"
    using Some f(4) by (cases n) auto
  have "log_in_user u d = (0, d\<lparr>fs := fs d\<rparr>)"
    using c users_invD(1) [OF inv] by (simp add: log_in_user_def sys_creat_old)
  moreover have "user_view d = (user_view d)(u \<mapsto> (pw, True))"
    using v c f(3) by (auto simp: fun_eq_iff)
  moreover have "d\<lparr>fs := fs d\<rparr> = d" by simp
  ultimately show ?thesis using inv by metis
qed

lemma log_out_user_spec:
  assumes inv: "users_inv d" and u: "is_valid_uid u" and v: "user_view d u = Some (pw, True)"
  shows "\<exists>s. log_out_user u d = (0, d\<lparr>fs := s\<rparr>) \<and> users_inv (d\<lparr>fs := s\<rparr>)
     \<and> user_view (d\<lparr>fs := s\<rparr>) = (user_view d)(u \<mapsto> (pw, False))"
proof -
  let ?s = "fs_del (login_path u) (fs d)"
  note ok = users_invD [OF inv] and p = valid_uid_paths [OF u] and f = user_view_SomeD [OF inv u v]
  obtain c where c: "fs_get (fs d) (login_path u) = Some (File c)"
    using f(3,4) by (metis node.exhaust not_None_eq)
  have step: "log_out_user u d = (0, d\<lparr>fs := ?s\<rparr>)"
    using c ok(1) by (simp add: log_out_user_def sys_remove_file p)
  have "users_inv (d\<lparr>fs := ?s\<rparr>)"
  proof (rule users_inv_frame [OF inv u])
    show "fs_wf ?s" using ok(2) c by (intro fs_wf_del_file) (auto simp: p)
    show "user_ok ?s u" using f by (intro user_ok_registered [where pw = pw]) (auto simp: p)
  qed (use ok(1) in \<open>auto simp: p\<close>)
  moreover have "user_view (d\<lparr>fs := ?s\<rparr>) = (user_view d)(u \<mapsto> (pw, False))"
    using f(1) by (intro user_view_update [OF u]) (auto simp: p user_view_Some_eq u)
  ultimately show ?thesis using step by blast
qed

lemma mkdir_if_absent_spec:
  assumes "healthy s" "fs_wf s" "fs_get s (butlast p) = Some Dir" "is_dir_or_none (fs_get s p)" "p \<noteq> []"
  shows "\<exists>s'. mkdir_if_absent p s = Some s' \<and> healthy s' \<and> fs_wf s'
     \<and> (\<forall>q. fs_get s' q = (if q = p then Some Dir else fs_get s q))"
proof (cases "fs_get s p")
  case None
  then have "fs_wf (fs_put p Dir s)" using assms by (intro fs_wf_put) auto
  then show ?thesis using None assms by (auto simp: mkdir_if_absent_def sys_mkdir_new)
next
  case (Some n)
  then show ?thesis using assms by (auto simp: mkdir_if_absent_def sys_mkdir_old is_dir_or_none_def)
qed

lemma register_user_spec:
  assumes inv: "users_inv d" and u: "is_valid_uid u" and pw: "is_valid_passwd pw"
    and v: "user_view d u = None"
  shows "\<exists>s. register_user u pw d = (0, d\<lparr>fs := s\<rparr>) \<and> users_inv (d\<lparr>fs := s\<rparr>)
     \<and> user_view (d\<lparr>fs := s\<rparr>) = (user_view d)(u \<mapsto> (pw, True))"
proof -
  note ok = users_invD [OF inv] and p = valid_uid_paths [OF u] and f = user_view_NoneD [OF inv u v]
  obtain s1 where s1: "mkdir_if_absent [''USERS'', u] (fs d) = Some s1" "healthy s1" "fs_wf s1"
    "\<And>q. fs_get s1 q = (if q = [''USERS'', u] then Some Dir else fs_get (fs d) q)"
    using mkdir_if_absent_spec [OF ok(1,2), of "[''USERS'', u]"] ok(3) f by auto
  obtain s2 where s2: "mkdir_if_absent [''USERS'', u, ''HOSTED''] s1 = Some s2" "healthy s2" "fs_wf s2"
    "\<And>q. fs_get s2 q = (if q = [''USERS'', u, ''HOSTED''] then Some Dir else fs_get s1 q)"
    using mkdir_if_absent_spec [OF s1(2,3), of "[''USERS'', u, ''HOSTED'']"] f by (auto simp: s1(4))
  obtain s3 where s3: "mkdir_if_absent [''USERS'', u, ''BIDDED''] s2 = Some s3" "healthy s3" "fs_wf s3"
    "\<And>q. fs_get s3 q = (if q = [''USERS'', u, ''BIDDED''] then Some Dir else fs_get s2 q)"
    using mkdir_if_absent_spec [OF s2(2,3), of "[''USERS'', u, ''BIDDED'']"] f by (auto simp: s1(4) s2(4))
  note gets = s1(4) s2(4) s3(4)
  let ?s4 = "fs_put (login_path u) (File []) s3"
  let ?s5 = "fs_put (pass_path u) (File []) ?s4"
  let ?s = "fs_put (pass_path u) (File pw) ?s4"
  have c4: "sys_creat (login_path u) s3 = Inr ?s4"
    using s3(2) f(2) by (simp add: sys_creat_new gets p)
  have c5: "sys_creat (pass_path u) ?s4 = Inr ?s5"
    using s3(2) f(1) by (simp add: sys_creat_new gets p)
  have w: "sys_write0 (pass_path u) (take 8 pw) ?s5 = Inr ?s"
    using s3(2) pw by (simp add: sys_write0_def healthy_def p is_valid_passwd_iff)
  have step: "register_user u pw d = (0, d\<lparr>fs := ?s\<rparr>)"
    by (simp add: register_user_def p(1,2) s1(1) s2(1) s3(1) c4 c5 w)
  have "users_inv (d\<lparr>fs := ?s\<rparr>)"
  proof (rule users_inv_frame [OF inv u])
    have "fs_wf ?s4" using s3(3) by (intro fs_wf_put) (auto simp: gets p f(2) [unfolded p(6)])
    then show "fs_wf ?s" by (rule fs_wf_put) (auto simp: gets p f(1) [unfolded p(5)])
    show "user_ok ?s u" using pw by (intro user_ok_registered [where pw = pw]) (auto simp: p gets)
  qed (use s3(2) in \<open>auto simp: p gets\<close>)
  moreover have "user_view (d\<lparr>fs := ?s\<rparr>) = (user_view d)(u \<mapsto> (pw, True))"
    by (intro user_view_update [OF u]) (auto simp: p user_view_Some_eq u gets)
  ultimately show ?thesis using step by blast
qed

lemma unregister_user_spec:
  assumes inv: "users_inv d" and u: "is_valid_uid u" and v: "user_view d u = Some (pw, True)"
  shows "\<exists>s. unregister_user u d = (0, d\<lparr>fs := s\<rparr>) \<and> users_inv (d\<lparr>fs := s\<rparr>)
     \<and> user_view (d\<lparr>fs := s\<rparr>) = (user_view d)(u := None)"
proof -
  let ?s1 = "fs_del (login_path u) (fs d)"
  let ?s = "fs_del (pass_path u) ?s1"
  note ok = users_invD [OF inv] and p = valid_uid_paths [OF u] and f = user_view_SomeD [OF inv u v]
  obtain c where c: "fs_get (fs d) (login_path u) = Some (File c)"
    using f(3,4) by (metis node.exhaust not_None_eq)
  have r1: "sys_remove (login_path u) (fs d) = Inr ?s1" using c ok(1) by (simp add: sys_remove_file)
  have f1: "fs_get ?s1 (pass_path u) = Some (File pw)" using f(1) by (simp add: p)
  then have r2: "sys_remove (pass_path u) ?s1 = Inr ?s" using ok(1) by (simp add: sys_remove_file)
  have step: "unregister_user u d = (0, d\<lparr>fs := ?s\<rparr>)"
    by (simp add: unregister_user_def r1 r2 p(3))
  have "users_inv (d\<lparr>fs := ?s\<rparr>)"
  proof (rule users_inv_frame [OF inv u])
    have "fs_wf ?s1" using ok(2) c by (intro fs_wf_del_file) (auto simp: p)
    then show "fs_wf ?s" by (rule fs_wf_del_file [OF _ _ f1]) (simp add: p)
    show "user_ok ?s u" using f by (auto simp: user_ok_def p is_dir_or_none_def is_file_or_none_def)
  qed (use ok(1) in \<open>auto simp: p\<close>)
  moreover have "user_view (d\<lparr>fs := ?s\<rparr>) = (user_view d)(u := None)"
    by (intro user_view_update [OF u]) (auto simp: p user_view_None_eq)
  ultimately show ?thesis using step by blast
qed

section \<open>The interface the handlers rely on\<close>

locale user_store =
  fixes view :: "'d \<Rightarrow> string \<Rightarrow> (string \<times> bool) option"
    and inv :: "'d \<Rightarrow> bool"
    and uid_ok :: "string \<Rightarrow> bool"
    and pw_ok :: "string \<Rightarrow> bool"
    and exists_u :: "string \<Rightarrow> 'd \<Rightarrow> bool"
    and logged :: "string \<Rightarrow> 'd \<Rightarrow> bool"
    and authentic :: "string \<Rightarrow> string \<Rightarrow> 'd \<Rightarrow> int"
    and log_in :: "string \<Rightarrow> 'd \<Rightarrow> int \<times> 'd"
    and log_out :: "string \<Rightarrow> 'd \<Rightarrow> int \<times> 'd"
    and register :: "string \<Rightarrow> string \<Rightarrow> 'd \<Rightarrow> int \<times> 'd"
    and unregister :: "string \<Rightarrow> 'd \<Rightarrow> int \<times> 'd"
  assumes exists_view: "inv d \<Longrightarrow> uid_ok u \<Longrightarrow> exists_u u d \<longleftrightarrow> view d u \<noteq> None"
    and logged_view: "inv d \<Longrightarrow> uid_ok u \<Longrightarrow> logged u d \<longleftrightarrow> (\<exists>pw. view d u = Some (pw, True))"
    and authentic_view: "inv d \<Longrightarrow> uid_ok u \<Longrightarrow>
      authentic u pw d = (if \<exists>l. view d u = Some (pw, l) then 1 else 0)"
    and log_in_law: "inv d \<Longrightarrow> uid_ok u \<Longrightarrow> view d u = Some (pw, l) \<Longrightarrow>
      \<exists>d'. log_in u d = (0, d') \<and> inv d' \<and> view d' = (view d)(u \<mapsto> (pw, True))"
    and log_out_law: "inv d \<Longrightarrow> uid_ok u \<Longrightarrow> view d u = Some (pw, True) \<Longrightarrow>
      \<exists>d'. log_out u d = (0, d') \<and> inv d' \<and> view d' = (view d)(u \<mapsto> (pw, False))"
    and register_law: "inv d \<Longrightarrow> uid_ok u \<Longrightarrow> pw_ok pw \<Longrightarrow> view d u = None \<Longrightarrow>
      \<exists>d'. register u pw d = (0, d') \<and> inv d' \<and> view d' = (view d)(u \<mapsto> (pw, True))"
    and unregister_law: "inv d \<Longrightarrow> uid_ok u \<Longrightarrow> view d u = Some (pw, True) \<Longrightarrow>
      \<exists>d'. unregister u d = (0, d') \<and> inv d' \<and> view d' = (view d)(u := None)"
begin

lemmas laws = exists_view logged_view authentic_view log_in_law log_out_law register_law unregister_law

text \<open>A fresh account answers to its password and to no other, and is logged in.\<close>

lemma register_then_query:
  assumes "inv d" "uid_ok u" "pw_ok pw" "view d u = None"
  shows "exists_u u (snd (register u pw d))" "logged u (snd (register u pw d))"
    "authentic u pw' (snd (register u pw d)) = (if pw' = pw then 1 else 0)"
  using register_law [OF assms] assms(2) by (auto simp: exists_view logged_view authentic_view)

text \<open>Logging out and in again restores the account table.\<close>

lemma log_out_then_in:
  assumes "inv d" "uid_ok u" "view d u = Some (pw, True)"
  shows "view (snd (log_in u (snd (log_out u d)))) = view d"
proof -
  obtain d1 where d1: "log_out u d = (0, d1)" "inv d1" "view d1 = (view d)(u \<mapsto> (pw, False))"
    using log_out_law [OF assms] by blast
  then obtain d2 where "log_in u d1 = (0, d2)" "view d2 = (view d1)(u \<mapsto> (pw, True))"
    using log_in_law [of d1 u pw False] assms(2) by auto
  then show ?thesis using d1 assms(3) by (simp add: fun_upd_idem)
qed

text \<open>After unregistering, registering again replaces the password.\<close>

lemma unregister_then_register:
  assumes "inv d" "uid_ok u" "view d u = Some (pw, True)" "pw_ok pw'"
  shows "view (snd (register u pw' (snd (unregister u d)))) = (view d)(u \<mapsto> (pw', True))"
    "\<not> exists_u u (snd (unregister u d))"
    "authentic u pw (snd (register u pw' (snd (unregister u d)))) = (if pw = pw' then 1 else 0)"
proof -
  obtain d1 where d1: "unregister u d = (0, d1)" "inv d1" "view d1 = (view d)(u := None)"
    using unregister_law [OF assms(1-3)] by blast
  then obtain d2 where d2: "register u pw' d1 = (0, d2)" "inv d2" "view d2 = (view d1)(u \<mapsto> (pw', True))"
    using register_law [of d1 u pw'] assms(2,4) by auto
  show "view (snd (register u pw' (snd (unregister u d)))) = (view d)(u \<mapsto> (pw', True))"
    using d1 d2 by simp
  show "\<not> exists_u u (snd (unregister u d))" using d1 assms(2) by (simp add: exists_view)
  show "authentic u pw (snd (register u pw' (snd (unregister u d)))) = (if pw = pw' then 1 else 0)"
    using d1 d2 assms(2) by (auto simp: authentic_view)
qed

end

interpretation us: user_store user_view users_inv is_valid_uid is_valid_passwd exists_user is_user_logged_in
  is_authentic_user log_in_user log_out_user register_user unregister_user
proof (unfold_locales, goal_cases)
  case (1 d u)
  then show ?case by (rule exists_user_view)
next
  case (2 d u)
  then show ?case by (rule is_user_logged_in_view)
next
  case (3 d u pw)
  then show ?case by (rule is_authentic_user_view)
next
  case (4 d u pw l)
  then show ?case using log_in_user_spec by blast
next
  case (5 d u pw)
  then show ?case using log_out_user_spec by blast
next
  case (6 d u pw)
  then show ?case using register_user_spec by blast
next
  case (7 d u pw)
  then show ?case using unregister_user_spec by blast
qed

section \<open>Properties\<close>

text \<open>The empty database: \<open>init_database\<close> creates the two top directories.\<close>

definition empty_db :: db where
  "empty_db = \<lparr>fs = \<lparr>nodes = [([''USERS''], Dir), ([''AUCTIONS''], Dir)], denied = [], full = False\<rparr>,
     auc_count = 0\<rparr>"

lemma empty_db_get [simp]:
  "fs_get (fs empty_db) p = (if p = [] \<or> p = [''USERS''] \<or> p = [''AUCTIONS''] then Some Dir else None)"
  by (auto simp: empty_db_def fs_get_def)

lemma empty_db_inv: "users_inv empty_db" "user_view empty_db u = None"
proof -
  have "fs_wf (fs empty_db)" by (simp add: empty_db_def fs_wf_def fs_keys_def fs_get_def)
  moreover have "user_ok (fs empty_db) u" for u
    by (simp add: user_ok_def is_dir_or_none_def is_file_or_none_def user_paths)
  ultimately show "users_inv empty_db"
    by (simp add: users_inv_def) (simp add: empty_db_def healthy_def)
  show "user_view empty_db u = None" by (simp add: user_view_def user_paths)
qed

text \<open>
  Accounts of different passwords do not mix: after \<open>register_user\<close> on an unused uid the user
  exists, is logged in, authenticates with exactly the given password, and no other account is changed;
  the invariant of the account files is kept.
\<close>

theorem register_user_account:
  assumes "users_inv d" "is_valid_uid u" "is_valid_passwd pw" "user_view d u = None"
  shows "\<exists>d'. register_user u pw d = (0, d') \<and> users_inv d' \<and> exists_user u d' \<and> is_user_logged_in u d'
     \<and> (\<forall>pw'. is_authentic_user u pw' d' = (if pw' = pw then 1 else 0))
     \<and> (\<forall>v. v \<noteq> u \<longrightarrow> user_view d' v = user_view d v)"
proof -
  obtain d' where d': "register_user u pw d = (0, d')" "users_inv d'"
    "user_view d' = (user_view d)(u \<mapsto> (pw, True))"
    using us.register_law [OF assms] by blast
  then show ?thesis using us.register_then_query [OF assms] by auto
qed

lemma register_user_account_witness:
  "\<exists>d'. register_user ''123456'' ''password'' empty_db = (0, d') \<and> users_inv d'
     \<and> is_authentic_user ''123456'' ''password'' d' = 1"
  using register_user_account [OF empty_db_inv(1), of "''123456''" "''password''"] empty_db_inv(2)
  by (auto simp: is_valid_uid_iff is_valid_passwd_iff isdigit_def isalnum_def isalpha_def)

text \<open>
  \<open>unregister_user\<close> forgets the password: the account is gone, and registering the uid again
  with another password makes the old one useless, while the other accounts are as before.
\<close>

theorem unregister_user_forgets:
  assumes "users_inv d" "is_valid_uid u" "user_view d u = Some (pw, True)" "is_valid_passwd pw'" "pw' \<noteq> pw"
  shows "\<not> exists_user u (snd (unregister_user u d))
     \<and> is_authentic_user u pw (snd (register_user u pw' (snd (unregister_user u d)))) = 0
     \<and> user_view (snd (register_user u pw' (snd (unregister_user u d)))) = (user_view d)(u \<mapsto> (pw', True))"
  using us.unregister_then_register [OF assms(1-4)] assms(5) by auto

lemma unregister_user_forgets_witness:
  "\<exists>d. user_view d ''123456'' = Some (''password'', True)
     \<and> is_authentic_user ''123456'' ''password''
          (snd (register_user ''123456'' ''PASSWORD'' (snd (unregister_user ''123456'' d)))) = 0"
proof -
  have v: "is_valid_uid ''123456''" "is_valid_passwd ''password''" "is_valid_passwd ''PASSWORD''"
    by (simp_all add: is_valid_uid_iff is_valid_passwd_iff isdigit_def isalnum_def isalpha_def)
  obtain d where "users_inv d" "user_view d = (user_view empty_db)(''123456'' \<mapsto> (''password'', True))"
    using us.register_law [OF empty_db_inv(1) v(1,2) empty_db_inv(2)] by blast
  then show ?thesis using unregister_user_forgets [of d "''123456''" "''password''" "''PASSWORD''"] v
    by (intro exI [of _ d]) simp
qed

section \<open>A lost password\<close>

text \<open>
  The stored password file decides alone: if it is empty (a crash between the creation of
  \<open>uid_pass.txt\<close> and the write of the password leaves it so), \<open>is_authentic_user\<close> returns \<open>-1\<close>
  whatever the password is.
\<close>

lemma empty_password_file:
  assumes "is_valid_uid u" "fs_get (fs d) (pass_path u) = Some (File [])" "denied (fs d) = []"
  shows "is_authentic_user u pw d = - 1"
  using assms by (simp add: is_authentic_user_def valid_uid_paths sys_can_read_def sys_fgets_def)

end
