(* ===== verification/NetIO.thy ===== *)
theory NetIO
  imports CLib
begin

text \<open>
  \<open>utils/utils.c\<close>: the transfer loops over TCP sockets that client and server share. A
  connection holds the segments still to be received (any segmentation of the byte stream
  is possible), what \<open>recv\<close> reports when none is left, the bytes sent so far, how many
  bytes the following \<open>send\<close> calls accept (\<open>[]\<close>: all of them), and \<open>errno\<close>.

  The loops are translated with their pointer arithmetic. Three of them advance the pointer
  \<^emph>\<open>and\<close> add the running total to it, so that after a short transfer the next one takes
  place at twice the offset; the model keeps this, with arrays of a fixed length and
  \<open>OutOfBounds\<close> where an access leaves the array.
\<close>

section \<open>Sockets and file descriptors\<close>

datatype sock_errno = EAGAIN | EPIPE | EOTHER

datatype rx_end = RxClosed | RxFail sock_errno

datatype cap = Accept nat | Refuse sock_errno

record conn =
  rx :: "string list"
  rx_end :: rx_end
  tx :: string
  tx_caps :: "cap list"
  c_errno :: "sock_errno option"

definition recv :: "nat \<Rightarrow> conn \<Rightarrow> (sock_errno + string) \<times> conn" where
  "recv n c =
     (case dropWhile (\<lambda>seg. seg = []) (rx c) of
        [] \<Rightarrow> (case rx_end c of
                RxClosed \<Rightarrow> (Inr [], c\<lparr>rx := []\<rparr>)
              | RxFail e \<Rightarrow> (Inl e, c\<lparr>rx := [], c_errno := Some e\<rparr>))
      | seg # segs \<Rightarrow>
          (Inr (take n seg), c\<lparr>rx := (if length seg \<le> n then segs else drop n seg # segs)\<rparr>))"

text \<open>One transfer of a block: the bytes accepted, and the remaining answers of the system.\<close>

definition transfer :: "cap list \<Rightarrow> string \<Rightarrow> (sock_errno + nat) \<times> cap list" where
  "transfer caps data =
     (case caps of
        [] \<Rightarrow> (Inr (length data), [])
      | Accept k # cs \<Rightarrow> (Inr (min (Suc k) (length data)), cs)
      | Refuse e # cs \<Rightarrow> (Inl e, cs))"

definition send :: "string \<Rightarrow> conn \<Rightarrow> (sock_errno + nat) \<times> conn" where
  "send data c =
     (case transfer (tx_caps c) data of
        (Inl e, cs) \<Rightarrow> (Inl e, c\<lparr>tx_caps := cs, c_errno := Some e\<rparr>)
      | (Inr k, cs) \<Rightarrow> (Inr k, c\<lparr>tx := tx c @ take k data, tx_caps := cs\<rparr>))"

section \<open>Error codes\<close>

definition ERR_TCP_READ :: int where "ERR_TCP_READ = 1"
definition ERR_INVALID_PROTOCOL :: int where "ERR_INVALID_PROTOCOL = 2"
definition ERR_WRITE_AF :: int where "ERR_WRITE_AF = 3"
definition ERR_TCP_WRITE :: int where "ERR_TCP_WRITE = 1"
definition ERR_READ_AF :: int where "ERR_READ_AF = 2"
definition ERR_BAD_FSIZE :: int where "ERR_BAD_FSIZE = 3"
definition ERR_TCP_READ_CLOSED :: int where "ERR_TCP_READ_CLOSED = 2"

lemmas err_defs = ERR_TCP_READ_def ERR_INVALID_PROTOCOL_def ERR_WRITE_AF_def ERR_TCP_WRITE_def
  ERR_READ_AF_def ERR_BAD_FSIZE_def ERR_TCP_READ_CLOSED_def

section \<open>read_tcp_stream and send_tcp_message\<close>

definition array_write :: "nat \<Rightarrow> string \<Rightarrow> char list \<Rightarrow> char list outcome" where
  "array_write off bs buf =
     (if off + length bs \<le> length buf then Inr (take off buf @ bs @ drop (off + length bs) buf)
      else Inl OutOfBounds)"

lemma recv_progress: "recv n c = (Inr bs, c') \<Longrightarrow> length bs \<le> n"
  by (auto simp: recv_def split: list.splits rx_end.splits)

function read_tcp_loop :: "char list \<Rightarrow> nat \<Rightarrow> nat \<Rightarrow> nat \<Rightarrow> conn \<Rightarrow> (int \<times> char list \<times> conn) outcome" where
  "read_tcp_loop buff ptr total_read n c =
     (if total_read < n then
        (case recv (n - total_read) c of
           (Inl _, c') \<Rightarrow> Inr (ERR_TCP_READ, buff, c')
         | (Inr bs, c') \<Rightarrow>
             if bs = [] then Inr (ERR_TCP_READ_CLOSED, buff, c')
             else (case array_write (ptr + total_read) bs buff of
                     Inl f \<Rightarrow> Inl f
                   | Inr buff' \<Rightarrow> read_tcp_loop buff' (ptr + length bs) (total_read + length bs) n c'))
      else Inr (0, buff, c))"
  by pat_completeness auto
termination
  by (relation "measure (\<lambda>(buff, ptr, total, n, c). n - total)")
    (auto simp flip: length_greater_0_conv)

declare read_tcp_loop.simps [simp del]

definition read_tcp_stream :: "char list \<Rightarrow> nat \<Rightarrow> conn \<Rightarrow> (int \<times> char list \<times> conn) outcome" where
  "read_tcp_stream buff n c = read_tcp_loop buff 0 0 n c"

lemma transfer_progress: "transfer cs data = (Inr k, cs') \<Longrightarrow> k \<le> length data \<and> (data \<noteq> [] \<longrightarrow> 0 < k)"
  by (auto simp: transfer_def split: list.splits cap.splits)

lemma send_progress: "send data c = (Inr k, c') \<Longrightarrow> k \<le> length data \<and> (data \<noteq> [] \<longrightarrow> 0 < k)"
  by (auto simp: send_def split: prod.splits sum.splits dest: transfer_progress)

text \<open>\<open>message\<close> is the whole array the pointer points into; \<open>n\<close> bytes of it are to be sent.\<close>

function send_tcp_loop :: "char list \<Rightarrow> nat \<Rightarrow> nat \<Rightarrow> nat \<Rightarrow> conn \<Rightarrow> (int \<times> conn) outcome" where
  "send_tcp_loop message ptr total_sent n c =
     (if total_sent < n then
        (if ptr + total_sent + (n - total_sent) > length message then Inl OutOfBounds
         else case send (take (n - total_sent) (drop (ptr + total_sent) message)) c of
                (Inl _, c') \<Rightarrow> Inr (ERR_TCP_WRITE, c')
              | (Inr written, c') \<Rightarrow>
                  send_tcp_loop message (ptr + written) (total_sent + written) n c')
      else Inr (0, c))"
  by pat_completeness auto
termination
proof (relation "measure (\<lambda>(message, ptr, total, n, c). n - total)", goal_cases)
  case 1
  show ?case by simp
next
  case (2 message ptr total n c x y z)
  then have "send (take (n - total) (drop (ptr + total) message)) c = (Inr z, y)" by simp
  then have "take (n - total) (drop (ptr + total) message) \<noteq> [] \<longrightarrow> 0 < z"
    by (auto dest: send_progress)
  with 2 show ?case by auto
qed

declare send_tcp_loop.simps [simp del]

definition send_tcp_message :: "char list \<Rightarrow> nat \<Rightarrow> conn \<Rightarrow> (int \<times> conn) outcome" where
  "send_tcp_message message n c = send_tcp_loop message 0 0 n c"

definition is_lf_in_stream :: "conn \<Rightarrow> bool \<times> conn" where
  "is_lf_in_stream c =
     (case recv 1 c of
        (Inl _, c') \<Rightarrow> (False, c')
      | (Inr bs, c') \<Rightarrow> ((case bs of [] \<Rightarrow> NUL | b # _ \<Rightarrow> b) = LF, c'))"

section \<open>as_recv_asset_file\<close>

text \<open>The receive buffer is memory of \<open>BUFF_SZ\<close> bytes, of arbitrary initial contents.\<close>

type_synonym mem = "nat \<Rightarrow> char"

definition BUFF_SZ :: nat where "BUFF_SZ = 65536"

definition mem_store :: "string \<Rightarrow> mem \<Rightarrow> mem" where
  "mem_store bs m = (\<lambda>i. if i < length bs then bs ! i else m i)"

definition mem_slice :: "nat \<Rightarrow> nat \<Rightarrow> mem \<Rightarrow> string" where
  "mem_slice off n m = map m [off..<off + n]"

text \<open>
  The two write loops of the function are the same loop, over \<open>read\<close> and over
  \<open>read - 1\<close> bytes: \<open>write(afd, ptr + done, n - done)\<close> with \<open>ptr\<close> advanced as well.
  \<open>file\<close> is what the asset file holds so far, \<open>caps\<close> how \<open>write\<close> answers.
\<close>

function write_block :: "mem \<Rightarrow> nat \<Rightarrow> nat \<Rightarrow> nat \<Rightarrow> string \<Rightarrow> cap list \<Rightarrow> (int \<times> string \<times> cap list) outcome" where
  "write_block m ptr written_to_file n file caps =
     (if written_to_file < n then
        (if ptr + written_to_file + (n - written_to_file) > BUFF_SZ then Inl OutOfBounds
         else let data = mem_slice (ptr + written_to_file) (n - written_to_file) m
              in case transfer caps data of
                   (Inl _, caps') \<Rightarrow> Inr (ERR_WRITE_AF, file, caps')
                 | (Inr written, caps') \<Rightarrow>
                     write_block m (ptr + written) (written_to_file + written) n (file @ take written data) caps')
      else Inr (0, file, caps))"
  by pat_completeness auto
termination
proof (relation "measure (\<lambda>(m, ptr, w, n, file, caps). n - w)", goal_cases)
  case 1
  show ?case by simp
next
  case (2 m ptr w n asset caps x y z a)
  then have "transfer caps (mem_slice (ptr + w) (n - w) m) = (Inr a, z)" by simp
  then have "mem_slice (ptr + w) (n - w) m \<noteq> [] \<longrightarrow> 0 < a" by (auto dest: transfer_progress)
  with 2 show ?case by (auto simp: mem_slice_def)
qed

declare write_block.simps [simp del]

definition recv_last_block :: "mem \<Rightarrow> nat \<Rightarrow> int \<Rightarrow> int \<Rightarrow> string \<Rightarrow> cap list \<Rightarrow> (int \<times> string) outcome" where
  "recv_last_block buff read total_read fsize file caps =
     (if total_read > fsize + 1 then Inr (ERR_INVALID_PROTOCOL, file)
      else if buff (read - 1) \<noteq> LF then Inr (ERR_INVALID_PROTOCOL, file)
      else case write_block buff 0 0 (read - 1) file caps of
             Inl f \<Rightarrow> Inl f
           | Inr (rc, file', _) \<Rightarrow> Inr (rc, file'))"

lemma recv_consumes:
  "recv n c = (Inr bs, c') \<Longrightarrow> bs @ concat (rx c') = concat (rx c)"
proof -
  assume r: "recv n c = (Inr bs, c')"
  have d: "concat (dropWhile (\<lambda>seg. seg = []) xs) = concat xs" for xs :: "string list"
    by (induction xs) auto
  show ?thesis
  proof (cases "dropWhile (\<lambda>seg. seg = []) (rx c)")
    case Nil
    with r d [of "rx c"] show ?thesis by (auto simp: recv_def split: rx_end.splits)
  next
    case (Cons seg segs)
    with r d [of "rx c"] show ?thesis
      by (auto simp: recv_def append_assoc [symmetric] simp del: append_assoc)
  qed
qed

function recv_asset_loop ::
    "mem \<Rightarrow> int \<Rightarrow> int \<Rightarrow> string \<Rightarrow> cap list \<Rightarrow> conn \<Rightarrow> (int \<times> string \<times> conn) outcome" where
  "recv_asset_loop buff total_read fsize file caps c =
     (case recv BUFF_SZ c of
        (Inl _, c') \<Rightarrow> Inr (ERR_TCP_READ, file, c')
      | (Inr bs, c') \<Rightarrow>
          if bs = [] then Inr (ERR_TCP_READ_CLOSED, file, c')
          else let buff' = mem_store bs buff; total' = total_read + int (length bs)
               in if total' > fsize then
                    (case recv_last_block buff' (length bs) total' fsize file caps of
                       Inl f \<Rightarrow> Inl f
                     | Inr (rc, file') \<Rightarrow> Inr (rc, file', c'))
                  else (case write_block buff' 0 0 (length bs) file caps of
                          Inl f \<Rightarrow> Inl f
                        | Inr (rc, file', caps') \<Rightarrow>
                            if rc \<noteq> 0 then Inr (ERR_WRITE_AF, file', c')
                            else recv_asset_loop buff' total' fsize file' caps' c'))"
  by pat_completeness auto
termination
proof (relation "measure (\<lambda>(buff, total, fsize, file, caps, c). length (concat (rx c)))", goal_cases)
  case 1
  show ?case by simp
next
  case (2 buff total fsize asset caps c x y b)
  then have "recv BUFF_SZ c = (Inr b, y)" by simp
  then have "b @ concat (rx y) = concat (rx c)" by (rule recv_consumes)
  then have "length b + length (concat (rx y)) = length (concat (rx c))"
    by (metis length_append)
  with 2 show ?case by (auto simp flip: length_greater_0_conv)
qed

declare recv_asset_loop.simps [simp del]

definition as_recv_asset_file :: "mem \<Rightarrow> cap list \<Rightarrow> int \<Rightarrow> conn \<Rightarrow> (int \<times> string \<times> conn) outcome" where
  "as_recv_asset_file buff caps fsize c = recv_asset_loop buff 0 fsize [] caps c"

section \<open>as_send_asset_file\<close>

text \<open>The inner loop of the function uses its offset once, so it is the plain block transfer.\<close>

function send_block :: "string \<Rightarrow> conn \<Rightarrow> int \<times> conn" where
  "send_block data c =
     (if data = [] then (0, c)
      else case send data c of
             (Inl _, c') \<Rightarrow> (ERR_TCP_WRITE, c')
           | (Inr sent, c') \<Rightarrow> send_block (drop sent data) c')"
  by pat_completeness auto
termination
proof (relation "measure (\<lambda>(data, c). length data)", goal_cases)
  case 1
  show ?case by simp
next
  case (2 data c x y z)
  then have "send data c = (Inr z, y)" by simp
  then have "0 < z" using 2 by (auto dest: send_progress)
  with 2 show ?case by simp
qed

declare send_block.simps [simp del]

text \<open>\<open>file\<close> is what is left to read of the asset file, \<open>rcaps\<close> how \<open>read\<close> answers.\<close>

function send_asset_loop :: "string \<Rightarrow> cap list \<Rightarrow> int \<Rightarrow> int \<Rightarrow> conn \<Rightarrow> (int \<times> conn) outcome" where
  "send_asset_loop file rcaps total_read fsize c =
     (if total_read < fsize then
        (case transfer rcaps (take BUFF_SZ file) of
           (Inl _, _) \<Rightarrow> Inr (ERR_READ_AF, c)
         | (Inr n, rcaps') \<Rightarrow>
             if n = 0 then Inr (ERR_BAD_FSIZE, c)
             else (case send_block (take n file) c of
                     (rc, c') \<Rightarrow> if rc \<noteq> 0 then Inr (ERR_TCP_WRITE, c')
                               else send_asset_loop (drop n file) rcaps' (total_read + int n) fsize c'))
      else (case send_tcp_message [LF, NUL] 1 c of
              Inl f \<Rightarrow> Inl f
            | Inr (rc, c') \<Rightarrow> if rc \<noteq> 0 then Inr (ERR_TCP_WRITE, c') else Inr (0, c')))"
  by pat_completeness auto
termination
  by (relation "measure (\<lambda>(file, rcaps, total, fsize, c). nat (fsize - total))") auto

declare send_asset_loop.simps [simp del]

definition as_send_asset_file :: "string \<Rightarrow> cap list \<Rightarrow> int \<Rightarrow> conn \<Rightarrow> (int \<times> conn) outcome" where
  "as_send_asset_file file rcaps fsize c = send_asset_loop file rcaps 0 fsize c"

section \<open>Receiving\<close>

text \<open>\<open>recv\<close> on a stream that still holds bytes returns a non-empty prefix of them.\<close>

lemma recv_available:
  assumes "concat (rx c) \<noteq> []" and "0 < n"
  obtains bs segs where "recv n c = (Inr bs, c\<lparr>rx := segs\<rparr>)" "bs \<noteq> []" "length bs \<le> n"
    "bs @ concat segs = concat (rx c)"
proof -
  have "dropWhile (\<lambda>seg. seg = []) (rx c) \<noteq> []"
    using assms(1) by (induction "rx c") (auto simp: dropWhile_eq_Nil_conv)
  then obtain seg segs where d: "dropWhile (\<lambda>seg. seg = []) (rx c) = seg # segs"
    by (cases "dropWhile (\<lambda>seg. seg = []) (rx c)") auto
  then have "seg \<noteq> []" using hd_dropWhile [of "\<lambda>seg. seg = []" "rx c"] by simp
  let ?rest = "if length seg \<le> n then segs else drop n seg # segs"
  have r: "recv n c = (Inr (take n seg), c\<lparr>rx := ?rest\<rparr>)" by (simp add: recv_def d)
  show ?thesis
  proof (rule that [OF r])
    show "take n seg \<noteq> []" using \<open>seg \<noteq> []\<close> assms(2) by simp
    show "take n seg @ concat ?rest = concat (rx c)" using recv_consumes [OF r] by simp
  qed simp
qed

lemma recv_segment: "seg \<noteq> [] \<Longrightarrow> length seg \<le> n \<Longrightarrow> rx c = seg # segs \<Longrightarrow> recv n c = (Inr seg, c\<lparr>rx := segs\<rparr>)"
  by (simp add: recv_def)

lemma recv_eof: "concat (rx c) = [] \<Longrightarrow> recv n c =
    (case rx_end c of RxClosed \<Rightarrow> (Inr [], c\<lparr>rx := []\<rparr>) | RxFail e \<Rightarrow> (Inl e, c\<lparr>rx := [], c_errno := Some e\<rparr>))"
proof -
  assume "concat (rx c) = []"
  then have "dropWhile (\<lambda>seg. seg = []) (rx c) = []" by (simp add: dropWhile_eq_Nil_conv)
  then show ?thesis by (simp only: recv_def list.case)
qed

subsection \<open>read_tcp_stream\<close>

text \<open>The bytes of a message arrive whole when the first segment holds at least \<open>n\<close> of them.\<close>

definition delivered :: "nat \<Rightarrow> conn \<Rightarrow> bool" where
  "delivered n c \<longleftrightarrow> (\<exists>seg segs. rx c = seg # segs \<and> n \<le> length seg)"

definition rx_drop :: "nat \<Rightarrow> conn \<Rightarrow> conn" where
  "rx_drop n c = c\<lparr>rx := (case rx c of [] \<Rightarrow> [] | seg # segs \<Rightarrow>
     if length seg \<le> n then segs else drop n seg # segs)\<rparr>"

lemma read_tcp_stream_delivered:
  assumes "rx c = seg # segs" "n \<le> length seg" "0 < n" "n \<le> length buf"
  shows "read_tcp_stream buf n c = Inr (0, take n seg @ drop n buf, rx_drop n c)"
proof -
  have r: "recv n c = (Inr (take n seg), rx_drop n c)"
    using assms by (auto simp: recv_def rx_drop_def)
  have "take n seg \<noteq> []" using assms by auto
  then show ?thesis using assms r
    by (simp add: read_tcp_stream_def read_tcp_loop.simps [of _ 0] array_write_def)
      (simp add: read_tcp_loop.simps)
qed

text \<open>When they arrive in two segments, the second lands at twice its offset.\<close>

lemma read_tcp_stream_two_segments:
  assumes "rx c = a # b # segs" "a \<noteq> []" "b \<noteq> []" "length a + length b = n" "n \<le> length buf"
  shows "read_tcp_stream buf n c =
     (if 2 * length a + length b \<le> length buf
      then Inr (0, take (2 * length a) (a @ drop (length a) buf) @ b @ drop (2 * length a + length b) buf,
                c\<lparr>rx := segs\<rparr>)
      else Inl OutOfBounds)"
proof -
  have r1: "recv n c = (Inr a, c\<lparr>rx := b # segs\<rparr>)"
    using assms by (intro recv_segment) auto
  have r2: "recv (n - length a) (c\<lparr>rx := b # segs\<rparr>) = (Inr b, c\<lparr>rx := segs\<rparr>)"
    using recv_segment [of b "n - length a" "c\<lparr>rx := b # segs\<rparr>" segs] assms by simp
  have w1: "array_write 0 a buf = Inr (a @ drop (length a) buf)"
    using assms by (simp add: array_write_def)
  have len: "length (a @ drop (length a) buf) = length buf" using assms by simp
  have n: "0 < n" "length a < n" using assms by (auto simp flip: length_greater_0_conv)
  have step: "read_tcp_stream buf n c =
      read_tcp_loop (a @ drop (length a) buf) (length a) (length a) n (c\<lparr>rx := b # segs\<rparr>)"
    unfolding read_tcp_stream_def
    by (subst read_tcp_loop.simps) (use n r1 w1 assms(2) in simp)
  have last: "read_tcp_loop buf' (length a + length b) n n c' = Inr (0, buf', c')" for buf' c'
    by (subst read_tcp_loop.simps) simp
  show ?thesis unfolding step
    by (subst read_tcp_loop.simps) (use n r2 assms(3,4) len last in \<open>simp add: array_write_def mult_2 add.assoc add.left_commute add.commute [of n "length a"]\<close>)
qed

section \<open>Sending\<close>

lemma send_all: "tx_caps c = [] \<Longrightarrow> send data c = (Inr (length data), c\<lparr>tx := tx c @ data\<rparr>)"
  by (simp add: send_def transfer_def)

lemma send_tcp_message_all:
  assumes "tx_caps c = []" "n \<le> length message"
  shows "send_tcp_message message n c = Inr (0, c\<lparr>tx := tx c @ take n message\<rparr>)"
proof (cases "n = 0")
  case True
  then show ?thesis by (simp add: send_tcp_message_def send_tcp_loop.simps)
next
  case False
  then show ?thesis using assms
    by (simp add: send_tcp_message_def send_tcp_loop.simps [of _ 0 0] send_all)
      (simp add: send_tcp_loop.simps)
qed

definition accepting :: "cap list \<Rightarrow> bool" where
  "accepting cs \<longleftrightarrow> (\<forall>x \<in> set cs. \<exists>k. x = Accept k)"

lemma send_accepting:
  assumes "accepting (tx_caps c)" "data \<noteq> []"
  obtains k cs where "send data c = (Inr k, c\<lparr>tx := tx c @ take k data, tx_caps := cs\<rparr>)"
    "0 < k" "k \<le> length data" "accepting cs"
proof (cases "tx_caps c")
  case Nil
  show ?thesis
  proof (rule that)
    show "send data c = (Inr (length data), c\<lparr>tx := tx c @ take (length data) data, tx_caps := []\<rparr>)"
      using Nil by (simp add: send_def transfer_def)
  qed (use assms(2) in \<open>simp_all add: accepting_def\<close>)
next
  case (Cons x cs)
  then obtain k where x: "x = Accept k" using assms(1) by (auto simp: accepting_def)
  let ?k = "min (Suc k) (length data)"
  show ?thesis
  proof (rule that)
    show "send data c = (Inr ?k, c\<lparr>tx := tx c @ take ?k data, tx_caps := cs\<rparr>)"
      using Cons x by (simp add: send_def transfer_def)
  qed (use assms Cons in \<open>auto simp: accepting_def\<close>)
qed

lemma send_block_accepting:
  "accepting (tx_caps c) \<Longrightarrow>
     \<exists>cs. send_block data c = (0, c\<lparr>tx := tx c @ data, tx_caps := cs\<rparr>) \<and> accepting cs"
proof (induction "length data" arbitrary: data c rule: less_induct)
  case less
  show ?case
  proof (cases "data = []")
    case True
    then have "send_block data c = (0, c\<lparr>tx := tx c @ data, tx_caps := tx_caps c\<rparr>)"
      by (subst send_block.simps) simp
    with less.prems show ?thesis by blast
  next
    case False
    obtain k cs where s: "send data c = (Inr k, c\<lparr>tx := tx c @ take k data, tx_caps := cs\<rparr>)"
      and k: "0 < k" "k \<le> length data" and cs: "accepting cs"
      using send_accepting [OF less.prems False] .
    let ?c = "c\<lparr>tx := tx c @ take k data, tx_caps := cs\<rparr>"
    obtain cs' where "send_block (drop k data) ?c = (0, ?c\<lparr>tx := tx ?c @ drop k data, tx_caps := cs'\<rparr>)"
      and "accepting cs'"
      using less.hyps [of "drop k data" ?c] k False cs by auto
    then show ?thesis using False s by (subst send_block.simps) auto
  qed
qed

lemma send_one_byte_accepting:
  assumes "accepting (tx_caps c)"
  shows "\<exists>cs. send_tcp_message [x, NUL] 1 c = Inr (0, c\<lparr>tx := tx c @ [x], tx_caps := cs\<rparr>) \<and> accepting cs"
proof -
  obtain k cs where s: "send [x] c = (Inr k, c\<lparr>tx := tx c @ take k [x], tx_caps := cs\<rparr>)"
    and k: "0 < k" "k \<le> length [x]" and cs: "accepting cs"
    using send_accepting [OF assms, of "[x]"] by auto
  then have "k = 1" by simp
  with s cs show ?thesis
    by (auto simp: send_tcp_message_def send_tcp_loop.simps [of _ 0 0] send_tcp_loop.simps [of _ "Suc 0" "Suc 0"])
qed

lemma send_asset_accepting:
  "accepting (tx_caps c) \<Longrightarrow> accepting rcaps \<Longrightarrow> tot0 + int (length asset) = fsize \<Longrightarrow>
     \<exists>cs. send_asset_loop asset rcaps tot0 fsize c = Inr (0, c\<lparr>tx := tx c @ asset @ [LF], tx_caps := cs\<rparr>)"
proof (induction "length asset" arbitrary: asset rcaps tot0 c rule: less_induct)
  case less
  show ?case
  proof (cases "asset = []")
    case True
    obtain cs where "send_tcp_message [LF, NUL] 1 c = Inr (0, c\<lparr>tx := tx c @ [LF], tx_caps := cs\<rparr>)"
      using send_one_byte_accepting [OF less.prems(1)] by blast
    then show ?thesis using True less.prems(3) by (subst send_asset_loop.simps) auto
  next
    case False
    then have ne: "take BUFF_SZ asset \<noteq> []" by (simp add: BUFF_SZ_def)
    obtain n rcaps' where t: "transfer rcaps (take BUFF_SZ asset) = (Inr n, rcaps')" and rc: "accepting rcaps'"
      using less.prems(2) by (cases rcaps) (auto simp: transfer_def accepting_def)
    have n: "0 < n" "n \<le> length asset" using transfer_progress [OF t] ne by auto
    obtain cs where b: "send_block (take n asset) c = (0, c\<lparr>tx := tx c @ take n asset, tx_caps := cs\<rparr>)"
      and cs: "accepting cs"
      using send_block_accepting [OF less.prems(1)] by blast
    let ?c = "c\<lparr>tx := tx c @ take n asset, tx_caps := cs\<rparr>"
    have "tot0 + int n + int (length (drop n asset)) = fsize" using less.prems(3) n by simp
    then obtain cs' where
      "send_asset_loop (drop n asset) rcaps' (tot0 + int n) fsize ?c
         = Inr (0, ?c\<lparr>tx := tx ?c @ drop n asset @ [LF], tx_caps := cs'\<rparr>)"
      using less.hyps [of "drop n asset" ?c rcaps' "tot0 + int n"] n False cs rc by auto
    moreover have "take n asset @ drop n asset @ [LF] = asset @ [LF]" by (simp flip: append_assoc)
    moreover have "tot0 < fsize" using less.prems(3) False by auto
    ultimately show ?thesis using t n b
      by (intro exI [of _ cs'], subst send_asset_loop.simps) simp
  qed
qed

section \<open>Receiving an asset\<close>

lemma mem_slice_store: "n \<le> length bs \<Longrightarrow> mem_slice 0 n (mem_store bs m) = take n bs"
  by (rule nth_equalityI) (auto simp: mem_slice_def mem_store_def)

lemma mem_store_last: "bs \<noteq> [] \<Longrightarrow> mem_store bs m (length bs - 1) = last bs"
  by (simp add: mem_store_def last_conv_nth)

lemma write_block_whole:
  assumes "n \<le> BUFF_SZ"
  shows "write_block m 0 0 n asset [] = Inr (0, asset @ mem_slice 0 n m, [])"
proof (cases "n = 0")
  case True
  then show ?thesis by (simp add: write_block.simps mem_slice_def)
next
  case False
  have len: "length (mem_slice 0 n m) = n" by (simp add: mem_slice_def)
  have "write_block m 0 0 n asset [] = write_block m n n n (asset @ mem_slice 0 n m) []"
    using False assms len
    by (subst write_block.simps) (simp add: transfer_def)
  also have "\<dots> = Inr (0, asset @ mem_slice 0 n m, [])"
    by (subst write_block.simps) simp
  finally show ?thesis .
qed

lemma recv_asset_ok:
  "concat (rx c) = rest @ [LF] \<Longrightarrow> tot0 + int (length rest) = fsize \<Longrightarrow>
     \<exists>segs. recv_asset_loop m tot0 fsize asset [] c = Inr (0, asset @ rest, c\<lparr>rx := segs\<rparr>) \<and> concat segs = []"
proof (induction "length rest" arbitrary: rest tot0 m asset c rule: less_induct)
  case less
  have "concat (rx c) \<noteq> []" and "0 < BUFF_SZ" using less.prems(1) by (simp_all add: BUFF_SZ_def)
  then obtain bs segs where r: "recv BUFF_SZ c = (Inr bs, c\<lparr>rx := segs\<rparr>)" and ne: "bs \<noteq> []"
    and len: "length bs \<le> BUFF_SZ" and cat: "bs @ concat segs = rest @ [LF]"
    using recv_available less.prems(1) by metis
  show ?case
  proof (cases "concat segs = []")
    case True
    have bs: "bs = rest @ [LF]" using cat unfolding True by (simp only: append_Nil2)
    have tot: "tot0 + int (length bs) = fsize + 1" using bs less.prems(2) by simp
    have "mem_store bs m (length bs - 1) = LF" using mem_store_last [OF ne] bs by simp
    moreover have "write_block (mem_store bs m) 0 0 (length bs - 1) asset [] = Inr (0, asset @ rest, [])"
      using write_block_whole [of "length bs - 1" "mem_store bs m" asset] len
        mem_slice_store [of "length bs - 1" bs m] bs by simp
    ultimately have "recv_asset_loop m tot0 fsize asset [] c = Inr (0, asset @ rest, c\<lparr>rx := segs\<rparr>)"
      using r ne tot by (subst recv_asset_loop.simps) (simp add: recv_last_block_def Let_def)
    with True show ?thesis by blast
  next
    case False
    obtain rest' where cs: "concat segs = rest' @ [LF]" and rest: "rest = bs @ rest'"
      using False cat by (metis append_butlast_last_id append_is_Nil_conv butlast_append butlast_snoc last_appendR last_snoc)
    have tot: "tot0 + int (length bs) + int (length rest') = fsize" using rest less.prems(2) by simp
    have w: "write_block (mem_store bs m) 0 0 (length bs) asset [] = Inr (0, asset @ bs, [])"
      using write_block_whole [OF len, of "mem_store bs m" asset] by (simp add: mem_slice_store)
    have "length rest' < length rest" using rest ne by simp
    moreover have "recv_asset_loop m tot0 fsize asset [] c
        = recv_asset_loop (mem_store bs m) (tot0 + int (length bs)) fsize (asset @ bs) [] (c\<lparr>rx := segs\<rparr>)"
      using r ne tot w by (subst recv_asset_loop.simps) (simp add: Let_def)
    ultimately show ?thesis
      using less.hyps [of rest' "c\<lparr>rx := segs\<rparr>" "tot0 + int (length bs)" "mem_store bs m" "asset @ bs"]
        cs tot rest by auto
  qed
qed

text \<open>Conversely a success means exactly \<open>fsize\<close> bytes and then a line feed were received.\<close>

lemma recv_asset_success:
  "recv_asset_loop m tot0 fsize asset [] c = Inr (0, asset', c') \<Longrightarrow> tot0 \<le> fsize \<Longrightarrow>
     \<exists>got. asset' = asset @ got \<and> tot0 + int (length got) = fsize
        \<and> concat (rx c) = got @ [LF] @ concat (rx c')"
proof (induction "length (concat (rx c))" arbitrary: tot0 m asset c rule: less_induct)
  case less
  obtain bs c1 where r: "recv BUFF_SZ c = (Inr bs, c1)" and ne: "bs \<noteq> []"
    using less.prems(1)
    by (subst (asm) recv_asset_loop.simps) (auto simp: err_defs split: prod.splits sum.splits if_splits)
  have len: "length bs \<le> BUFF_SZ" and cat: "concat (rx c) = bs @ concat (rx c1)"
    using recv_progress [OF r] recv_consumes [OF r] by simp_all
  let ?t = "tot0 + int (length bs)"
  show ?case
  proof (cases "?t > fsize")
    case True
    have lb: "recv_last_block (mem_store bs m) (length bs) ?t fsize asset [] = Inr (0, asset') \<and> c' = c1"
      using less.prems(1) r ne True
      by (subst (asm) recv_asset_loop.simps) (auto simp: Let_def split: sum.splits)
    then have t: "?t = fsize + 1" and l: "mem_store bs m (length bs - 1) = LF"
      using True by (auto simp: recv_last_block_def err_defs split: if_splits)
    have "asset' = asset @ take (length bs - 1) bs"
      using lb t l write_block_whole [of "length bs - 1" "mem_store bs m" asset] len
      by (simp add: recv_last_block_def mem_slice_store)
    moreover have "bs = butlast bs @ [LF]" using l mem_store_last [OF ne, of m] ne
      by (metis append_butlast_last_id)
    ultimately show ?thesis using t cat lb ne
      by (intro exI [of _ "butlast bs"]) (auto simp: butlast_conv_take of_nat_diff Suc_le_eq)
  next
    case False
    have w: "write_block (mem_store bs m) 0 0 (length bs) asset [] = Inr (0, asset @ bs, [])"
      using write_block_whole [OF len, of "mem_store bs m" asset] by (simp add: mem_slice_store)
    have "recv_asset_loop (mem_store bs m) ?t fsize (asset @ bs) [] c1 = Inr (0, asset', c')"
      using less.prems(1) r ne False w
      by (subst (asm) recv_asset_loop.simps) (simp add: Let_def)
    moreover have "length (concat (rx c1)) < length (concat (rx c))" using cat ne by simp
    ultimately obtain got where "asset' = (asset @ bs) @ got" "?t + int (length got) = fsize"
      "concat (rx c1) = got @ [LF] @ concat (rx c')"
      using less.hyps [of c1 "mem_store bs m" ?t "asset @ bs"] False by auto
    then show ?thesis using cat by (intro exI [of _ "bs @ got"]) auto
  qed
qed

section \<open>Properties\<close>

lemma write_block_short:
  assumes "Suc k < n" "n + Suc k \<le> BUFF_SZ"
  shows "write_block m 0 0 n asset [Accept k]
     = Inr (0, asset @ mem_slice 0 (Suc k) m @ mem_slice (2 * Suc k) (n - Suc k) m, [])"
proof -
  have len: "length (mem_slice i l m) = l" for i l by (simp add: mem_slice_def)
  have tk: "take (Suc k) (mem_slice 0 n m) = mem_slice 0 (Suc k) m"
    using assms(1) by (simp add: mem_slice_def take_map)
  have "write_block m 0 0 n asset [Accept k]
      = write_block m (Suc k) (Suc k) n (asset @ mem_slice 0 (Suc k) m) []"
    using assms len [of 0 n] tk by (subst write_block.simps) (simp add: transfer_def min_def)
  also have "\<dots> = write_block m (Suc k + (n - Suc k)) n n
      (asset @ mem_slice 0 (Suc k) m @ mem_slice (2 * Suc k) (n - Suc k) m) []"
    using assms len [of "2 * Suc k" "n - Suc k"]
    by (subst write_block.simps) (simp add: transfer_def mult_2)
  also have "\<dots> = Inr (0, asset @ mem_slice 0 (Suc k) m @ mem_slice (2 * Suc k) (n - Suc k) m, [])"
    by (subst write_block.simps) simp
  finally show ?thesis .
qed

text \<open>
  C31. Asset transfer is a round trip when the receiver's disk writes whole blocks. When \<open>send\<close> and \<open>read\<close> of the
  sender make progress, however little at a time, \<open>as_send_asset_file\<close> puts exactly the asset and one line
  feed on the wire; and from those bytes, cut into segments in any way, \<open>as_recv_asset_file\<close> whose every
  \<open>write\<close> is complete (no capacities) stores exactly the asset and returns 0. The theorem on short writes below
  shows that one of them breaks it.
\<close>

theorem asset_round_trip:
  assumes "accepting (tx_caps c)" "accepting rcaps" "concat (rx r) = asset @ [LF]"
  shows "(\<exists>cs. as_send_asset_file asset rcaps (int (length asset)) c
            = Inr (0, c\<lparr>tx := tx c @ asset @ [LF], tx_caps := cs\<rparr>))
     \<and> (\<exists>segs. as_recv_asset_file m [] (int (length asset)) r = Inr (0, asset, r\<lparr>rx := segs\<rparr>)
            \<and> concat segs = [])"
proof
  show "\<exists>cs. as_send_asset_file asset rcaps (int (length asset)) c
            = Inr (0, c\<lparr>tx := tx c @ asset @ [LF], tx_caps := cs\<rparr>)"
    using send_asset_accepting [OF assms(1,2), of 0 asset] by (simp add: as_send_asset_file_def)
  show "\<exists>segs. as_recv_asset_file m [] (int (length asset)) r = Inr (0, asset, r\<lparr>rx := segs\<rparr>)
            \<and> concat segs = []"
    using recv_asset_ok [OF assms(3), of 0 _ m "[]"] by (simp add: as_recv_asset_file_def)
qed

definition idle_conn :: conn where
  "idle_conn = \<lparr>rx = [], rx_end = RxClosed, tx = [], tx_caps = [], c_errno = None\<rparr>"

lemma asset_round_trip_witness:
  "(\<exists>cs. as_send_asset_file ''hello'' [Accept 1, Accept 0] 5 (idle_conn\<lparr>tx_caps := [Accept 2]\<rparr>)
        = Inr (0, idle_conn\<lparr>tx := ''hello'' @ [LF], tx_caps := cs\<rparr>))
   \<and> (\<exists>segs. as_recv_asset_file (\<lambda>_. NUL) [] 5 (idle_conn\<lparr>rx := [''he'', ''llo'', [LF]]\<rparr>)
        = Inr (0, ''hello'', idle_conn\<lparr>rx := segs\<rparr>) \<and> concat segs = [])"
proof -
  have "accepting (tx_caps (idle_conn\<lparr>tx_caps := [Accept 2]\<rparr>))" "accepting [Accept 1, Accept 0]"
    "concat (rx (idle_conn\<lparr>rx := [''he'', ''llo'', [LF]]\<rparr>)) = ''hello'' @ [LF]"
    by (simp_all add: accepting_def)
  from asset_round_trip [OF this, of "\<lambda>_. NUL"] show ?thesis by (simp add: idle_conn_def)
qed

text \<open>
  C32. On a disk that writes whole blocks \<open>as_recv_asset_file\<close> accepts nothing but a well-formed transfer:
  whenever every \<open>write\<close> is complete (no capacities) and it returns 0, the stream began with exactly \<open>fsize\<close>
  bytes followed by a line feed, and those bytes are what the file now holds. After a short \<open>write\<close> it returns
  0 as well, with other bytes in the file: see the next theorem.
\<close>

theorem recv_asset_file_success:
  assumes "as_recv_asset_file m [] fsize c = Inr (0, asset, c')" "0 \<le> fsize"
  shows "int (length asset) = fsize \<and> concat (rx c) = asset @ [LF] @ concat (rx c')"
  using recv_asset_success [OF assms(1) [unfolded as_recv_asset_file_def] assms(2)] by auto

lemma recv_asset_file_success_witness:
  "as_recv_asset_file (\<lambda>_. NUL) [] 2 (idle_conn\<lparr>rx := [''ok'' @ [LF]]\<rparr>) = Inr (0, ''ok'', idle_conn)
   \<and> int (length ''ok'') = 2"
proof
  show r: "as_recv_asset_file (\<lambda>_. NUL) [] 2 (idle_conn\<lparr>rx := [''ok'' @ [LF]]\<rparr>) = Inr (0, ''ok'', idle_conn)"
    by (simp add: as_recv_asset_file_def recv_asset_loop.simps recv_def idle_conn_def BUFF_SZ_def Let_def
      recv_last_block_def mem_store_def write_block.simps mem_slice_def transfer_def upt_conv_Cons)
  show "int (length ''ok'') = 2"
    using recv_asset_file_success [OF r] by (simp only: conjunct1)
qed

text \<open>
  C40. A short write corrupts the stored asset silently. When the first \<open>write\<close> accepts only
  \<open>k + 1\<close> bytes, the loop takes its next bytes at offset \<open>2 * (k + 1)\<close> of the buffer instead of
  \<open>k + 1\<close>; the function still returns 0 and the file has the announced size.
\<close>

theorem recv_asset_file_short_write:
  assumes "rx c = [asset @ [LF]]" "Suc k < length asset" "length asset + Suc k \<le> BUFF_SZ"
  shows "as_recv_asset_file m [Accept k] (int (length asset)) c
     = Inr (0, take (Suc k) asset
             @ mem_slice (2 * Suc k) (length asset - Suc k) (mem_store (asset @ [LF]) m), c\<lparr>rx := []\<rparr>)"
proof -
  let ?m = "mem_store (asset @ [LF]) m"
  have "asset \<noteq> []" using assms(2) by auto
  then have r: "recv BUFF_SZ c = (Inr (asset @ [LF]), c\<lparr>rx := []\<rparr>)"
    using assms by (simp add: recv_def)
  have "?m (length asset) = LF" by (simp add: mem_store_def nth_append)
  moreover have "mem_slice 0 (Suc k) ?m = take (Suc k) asset"
    using assms(2) by (simp add: mem_slice_store)
  ultimately show ?thesis
    using r write_block_short [OF assms(2,3), of ?m "[]"]
    by (simp add: as_recv_asset_file_def recv_asset_loop.simps recv_last_block_def Let_def)
qed

lemma recv_asset_file_short_write_witness:
  "as_recv_asset_file (\<lambda>_. NUL) [Accept 1] 6 (idle_conn\<lparr>rx := [''abcdef'' @ [LF]]\<rparr>)
     = Inr (0, ''abef'' @ [LF, NUL], idle_conn)"
proof -
  have "rx (idle_conn\<lparr>rx := [''abcdef'' @ [LF]]\<rparr>) = [''abcdef'' @ [LF]]" "Suc 1 < length ''abcdef''"
    "length ''abcdef'' + Suc 1 \<le> BUFF_SZ" by (simp_all add: BUFF_SZ_def)
  from recv_asset_file_short_write [OF this, of "\<lambda>_. NUL"] show ?thesis
    by (simp add: idle_conn_def mem_slice_def mem_store_def upt_conv_Cons)
qed

text \<open>
  C39. \<open>read_tcp_stream\<close> fills its buffer correctly only when the bytes arrive in one segment. When
  they arrive in two, the second is stored at twice its offset: the buffer is left with a gap, and if
  it is not large enough the function writes outside it.
\<close>

theorem read_tcp_stream_segments:
  assumes "length a + length b = n" "a \<noteq> []" "b \<noteq> []" "n \<le> length buf"
  shows "read_tcp_stream buf n (c\<lparr>rx := [a @ b]\<rparr>) = Inr (0, a @ b @ drop n buf, c\<lparr>rx := []\<rparr>)
     \<and> read_tcp_stream buf n (c\<lparr>rx := [a, b]\<rparr>) =
     (if 2 * length a + length b \<le> length buf
      then Inr (0, take (2 * length a) (a @ drop (length a) buf) @ b @ drop (2 * length a + length b) buf,
                c\<lparr>rx := []\<rparr>)
      else Inl OutOfBounds)"
proof
  show "read_tcp_stream buf n (c\<lparr>rx := [a @ b]\<rparr>) = Inr (0, a @ b @ drop n buf, c\<lparr>rx := []\<rparr>)"
    using assms read_tcp_stream_delivered [of "c\<lparr>rx := [a @ b]\<rparr>" "a @ b" "[]" n buf]
    by (auto simp: rx_drop_def)
  show "read_tcp_stream buf n (c\<lparr>rx := [a, b]\<rparr>) =
     (if 2 * length a + length b \<le> length buf
      then Inr (0, take (2 * length a) (a @ drop (length a) buf) @ b @ drop (2 * length a + length b) buf,
                c\<lparr>rx := []\<rparr>)
      else Inl OutOfBounds)"
    using read_tcp_stream_two_segments [of "c\<lparr>rx := [a, b]\<rparr>" a b "[]" n buf] assms by simp
qed

lemma read_tcp_stream_segments_witness:
  "read_tcp_stream (replicate 8 NUL) 4 (idle_conn\<lparr>rx := [''OP'', ''A '']\<rparr>)
     = Inr (0, ''OP'' @ [NUL, NUL] @ ''A '' @ [NUL, NUL], idle_conn)"
proof -
  have "length ''OP'' + length ''A '' = 4" "''OP'' \<noteq> []" "''A '' \<noteq> []" "4 \<le> length (replicate 8 NUL)"
    by simp_all
  from read_tcp_stream_segments [OF this, of idle_conn] show ?thesis
    by (simp add: idle_conn_def numeral_eq_Suc)
qed

end
