(* ===== verification/DbAuctions.thy ===== *)
theory DbAuctions
  imports DbUsers NetIO
begin

text \<open>
  The auctions of \<open>server/database.c\<close>: operations that create, close and bid on an auction.
  Auction \<open>aid\<close> is the directory \<open>AUCTIONS/aid\<close> with the text record \<open>START_aid.txt\<close>, one file
  per bid under \<open>BIDS\<close> (its name is the value), the asset under \<open>ASSET\<close>, and \<open>END_aid.txt\<close> once it
  is over. \<open>now\<close> is what \<open>time(NULL)\<close> returns. Each function runs under the database mutex and
  is one atomic function of the model; \<open>create_new_auction\<close> keeps the mutex while it downloads the
  asset, so it takes the connection too.
\<close>

section \<open>Paths\<close>

definition auc_dir :: "int \<Rightarrow> path" where
  "auc_dir n = [''AUCTIONS'', fmt_0d 3 n]"

definition start_path :: "string \<Rightarrow> path" where
  "start_path aid = [''AUCTIONS'', fmt_ws 3 aid, ''START_'' @ fmt_ws 3 aid @ ''.txt'']"

definition start_path_cut :: "string \<Rightarrow> path" where
  "start_path_cut aid = [''AUCTIONS'', take 3 aid, ''START_'' @ take 3 aid @ ''.txt'']"

definition end_path :: "string \<Rightarrow> path" where
  "end_path aid = [''AUCTIONS'', fmt_ws 3 aid, ''END_'' @ fmt_ws 3 aid @ ''.txt'']"

definition end_path_cut :: "string \<Rightarrow> path" where
  "end_path_cut aid = [''AUCTIONS'', take 3 aid, ''END_'' @ take 3 aid @ ''.txt'']"

definition bids_dir :: "string \<Rightarrow> path" where
  "bids_dir aid = [''AUCTIONS'', fmt_ws 3 aid, ''BIDS'']"

definition bid_path :: "string \<Rightarrow> int \<Rightarrow> path" where
  "bid_path aid value = bids_dir aid @ [fmt_0d 6 value @ ''.txt'']"

lemmas auc_paths = auc_dir_def start_path_def start_path_cut_def end_path_def end_path_cut_def
  bids_dir_def bid_path_def

section \<open>Records\<close>

text \<open>The format \<open>%4d-%02d-%02d %02d:%02d:%02d\<close> on \<open>gmtime\<close> of a time.\<close>

definition datetime_str :: "int \<Rightarrow> string" where
  "datetime_str t = date_word (gmtime t) @ '' '' @ time_word (gmtime t)"

definition start_info :: "string \<Rightarrow> string \<Rightarrow> string \<Rightarrow> int \<Rightarrow> int \<Rightarrow> int \<Rightarrow> string" where
  "start_info uid name fname sv ta now =
     uid @ '' '' @ name @ '' '' @ fname @ '' '' @ fmt_d sv @ '' '' @ fmt_d ta @ '' '' @ datetime_str now
       @ '' '' @ fmt_d now @ [LF]"

definition bid_info :: "string \<Rightarrow> int \<Rightarrow> int \<Rightarrow> string" where
  "bid_info uid now sec = take 6 uid @ '' '' @ datetime_str now @ '' '' @ fmt_d sec @ [LF]"

definition end_info :: "int \<Rightarrow> int \<Rightarrow> string" where
  "end_info t sec = datetime_str t @ '' '' @ fmt_d sec"

text \<open>The position \<open>strtok\<close> has saved after \<open>n\<close> calls.\<close>

fun strtok_n :: "nat \<Rightarrow> string \<Rightarrow> string \<Rightarrow> string" where
  "strtok_n 0 d s = s"
| "strtok_n (Suc n) d s = strtok_n n d (snd (strtok d s))"

text \<open>Seven calls with a blank, then the rest of the line: the start time in \<open>close_auction\<close> and \<open>bid\<close>.\<close>

definition start_time_field :: "string \<Rightarrow> string option" where
  "start_time_field line = fst (strtok [LF] (strtok_n 7 [SP] line))"

section \<open>Creating an auction\<close>

text \<open>\<open>create_auction_dir\<close> returns the new identifier or \<open>-1\<close>, and the state it leaves.\<close>

definition create_auction_dir :: "db \<Rightarrow> int \<times> db" where
  "create_auction_dir d =
     (if auc_count d \<ge> 999 then (- 1, d)
      else let n = auc_count d + 1; d1 = d\<lparr>auc_count := n\<rparr>
           in case mkdir_if_absent (auc_dir n) (fs d1) of
                None \<Rightarrow> (- 1, d1)
              | Some s1 \<Rightarrow>
           (case mkdir_if_absent (auc_dir n @ [''BIDS'']) s1 of
                None \<Rightarrow> (- 1, d1\<lparr>fs := s1\<rparr>)
              | Some s2 \<Rightarrow>
           (case mkdir_if_absent (auc_dir n @ [''ASSET'']) s2 of
                None \<Rightarrow> (- 1, d1\<lparr>fs := s2\<rparr>)
              | Some s3 \<Rightarrow> (n, d1\<lparr>fs := s3\<rparr>))))"

definition hidden :: "string \<Rightarrow> bool" where
  "hidden name \<longleftrightarrow> take 1 name = ''.''"

fun remove_regular :: "path \<Rightarrow> string list \<Rightarrow> fsys \<Rightarrow> fsys" where
  "remove_regular dir [] s = s"
| "remove_regular dir (name # names) s =
     remove_regular dir names
       (if hidden name then s
        else case fs_get s (dir @ [name]) of
               Some (File _) \<Rightarrow> try_remove (dir @ [name]) s
             | _ \<Rightarrow> s)"

text \<open>\<open>opendir\<close>, remove the regular files, remove the directory; nothing if it cannot be opened.\<close>

definition remove_dir_files :: "path \<Rightarrow> fsys \<Rightarrow> fsys" where
  "remove_dir_files dir s =
     (case sys_readdir dir s of
        None \<Rightarrow> s
      | Some names \<Rightarrow> try_remove dir (remove_regular dir names s))"

definition rollback_auction_dir_creation :: "db \<Rightarrow> db" where
  "rollback_auction_dir_creation d =
     (let dir = auc_dir (auc_count d)
      in case sys_readdir dir (fs d) of
           None \<Rightarrow> d
         | Some names \<Rightarrow>
             let s1 = remove_regular dir names (fs d);
                 s2 = remove_dir_files (dir @ [''BIDS'']) s1;
                 s3 = remove_dir_files (dir @ [''ASSET'']) s2;
                 s4 = try_remove dir s3
             in d\<lparr>fs := s4, auc_count := auc_count d - 1\<rparr>)"

text \<open>
  \<open>m\<close> is the initial contents of the receive buffer and \<open>caps\<close> how \<open>write\<close> answers on the asset
  file; a full disk refuses every write. The asset file is not truncated when it exists.
\<close>

definition asset_caps :: "cap list \<Rightarrow> fsys \<Rightarrow> cap list" where
  "asset_caps caps s = (if full s then [Refuse EOTHER] else caps)"

definition overwrite :: "string \<Rightarrow> node option \<Rightarrow> string" where
  "overwrite c old = c @ (case old of Some (File o') \<Rightarrow> drop (length c) o' | _ \<Rightarrow> [])"

definition create_new_auction ::
    "string \<Rightarrow> string \<Rightarrow> string \<Rightarrow> int \<Rightarrow> int \<Rightarrow> int \<Rightarrow> int \<Rightarrow> mem \<Rightarrow> cap list \<Rightarrow> conn \<Rightarrow> db
       \<Rightarrow> (int \<times> conn \<times> db) outcome" where
  "create_new_auction uid name fname sv ta fsize now m caps c d =
     (let (auc_id, d1) = create_auction_dir d
      in if auc_id < 0 then Inr (- 1, c, d1)
         else
      let tmp_path = start_path (fmt_0d 3 (auc_count d1))
      in case sys_creat tmp_path (fs d1) of
           Inl _ \<Rightarrow> Inr (- 1, c, rollback_auction_dir_creation d1)
         | Inr s2 \<Rightarrow>
      if now = - 1 then Inr (- 1, c, rollback_auction_dir_creation (d1\<lparr>fs := s2\<rparr>))
      else case sys_fputs tmp_path (start_info uid name fname sv ta now) s2 of
           Inl _ \<Rightarrow> Inr (- 1, c, rollback_auction_dir_creation (d1\<lparr>fs := s2\<rparr>))
         | Inr s3 \<Rightarrow>
      let asset = auc_dir (auc_count d1) @ [''ASSET'', take FNAME_LEN fname]
      in case sys_creat asset s3 of
           Inl _ \<Rightarrow> Inr (- 1, c, rollback_auction_dir_creation (d1\<lparr>fs := s3\<rparr>))
         | Inr s4 \<Rightarrow>
      case as_recv_asset_file m (asset_caps caps s4) fsize c of
           Inl f \<Rightarrow> Inl f
         | Inr (rc, content, c') \<Rightarrow>
      let s5 = fs_put asset (File (overwrite content (fs_get s4 asset))) s4
      in if rc \<noteq> 0 then Inr (- 1, c', rollback_auction_dir_creation (d1\<lparr>fs := s5\<rparr>))
         else case sys_creat [''USERS'', fmt_ws 6 uid, ''HOSTED'', fmt_0d 3 auc_id @ ''.txt''] s5 of
                Inl _ \<Rightarrow> Inr (- 1, c', rollback_auction_dir_creation (d1\<lparr>fs := s5\<rparr>))
              | Inr s6 \<Rightarrow> Inr (auc_id, c', d1\<lparr>fs := s6\<rparr>))"

section \<open>Closing an auction and bidding\<close>

definition close_auction :: "int \<Rightarrow> string \<Rightarrow> db \<Rightarrow> int \<times> db" where
  "close_auction now aid d =
     (if \<not> sys_can_read (start_path aid) (fs d) then (1, d)
      else case sys_fgets 128 (start_path aid) (fs d) of
             None \<Rightarrow> (1, d)
           | Some auction_info \<Rightarrow>
      (case start_time_field auction_info of
             None \<Rightarrow> (- 1, d)
           | Some start_time \<Rightarrow>
      let start_time_l = atol start_time; end_sec_time = now - start_time_l
      in if start_time_l = 0 then (- 1, d)
         else case sys_creat (end_path aid) (fs d) of
             Inl _ \<Rightarrow> (- 1, d)
           | Inr s1 \<Rightarrow>
      (case sys_fputs (end_path aid) (end_info now end_sec_time) s1 of
             Inl _ \<Rightarrow> (- 1, d\<lparr>fs := s1\<rparr>)
           | Inr s2 \<Rightarrow> (0, d\<lparr>fs := s2\<rparr>))))"

text \<open>\<open>"%d.txt"\<close> of \<open>sscanf\<close> succeeds as soon as the number is read.\<close>

definition scan_bid_value :: "string \<Rightarrow> int option" where
  "scan_bid_value name = map_option (\<lambda>(v, _). c_int v) (scan_d (length name) name)"

definition get_last_bid :: "string \<Rightarrow> db \<Rightarrow> int" where
  "get_last_bid aid d =
     (case sys_scandir (bids_dir aid) (fs d) of
        None \<Rightarrow> - 1
      | Some entries \<Rightarrow> (case scan_bid_value (last entries) of None \<Rightarrow> 0 | Some v \<Rightarrow> v))"

definition bid :: "int \<Rightarrow> string \<Rightarrow> string \<Rightarrow> int \<Rightarrow> db \<Rightarrow> int \<times> db" where
  "bid now aid uid value d =
     (if \<not> sys_can_read (start_path aid) (fs d) then (1, d)
      else case sys_fgets 128 (start_path aid) (fs d) of
             None \<Rightarrow> (1, d)
           | Some auction_info \<Rightarrow>
      (case start_time_field auction_info of
             None \<Rightarrow> (- 1, d)
           | Some start_time \<Rightarrow>
      let start_time_l = atol start_time; bid_sec_time = now - start_time_l
      in if start_time_l = 0 then (- 1, d)
         else case sys_creat (bid_path aid value) (fs d) of
             Inl _ \<Rightarrow> (- 1, d)
           | Inr s1 \<Rightarrow>
      (case sys_fputs (bid_path aid value) (bid_info uid now bid_sec_time) s1 of
             Inl _ \<Rightarrow> (- 1, d\<lparr>fs := s1\<rparr>)
           | Inr s2 \<Rightarrow>
      (case sys_creat [''USERS'', take 6 uid, ''BIDDED'', take 3 aid @ ''.txt''] s2 of
             Inl _ \<Rightarrow> (- 1, d\<lparr>fs := s2\<rparr>)
           | Inr s3 \<Rightarrow> (0, d\<lparr>fs := s3\<rparr>)))))"

end
