(* ===== verification/DbReports.thy ===== *)
theory DbReports
  imports DbAuctions
begin

text \<open>
  The rest of \<open>server/database.c\<close>: start-up, the queries on auctions, the lists that the UDP
  replies carry, and \<open>update_database\<close>, which ends the auctions whose time is over. A list function
  appends to a response buffer; the model returns the text appended, and \<open>None\<close> for \<open>-1\<close>. Two
  functions can reach undefined behaviour on a damaged database (an empty record read into an
  array that was never written, a line too long for its array) and have an outcome.
\<close>

section \<open>Start-up\<close>

definition load_db_state :: "db \<Rightarrow> int \<times> db" where
  "load_db_state d =
     (case sys_readdir [''AUCTIONS''] (fs d) of
        None \<Rightarrow> (- 1, d)
      | Some names \<Rightarrow> (0, d\<lparr>auc_count := auc_count d + int (length (filter (\<lambda>x. \<not> hidden x) names))\<rparr>))"

text \<open>\<open>s\<close> is the tree of the server's working directory; the database root is \<open>ASDIR\<close>.\<close>

definition DB_ROOT :: string where "DB_ROOT = ''ASDIR''"

definition init_database :: "fsys \<Rightarrow> (int \<times> db) option" where
  "init_database s =
     (case mkdir_if_absent [DB_ROOT] s of
        None \<Rightarrow> None
      | Some s1 \<Rightarrow>
     (case sys_chdir DB_ROOT s1 of
        Inl _ \<Rightarrow> None
      | Inr s2 \<Rightarrow>
     (case mkdir_if_absent [''USERS''] s2 of
        None \<Rightarrow> None
      | Some s3 \<Rightarrow>
     (case mkdir_if_absent [''AUCTIONS''] s3 of
        None \<Rightarrow> None
      | Some s4 \<Rightarrow>
     (case load_db_state \<lparr>fs = s4, auc_count = 0\<rparr> of
        (rc, d) \<Rightarrow> if rc \<noteq> 0 then None else Some (0, d))))))"

section \<open>Queries\<close>

definition exists_auction :: "string \<Rightarrow> db \<Rightarrow> bool" where
  "exists_auction aid d = (let aid_int = atoi aid in aid_int \<le> auc_count d \<and> aid_int > 0)"

definition is_auction_finished :: "string \<Rightarrow> db \<Rightarrow> bool" where
  "is_auction_finished aid d = sys_can_read (end_path aid) (fs d)"

definition get_auction_info :: "string \<Rightarrow> nat \<Rightarrow> db \<Rightarrow> string option" where
  "get_auction_info aid n d =
     (if \<not> sys_can_read (start_path aid) (fs d) then None else sys_fgets n (start_path aid) (fs d))"

section \<open>Lists of auctions\<close>

definition auc_status :: "fsys \<Rightarrow> string \<Rightarrow> string" where
  "auc_status s name =
     '' '' @ take 3 name @ (if \<not> sys_can_read (end_path_cut name) s then '' 1'' else '' 0'')"

definition get_user_auctions :: "string \<Rightarrow> db \<Rightarrow> string option" where
  "get_user_auctions uid d =
     (case sys_scandir [''USERS'', take 6 uid, ''HOSTED''] (fs d) of
        None \<Rightarrow> None
      | Some entries \<Rightarrow> Some (concat (map (auc_status (fs d)) (filter (\<lambda>x. \<not> hidden x) entries)) @ [LF]))"

definition get_auctions_list :: "db \<Rightarrow> string option" where
  "get_auctions_list d =
     (case sys_scandir [''AUCTIONS''] (fs d) of
        None \<Rightarrow> None
      | Some entries \<Rightarrow> Some (concat (map (auc_status (fs d)) (filter (\<lambda>x. \<not> hidden x) entries)) @ [LF]))"

definition get_user_bids :: "string \<Rightarrow> db \<Rightarrow> string option" where
  "get_user_bids uid d =
     (case sys_scandir [''USERS'', take 6 uid, ''BIDDED''] (fs d) of
        None \<Rightarrow> None
      | Some entries \<Rightarrow> Some (concat (map (auc_status (fs d)) (filter (\<lambda>x. \<not> hidden x) entries)) @ [LF]))"

section \<open>The bids of an auction\<close>

text \<open>
  The array \<open>bid_info\<close> is declared outside the loop and \<open>fgets(...) < 0\<close> never holds, so an empty
  bid file leaves the array as the previous iteration left it: \<open>None\<close> while it was never written,
  otherwise the string before the zero that the first \<open>strtok\<close> put after the first token.
\<close>

definition after_strtok :: "string \<Rightarrow> string" where
  "after_strtok s = takeWhile (\<lambda>x. x = SP) s @ takeWhile (\<lambda>x. x \<noteq> SP) (dropWhile (\<lambda>x. x = SP) s)"

text \<open>One line of the record, from the first field to the entry of the response; \<open>None\<close> skips it.\<close>

definition bid_entry :: "string \<Rightarrow> string \<Rightarrow> string option outcome" where
  "bid_entry name info =
     (case strtok [SP] info of
        (None, _) \<Rightarrow> Inr None
      | (Some bidder_uid, r1) \<Rightarrow>
     if \<not> is_valid_uid bidder_uid then Inr None
     else case strtok [SP] r1 of
        (None, _) \<Rightarrow> Inr None
      | (Some bid_date, r2) \<Rightarrow>
     (case strtok [SP] r2 of
        (None, _) \<Rightarrow> Inr None
      | (Some bid_time, r3) \<Rightarrow>
     (case is_valid_date_time bid_date bid_time of
        Inl f \<Rightarrow> Inl f
      | Inr ok \<Rightarrow>
     if \<not> ok then Inr None
     else case strtok [LF] r3 of
        (None, _) \<Rightarrow> Inr None
      | (Some bid_sec_time, _) \<Rightarrow>
     (case scan_bid_value name of
        None \<Rightarrow> Inr None
      | Some bid_value \<Rightarrow>
     let entry = '' B '' @ take 6 bidder_uid @ '' '' @ fmt_d bid_value @ '' '' @ bid_date @ '' '' @ bid_time
                   @ '' '' @ bid_sec_time
     in if length entry \<ge> 128 then Inl OutOfBounds else Inr (Some entry)))))"

fun bid_entries :: "string \<Rightarrow> fsys \<Rightarrow> string option \<Rightarrow> string list \<Rightarrow> string outcome" where
  "bid_entries aid s stale [] = Inr []"
| "bid_entries aid s stale (name # names) =
     (let curr_bid_path = [''AUCTIONS'', take 3 aid, ''BIDS'', take 10 name]
      in if \<not> sys_can_read curr_bid_path s then bid_entries aid s stale names
         else case (case sys_fgets 128 curr_bid_path s of None \<Rightarrow> stale | Some line \<Rightarrow> Some line) of
                None \<Rightarrow> Inl Uninit
              | Some info \<Rightarrow>
                  bind_ok (bid_entry name info) (\<lambda>entry.
                  bind_ok (bid_entries aid s (Some (after_strtok info)) names) (\<lambda>rest.
                    Inr ((case entry of None \<Rightarrow> [] | Some e \<Rightarrow> e) @ rest))))"

definition end_entry :: "string \<Rightarrow> fsys \<Rightarrow> string outcome" where
  "end_entry aid s =
     (if \<not> sys_can_read (end_path_cut aid) s then Inr []
      else case sys_fgets 128 (end_path_cut aid) s of
             None \<Rightarrow> Inr []
           | Some end_buff \<Rightarrow>
      (let (date, r1) = strtok [SP] end_buff; (time, r2) = strtok [SP] r1; (end_sec_time, _) = strtok [LF] r2
       in case (date, time, end_sec_time) of
            (Some da, Some ti, Some se) \<Rightarrow>
              bind_ok (is_valid_date_time da ti) (\<lambda>ok.
                if ok then let e = '' E '' @ da @ '' '' @ ti @ '' '' @ se
                           in if length e \<ge> 128 then Inl OutOfBounds else Inr e
                else Inr [])
          | _ \<Rightarrow> Inr []))"

definition get_auction_bidders_list :: "string \<Rightarrow> db \<Rightarrow> string option outcome" where
  "get_auction_bidders_list aid d =
     (case sys_scandir [''AUCTIONS'', take 3 aid, ''BIDS''] (fs d) of
        None \<Rightarrow> Inr None
      | Some entries \<Rightarrow>
          let n_entries = length entries;
              first_entry = (if n_entries > 52 then n_entries - 50 else 2)
          in bind_ok (bid_entries aid (fs d) None (drop first_entry entries)) (\<lambda>bids.
             bind_ok (end_entry aid (fs d)) (\<lambda>e. Inr (Some (bids @ e @ [LF])))))"

section \<open>update_database\<close>

text \<open>One iteration of the loop. \<open>start_time_l\<close> is an \<open>int\<close>, so the time stamp is cut to 32 bits.\<close>

definition update_auction :: "int \<Rightarrow> string \<Rightarrow> fsys \<Rightarrow> fsys outcome" where
  "update_auction now name s =
     (if hidden name \<or> sys_can_read (end_path_cut name) s \<or> \<not> sys_can_read (start_path_cut name) s then Inr s
      else case sys_fgets 128 (start_path_cut name) s of
             None \<Rightarrow> Inl Uninit
           | Some info \<Rightarrow>
      (let time_active = fst (strtok [SP] (strtok_n 4 [SP] info));
           start_time = fst (strtok [SP] (strtok_n 7 [SP] info))
       in case (time_active, start_time) of
            (Some ta, Some st) \<Rightarrow>
              if \<not> is_valid_time_active ta then Inr s
              else
                let time_active_i = atoi ta; start_time_l = c_int (atol st)
                in if now - start_time_l < time_active_i then Inr s
                   else case sys_creat (end_path_cut name) s of
                          Inl _ \<Rightarrow> Inr s
                        | Inr s1 \<Rightarrow>
                (let end_sec_time = c_int (start_time_l + time_active_i)
                 in case sys_fputs (end_path_cut name) (end_info end_sec_time time_active_i @ [LF]) s1 of
                      Inl _ \<Rightarrow> Inr s1
                    | Inr s2 \<Rightarrow> Inr s2)
          | _ \<Rightarrow> Inr s))"

fun update_auctions :: "int \<Rightarrow> string list \<Rightarrow> fsys \<Rightarrow> fsys outcome" where
  "update_auctions now [] s = Inr s"
| "update_auctions now (name # names) s = bind_ok (update_auction now name s) (update_auctions now names)"

definition update_database :: "int \<Rightarrow> db \<Rightarrow> (int \<times> db) outcome" where
  "update_database now d =
     (case sys_readdir [''AUCTIONS''] (fs d) of
        None \<Rightarrow> Inr (- 1, d)
      | Some entries \<Rightarrow> bind_ok (update_auctions now entries (fs d)) (\<lambda>s. Inr (0, d\<lparr>fs := s\<rparr>)))"

end
