(* ===== verification/UdpServer.thy ===== *)
theory UdpServer
  imports DbReports
begin

text \<open>
  \<open>server/udp.c\<close>, \<open>server/udp_command_table.c\<close> and the loop body of \<open>udp_server_thread_fn\<close> in
  \<open>server/server.c\<close>. A handler receives the request after the command word; it returns its error
  code, the contents of the response buffer, the response length and the database. The response
  buffer is zeroed before each request, so what is sent is the first \<open>response_len\<close> bytes of the
  string followed by zeros.
\<close>

type_synonym udp_result = "(int \<times> string \<times> nat \<times> db) outcome"

definition ERR_LIN :: int where "ERR_LIN = 1"
definition ERR_LOU :: int where "ERR_LOU = 2"
definition ERR_UNR :: int where "ERR_UNR = 3"
definition ERR_LMA :: int where "ERR_LMA = 4"
definition ERR_MB :: int where "ERR_MB = 5"
definition ERR_SRC :: int where "ERR_SRC = 6"
definition ERR_LST :: int where "ERR_LST = 7"

lemmas udp_err_defs = ERR_LIN_def ERR_LOU_def ERR_UNR_def ERR_LMA_def ERR_MB_def ERR_SRC_def ERR_LST_def

definition udp_fail :: "int \<Rightarrow> db \<Rightarrow> udp_result" where
  "udp_fail err d = Inr (err, [], 0, d)"

definition udp_reply :: "string \<Rightarrow> db \<Rightarrow> udp_result" where
  "udp_reply msg d = Inr (0, msg, length msg, d)"

section \<open>Accounts\<close>

definition handle_login :: "string \<Rightarrow> db \<Rightarrow> udp_result" where
  "handle_login input d =
     (case strtok [SP] input of
        (None, _) \<Rightarrow> udp_fail ERR_LIN d
      | (Some uid, r) \<Rightarrow>
     if \<not> is_valid_uid uid then udp_fail ERR_LIN d
     else case strtok [LF] r of
        (None, _) \<Rightarrow> udp_fail ERR_LIN d
      | (Some passwd, _) \<Rightarrow>
     if \<not> is_valid_passwd passwd then udp_fail ERR_LIN d
     else if \<not> exists_user uid d then
       (case register_user uid passwd d of
          (rc, d') \<Rightarrow> if rc \<noteq> 0 then udp_fail ERR_LIN d' else udp_reply (''RLI REG'' @ [LF]) d')
     else if is_authentic_user uid passwd d = 0 then udp_reply (''RLI NOK'' @ [LF]) d
     else (case log_in_user uid d of
             (rc, d') \<Rightarrow> if rc \<noteq> 0 then udp_fail ERR_LIN d' else udp_reply (''RLI OK'' @ [LF]) d'))"

definition handle_logout :: "string \<Rightarrow> db \<Rightarrow> udp_result" where
  "handle_logout input d =
     (case strtok [SP] input of
        (None, _) \<Rightarrow> udp_fail ERR_LOU d
      | (Some uid, r) \<Rightarrow>
     if \<not> is_valid_uid uid then udp_fail ERR_LOU d
     else case strtok [LF] r of
        (None, _) \<Rightarrow> udp_fail ERR_LOU d
      | (Some passwd, _) \<Rightarrow>
     if \<not> is_valid_passwd passwd then udp_fail ERR_LOU d
     else if \<not> exists_user uid d then udp_reply (''RLO UNR'' @ [LF]) d
     else if \<not> is_user_logged_in uid d then udp_reply (''RLO NOK'' @ [LF]) d
     else if is_authentic_user uid passwd d = 0 then udp_reply (''RLO NOK'' @ [LF]) d
     else (case log_out_user uid d of
             (rc, d') \<Rightarrow> if rc \<noteq> 0 then udp_fail ERR_LOU d' else udp_reply (''RLO OK'' @ [LF]) d'))"

definition handle_unregister :: "string \<Rightarrow> db \<Rightarrow> udp_result" where
  "handle_unregister input d =
     (case strtok [SP] input of
        (None, _) \<Rightarrow> udp_fail ERR_UNR d
      | (Some uid, r) \<Rightarrow>
     if \<not> is_valid_uid uid then udp_fail ERR_UNR d
     else case strtok [LF] r of
        (None, _) \<Rightarrow> udp_fail ERR_UNR d
      | (Some passwd, _) \<Rightarrow>
     if \<not> is_valid_passwd passwd then udp_fail ERR_UNR d
     else if \<not> exists_user uid d then udp_reply (''RUR UNR'' @ [LF]) d
     else if \<not> is_user_logged_in uid d then udp_reply (''RUR NOK'' @ [LF]) d
     else if is_authentic_user uid passwd d = 0 then udp_reply (''RUR NOK'' @ [LF]) d
     else (case unregister_user uid d of
             (rc, d') \<Rightarrow> if rc \<noteq> 0 then udp_fail ERR_UNR d' else udp_reply (''RUR OK'' @ [LF]) d'))"

section \<open>Lists\<close>

text \<open>The result of \<open>update_database\<close> is ignored, only its effect matters.\<close>

definition handle_my_auctions :: "int \<Rightarrow> string \<Rightarrow> db \<Rightarrow> udp_result" where
  "handle_my_auctions now input d =
     (case strtok [LF] input of
        (None, _) \<Rightarrow> udp_fail ERR_LMA d
      | (Some uid, _) \<Rightarrow>
     if \<not> is_valid_uid uid then udp_fail ERR_LMA d
     else if \<not> exists_user uid d then udp_reply (''RMA NOK'' @ [LF]) d
     else if \<not> is_user_logged_in uid d then udp_reply (''RMA NLG'' @ [LF]) d
     else bind_ok (update_database now d) (\<lambda>(_, d').
       case get_user_auctions uid d' of
         None \<Rightarrow> udp_fail ERR_LMA d'
       | Some text \<Rightarrow> if length text = 1 then udp_reply (''RMA NOK'' @ [LF]) d'
                      else udp_reply (''RMA OK'' @ text) d'))"

definition handle_my_bids :: "int \<Rightarrow> string \<Rightarrow> db \<Rightarrow> udp_result" where
  "handle_my_bids now input d =
     (case strtok [LF] input of
        (None, _) \<Rightarrow> udp_fail ERR_MB d
      | (Some uid, _) \<Rightarrow>
     if \<not> is_valid_uid uid then udp_fail ERR_MB d
     else if \<not> exists_user uid d then udp_reply (''RMB NOK'' @ [LF]) d
     else if \<not> is_user_logged_in uid d then udp_reply (''RMB NLG'' @ [LF]) d
     else bind_ok (update_database now d) (\<lambda>(_, d').
       case get_user_bids uid d' of
         None \<Rightarrow> udp_fail ERR_MB d'
       | Some text \<Rightarrow> if length text = 1 then udp_reply (''RMB NOK'' @ [LF]) d'
                      else udp_reply (''RMB OK'' @ text) d'))"

definition handle_list :: "int \<Rightarrow> string \<Rightarrow> db \<Rightarrow> udp_result" where
  "handle_list now input d =
     bind_ok (update_database now d) (\<lambda>(_, d').
       case get_auctions_list d' of
         None \<Rightarrow> udp_fail ERR_LST d'
       | Some text \<Rightarrow> if length text = 1 then udp_reply (''RLS NOK'' @ [LF]) d'
                      else udp_reply (''RLS OK'' @ text) d')"

section \<open>The record of an auction\<close>

text \<open>
  The parse of the \<open>START\<close> record with its checks, in the order of the code; \<open>None\<close> is one of the
  \<open>return ERR_SRC\<close>. The result is the head of the reply. The last field is required but not used.
\<close>

definition record_head :: "string \<Rightarrow> string option outcome" where
  "record_head auction_info =
     (case strtok [SP] auction_info of
        (None, _) \<Rightarrow> Inr None
      | (Some host_uid, r1) \<Rightarrow>
     if \<not> is_valid_uid host_uid then Inr None
     else case strtok [SP] r1 of
        (None, _) \<Rightarrow> Inr None
      | (Some asset_name, r2) \<Rightarrow>
     if \<not> is_valid_name asset_name then Inr None
     else case strtok [SP] r2 of
        (None, _) \<Rightarrow> Inr None
      | (Some fname, r3) \<Rightarrow>
     if \<not> is_valid_fname fname then Inr None
     else case strtok [SP] r3 of
        (None, _) \<Rightarrow> Inr None
      | (Some sv, r4) \<Rightarrow>
     if \<not> is_valid_start_value sv then Inr None
     else case strtok [SP] r4 of
        (None, _) \<Rightarrow> Inr None
      | (Some ta, r5) \<Rightarrow>
     if \<not> is_valid_time_active ta then Inr None
     else case strtok [SP] r5 of
        (None, _) \<Rightarrow> Inr None
      | (Some start_date, r6) \<Rightarrow>
     (case strtok [SP] r6 of
        (None, _) \<Rightarrow> Inr None
      | (Some start_time, r7) \<Rightarrow>
     bind_ok (is_valid_date_time start_date start_time) (\<lambda>ok.
     if \<not> ok then Inr None
     else case strtok [LF] r7 of
        (None, _) \<Rightarrow> Inr None
      | (Some _, _) \<Rightarrow>
          Inr (Some (''RRC OK '' @ host_uid @ '' '' @ asset_name @ '' '' @ fname @ '' '' @ sv @ '' '' @ start_date
                 @ '' '' @ start_time @ '' '' @ ta)))))"

text \<open>The final \<open>strcat\<close> of a line feed is not counted in \<open>response_len\<close>, so it is not sent.\<close>

definition handle_show_record :: "int \<Rightarrow> string \<Rightarrow> db \<Rightarrow> udp_result" where
  "handle_show_record now input d =
     (case strtok [LF] input of
        (None, _) \<Rightarrow> udp_fail ERR_SRC d
      | (Some aid, _) \<Rightarrow>
     if \<not> is_valid_aid aid then udp_fail ERR_SRC d
     else if \<not> exists_auction aid d then udp_reply (''RRC NOK'' @ [LF]) d
     else bind_ok (update_database now d) (\<lambda>(_, d').
       case get_auction_info aid 128 d' of
         None \<Rightarrow> udp_fail ERR_SRC d'
       | Some auction_info \<Rightarrow>
     bind_ok (record_head auction_info) (\<lambda>head.
       case head of
         None \<Rightarrow> udp_fail ERR_SRC d'
       | Some response \<Rightarrow>
     bind_ok (get_auction_bidders_list aid d') (\<lambda>bids.
       case bids of
         None \<Rightarrow> udp_fail ERR_SRC d'
       | Some text \<Rightarrow> Inr (0, response @ text @ [LF], length response + length text, d')))))"

section \<open>The command table\<close>

datatype udp_handler = H_login | H_logout | H_unregister | H_my_auctions | H_my_bids | H_list | H_show_record

definition udp_command_table :: "(string \<times> udp_handler) list" where
  "udp_command_table =
     [(''LIN '', H_login), (''LOU '', H_logout), (''UNR '', H_unregister), (''LMA '', H_my_auctions),
      (''LMB '', H_my_bids), (''LST'' @ [LF], H_list), (''SRC '', H_show_record)]"

definition get_udp_handler_fn :: "string \<Rightarrow> udp_handler option" where
  "get_udp_handler_fn cmd = map_of udp_command_table cmd"

definition run_udp_handler :: "udp_handler \<Rightarrow> int \<Rightarrow> string \<Rightarrow> db \<Rightarrow> udp_result" where
  "run_udp_handler h now input d =
     (case h of
        H_login \<Rightarrow> handle_login input d
      | H_logout \<Rightarrow> handle_logout input d
      | H_unregister \<Rightarrow> handle_unregister input d
      | H_my_auctions \<Rightarrow> handle_my_auctions now input d
      | H_my_bids \<Rightarrow> handle_my_bids now input d
      | H_list \<Rightarrow> handle_list now input d
      | H_show_record \<Rightarrow> handle_show_record now input d)"

definition udp_errors_table :: "string list" where
  "udp_errors_table =
     [''RLI ERR'' @ [LF], ''RLO ERR'' @ [LF], ''RUR ERR'' @ [LF], ''RMA ERR'' @ [LF], ''RMB ERR'' @ [LF],
      ''RRC ERR'' @ [LF]]"

definition get_udp_error_msg :: "int \<Rightarrow> string option" where
  "get_udp_error_msg errcode =
     (if errcode < 0 \<or> errcode \<ge> int (length udp_errors_table) then None
      else Some (udp_errors_table ! nat (errcode - 1)))"

text \<open>A null error message is dereferenced by \<open>sprintf\<close> and \<open>strlen\<close>.\<close>

definition handle_udp_command :: "int \<Rightarrow> string \<Rightarrow> db \<Rightarrow> udp_result" where
  "handle_udp_command now request d =
     (let cmd = take 4 request
      in case get_udp_handler_fn cmd of
           None \<Rightarrow> udp_fail (- 1) d
         | Some fn \<Rightarrow>
             bind_ok (run_udp_handler fn now (drop (length cmd) request) d) (\<lambda>(err, response, response_len, d').
               if err \<noteq> 0 then
                 (case get_udp_error_msg err of
                    None \<Rightarrow> Inl NullDeref
                  | Some error_msg \<Rightarrow> Inr (0, error_msg, length error_msg, d'))
               else Inr (0, response, response_len, d')))"

section \<open>One round of the UDP server\<close>

definition sent_bytes :: "string \<Rightarrow> nat \<Rightarrow> string" where
  "sent_bytes response response_len = take response_len (response @ replicate (response_len - length response) NUL)"

definition udp_round :: "int \<Rightarrow> string \<Rightarrow> db \<Rightarrow> (string \<times> db) outcome" where
  "udp_round now datagram d =
     (if length datagram = 0 then Inr (''ERR'' @ [LF], d)
      else if length datagram > 20 then Inr (''ERR'' @ [LF], d)
      else if datagram ! (length datagram - 1) \<noteq> LF then Inr (''ERR'' @ [LF], d)
      else bind_ok (handle_udp_command now (cstr datagram) d) (\<lambda>(err, response, response_len, d').
             if err \<noteq> 0 then Inr (''ERR'' @ [LF], d')
             else Inr (sent_bytes response response_len, d')))"

section \<open>The account commands\<close>

text \<open>
  What the three account commands promise, on the account table alone: the reply and the new
  table. \<open>account_request\<close> is the datagram of a command.
\<close>

datatype account_cmd = LIN | LOU | UNR

definition account_request :: "account_cmd \<Rightarrow> string \<Rightarrow> string \<Rightarrow> string" where
  "account_request k u pw =
     (case k of LIN \<Rightarrow> ''LIN '' | LOU \<Rightarrow> ''LOU '' | UNR \<Rightarrow> ''UNR '') @ u @ '' '' @ pw @ [LF]"

definition account_spec ::
    "account_cmd \<Rightarrow> string \<Rightarrow> string \<Rightarrow> (string \<Rightarrow> (string \<times> bool) option)
       \<Rightarrow> string \<times> (string \<Rightarrow> (string \<times> bool) option)" where
  "account_spec k u pw a =
     (case k of
        LIN \<Rightarrow> (case a u of
                  None \<Rightarrow> (''RLI REG'' @ [LF], a(u \<mapsto> (pw, True)))
                | Some (pw', _) \<Rightarrow> if pw' = pw then (''RLI OK'' @ [LF], a(u \<mapsto> (pw, True)))
                                  else (''RLI NOK'' @ [LF], a))
      | LOU \<Rightarrow> (case a u of
                  None \<Rightarrow> (''RLO UNR'' @ [LF], a)
                | Some (pw', l) \<Rightarrow> if l \<and> pw' = pw then (''RLO OK'' @ [LF], a(u \<mapsto> (pw, False)))
                                  else (''RLO NOK'' @ [LF], a))
      | UNR \<Rightarrow> (case a u of
                  None \<Rightarrow> (''RUR UNR'' @ [LF], a)
                | Some (pw', l) \<Rightarrow> if l \<and> pw' = pw then (''RUR OK'' @ [LF], a(u := None))
                                  else (''RUR NOK'' @ [LF], a)))"

lemma udp_reply_inject [simp]: "udp_reply m d = udp_reply m' d' \<longleftrightarrow> m = m' \<and> d = d'"
  by (auto simp: udp_reply_def)

lemma account_tokens:
  shows "is_valid_uid u \<Longrightarrow> strtok [SP] (u @ SP # r) = (Some u, r)"
    and "is_valid_passwd pw \<Longrightarrow> strtok [LF] (pw @ [LF]) = (Some pw, [])"
  using valid_uid_clean valid_passwd_clean by (auto intro!: strtok_until)

lemma handle_login_spec:
  assumes inv: "users_inv d" and u: "is_valid_uid u" and pw: "is_valid_passwd pw"
  shows "\<exists>d'. handle_login (u @ '' '' @ pw @ [LF]) d = udp_reply (fst (account_spec LIN u pw (user_view d))) d'
     \<and> users_inv d' \<and> user_view d' = snd (account_spec LIN u pw (user_view d))"
proof (cases "user_view d u")
  case None
  obtain d' where "register_user u pw d = (0, d')" "users_inv d'" "user_view d' = (user_view d)(u \<mapsto> (pw, True))"
    using us.register_law [OF inv u pw None] by blast
  then show ?thesis using None us.exists_view [OF inv u]
    by (simp add: handle_login_def account_tokens u pw account_spec_def)
next
  case (Some r)
  obtain pw' l where r: "user_view d u = Some (pw', l)" using Some by (cases r) auto
  show ?thesis
  proof (cases "pw' = pw")
    case True
    obtain d' where "log_in_user u d = (0, d')" "users_inv d'" "user_view d' = (user_view d)(u \<mapsto> (pw, True))"
      using us.log_in_law [OF inv u r] True by blast
    then show ?thesis using r True us.exists_view [OF inv u] us.authentic_view [OF inv u, of pw]
      by (simp add: handle_login_def account_tokens u pw account_spec_def)
  next
    case False
    then show ?thesis using inv r us.exists_view [OF inv u] us.authentic_view [OF inv u, of pw]
      by (simp add: handle_login_def account_tokens u pw account_spec_def)
  qed
qed

lemma handle_logout_spec:
  assumes inv: "users_inv d" and u: "is_valid_uid u" and pw: "is_valid_passwd pw"
  shows "\<exists>d'. handle_logout (u @ '' '' @ pw @ [LF]) d = udp_reply (fst (account_spec LOU u pw (user_view d))) d'
     \<and> users_inv d' \<and> user_view d' = snd (account_spec LOU u pw (user_view d))"
proof (cases "user_view d u = Some (pw, True)")
  case True
  obtain d' where "log_out_user u d = (0, d')" "users_inv d'" "user_view d' = (user_view d)(u \<mapsto> (pw, False))"
    using us.log_out_law [OF inv u True] by blast
  then show ?thesis using True us.exists_view [OF inv u] us.logged_view [OF inv u] us.authentic_view [OF inv u, of pw]
    by (simp add: all_bool_eq ex_bool_eq handle_logout_def account_tokens u pw account_spec_def)
next
  case False
  then show ?thesis using inv us.exists_view [OF inv u] us.logged_view [OF inv u] us.authentic_view [OF inv u, of pw]
    by (auto simp: handle_logout_def account_tokens u pw account_spec_def split: option.splits)
qed

lemma handle_unregister_spec:
  assumes inv: "users_inv d" and u: "is_valid_uid u" and pw: "is_valid_passwd pw"
  shows "\<exists>d'. handle_unregister (u @ '' '' @ pw @ [LF]) d = udp_reply (fst (account_spec UNR u pw (user_view d))) d'
     \<and> users_inv d' \<and> user_view d' = snd (account_spec UNR u pw (user_view d))"
proof (cases "user_view d u = Some (pw, True)")
  case True
  obtain d' where "unregister_user u d = (0, d')" "users_inv d'" "user_view d' = (user_view d)(u := None)"
    using us.unregister_law [OF inv u True] by blast
  then show ?thesis using True us.exists_view [OF inv u] us.logged_view [OF inv u] us.authentic_view [OF inv u, of pw]
    by (simp add: all_bool_eq ex_bool_eq handle_unregister_def account_tokens u pw account_spec_def)
next
  case False
  then show ?thesis using inv us.exists_view [OF inv u] us.logged_view [OF inv u] us.authentic_view [OF inv u, of pw]
    by (auto simp: handle_unregister_def account_tokens u pw account_spec_def split: option.splits)
qed

text \<open>A well-formed datagram reaches its handler, and a reply of full length is sent whole.\<close>

lemma sent_bytes_all [simp]: "sent_bytes msg (length msg) = msg"
  by (simp add: sent_bytes_def)

lemma udp_round_handler:
  assumes "length x \<le> 15" "NUL \<notin> set x" "map_of udp_command_table w = Some h" "length w = 4" "NUL \<notin> set w"
    and "run_udp_handler h now (x @ [LF]) d = udp_reply msg d'"
  shows "udp_round now (w @ x @ [LF]) d = Inr (msg, d')"
proof -
  have "cstr (w @ x @ [LF]) = w @ x @ [LF]" using assms by (intro cstr_no_nul) auto
  then show ?thesis using assms
    by (simp add: udp_round_def handle_udp_command_def get_udp_handler_fn_def udp_reply_def nth_append)
qed

lemma udp_round_error:
  assumes "length x \<le> 15" "NUL \<notin> set x" "map_of udp_command_table w = Some h" "length w = 4" "NUL \<notin> set w"
    and "run_udp_handler h now (x @ [LF]) d = udp_fail err d'" "err \<noteq> 0"
  shows "udp_round now (w @ x @ [LF]) d =
     (case get_udp_error_msg err of None \<Rightarrow> Inl NullDeref | Some msg \<Rightarrow> Inr (msg, d'))"
proof -
  have "cstr (w @ x @ [LF]) = w @ x @ [LF]" using assms by (intro cstr_no_nul) auto
  then show ?thesis using assms
    by (simp add: udp_round_def handle_udp_command_def get_udp_handler_fn_def udp_fail_def nth_append
      split: option.splits)
qed

lemma udp_round_account:
  assumes inv: "users_inv d" and u: "is_valid_uid u" and pw: "is_valid_passwd pw"
  shows "\<exists>d'. udp_round now (account_request k u pw) d = Inr (fst (account_spec k u pw (user_view d)), d')
     \<and> users_inv d' \<and> user_view d' = snd (account_spec k u pw (user_view d))"
proof -
  let ?x = "u @ '' '' @ pw"
  have x: "length ?x \<le> 15" "NUL \<notin> set ?x"
    using valid_uid_clean [OF u] valid_passwd_clean [OF pw] u pw by (auto simp: is_valid_uid_iff is_valid_passwd_iff)
  note handler = udp_round_handler [OF x, simplified append_assoc]
  show ?thesis
  proof (cases k)
    case LIN
    obtain d' where "handle_login (u @ '' '' @ pw @ [LF]) d = udp_reply (fst (account_spec LIN u pw (user_view d))) d'"
      and d': "users_inv d'" "user_view d' = snd (account_spec LIN u pw (user_view d))"
      using handle_login_spec [OF inv u pw] by blast
    then have "udp_round now (account_request LIN u pw) d = Inr (fst (account_spec LIN u pw (user_view d)), d')"
      using handler [of "''LIN ''" H_login] by (simp add: udp_command_table_def run_udp_handler_def account_request_def)
    with d' LIN show ?thesis by blast
  next
    case LOU
    obtain d' where "handle_logout (u @ '' '' @ pw @ [LF]) d = udp_reply (fst (account_spec LOU u pw (user_view d))) d'"
      and d': "users_inv d'" "user_view d' = snd (account_spec LOU u pw (user_view d))"
      using handle_logout_spec [OF inv u pw] by blast
    then have "udp_round now (account_request LOU u pw) d = Inr (fst (account_spec LOU u pw (user_view d)), d')"
      using handler [of "''LOU ''" H_logout] by (simp add: udp_command_table_def run_udp_handler_def account_request_def)
    with d' LOU show ?thesis by blast
  next
    case UNR
    obtain d' where "handle_unregister (u @ '' '' @ pw @ [LF]) d = udp_reply (fst (account_spec UNR u pw (user_view d))) d'"
      and d': "users_inv d'" "user_view d' = snd (account_spec UNR u pw (user_view d))"
      using handle_unregister_spec [OF inv u pw] by blast
    then have "udp_round now (account_request UNR u pw) d = Inr (fst (account_spec UNR u pw (user_view d)), d')"
      using handler [of "''UNR ''" H_unregister] by (simp add: udp_command_table_def run_udp_handler_def account_request_def)
    with d' UNR show ?thesis by blast
  qed
qed

text \<open>A session: datagrams with the times they arrive at, served one after the other.\<close>

fun udp_session :: "(int \<times> string) list \<Rightarrow> db \<Rightarrow> (string list \<times> db) outcome" where
  "udp_session [] d = Inr ([], d)"
| "udp_session ((now, dg) # dgs) d =
     bind_ok (udp_round now dg d) (\<lambda>(reply, d1).
       bind_ok (udp_session dgs d1) (\<lambda>(replies, d2). Inr (reply # replies, d2)))"

fun account_spec_session ::
    "(account_cmd \<times> string \<times> string) list \<Rightarrow> (string \<Rightarrow> (string \<times> bool) option)
       \<Rightarrow> string list \<times> (string \<Rightarrow> (string \<times> bool) option)" where
  "account_spec_session [] a = ([], a)"
| "account_spec_session ((k, u, pw) # cs) a =
     (let (reply, a1) = account_spec k u pw a; (replies, a2) = account_spec_session cs a1
      in (reply # replies, a2))"

section \<open>Properties\<close>

text \<open>
  C5. The account service refines its specification: for every sequence of well-formed \<open>LIN\<close>,
  \<open>LOU\<close> and \<open>UNR\<close> datagrams, from any well-formed database, the server's replies and final account
  table are those of the table-level specification; no request is lost to a fault.
\<close>

theorem account_session_refines:
  assumes "users_inv d" "\<forall>(k, u, pw) \<in> set cs. is_valid_uid u \<and> is_valid_passwd pw"
  shows "\<exists>d'. udp_session (map (\<lambda>(k, u, pw). (now, account_request k u pw)) cs) d
       = Inr (fst (account_spec_session cs (user_view d)), d')
     \<and> users_inv d' \<and> user_view d' = snd (account_spec_session cs (user_view d))"
  using assms
proof (induction cs arbitrary: d)
  case Nil
  then show ?case by simp
next
  case (Cons x cs)
  obtain k u pw where x: "x = (k, u, pw)" by (cases x) auto
  obtain d1 where r: "udp_round now (account_request k u pw) d = Inr (fst (account_spec k u pw (user_view d)), d1)"
    and d1: "users_inv d1" "user_view d1 = snd (account_spec k u pw (user_view d))"
    using udp_round_account [of d u pw now k] Cons.prems x by auto
  obtain d2 where "udp_session (map (\<lambda>(k, u, pw). (now, account_request k u pw)) cs) d1
       = Inr (fst (account_spec_session cs (user_view d1)), d2)"
    and "users_inv d2" "user_view d2 = snd (account_spec_session cs (user_view d1))"
    using Cons.IH [OF d1(1)] Cons.prems by auto
  then show ?case using r d1(2) x by (auto simp: Let_def split: prod.splits)
qed

lemma account_session_refines_witness:
  "\<exists>d'. udp_session [(0, ''LIN 123456 password'' @ [LF]), (0, ''UNR 123456 passw0rd'' @ [LF]),
        (0, ''LOU 123456 password'' @ [LF])] empty_db
     = Inr ([''RLI REG'' @ [LF], ''RUR NOK'' @ [LF], ''RLO OK'' @ [LF]], d')
     \<and> user_view d' ''123456'' = Some (''password'', False)"
proof -
  let ?cs = "[(LIN, ''123456'', ''password''), (UNR, ''123456'', ''passw0rd''), (LOU, ''123456'', ''password'')]"
  have v: "\<forall>(k, u, pw) \<in> set ?cs. is_valid_uid u \<and> is_valid_passwd pw"
    by (simp add: is_valid_uid_iff is_valid_passwd_iff isdigit_def isalnum_def isalpha_def)
  from account_session_refines [OF empty_db_inv(1) v, of 0] show ?thesis
    by (auto simp: account_request_def account_spec_def empty_db_inv(2) simp del: udp_session.simps)
qed

text \<open>
  A malformed \<open>SRC\<close> request kills the server: error code 6 has no entry that
  \<open>get_udp_error_msg\<close> would return, and its null pointer goes to \<open>sprintf\<close>. One datagram such as
  \<open>SRC 12\<close> is enough, whatever the database holds.
\<close>

theorem malformed_show_record_crashes:
  assumes "x \<noteq> []" "length x \<le> 15" "LF \<notin> set x" "NUL \<notin> set x" "\<not> is_valid_aid x"
  shows "udp_round now (''SRC '' @ x @ [LF]) d = Inl NullDeref"
proof -
  have "strtok [LF] (x @ [LF]) = (Some x, [])" using assms by (intro strtok_until) auto
  then have "run_udp_handler H_show_record now (x @ [LF]) d = udp_fail ERR_SRC d"
    using assms by (simp add: run_udp_handler_def handle_show_record_def)
  then show ?thesis
    using udp_round_error [of x "''SRC ''" H_show_record now d ERR_SRC d] assms
    by (simp add: udp_command_table_def ERR_SRC_def get_udp_error_msg_def udp_errors_table_def)
qed

lemma malformed_show_record_crashes_witness: "udp_round 0 (''SRC 12'' @ [LF]) empty_db = Inl NullDeref"
  using malformed_show_record_crashes [of "''12''" 0 empty_db] by (simp add: is_valid_aid_iff)

text \<open>
  A damaged account opens to everyone: when the password file of a user is empty, a \<open>LIN\<close> with
  any well-formed password is answered \<open>RLI OK\<close> and logs the user in, because the handler only
  compares the \<open>-1\<close> of \<open>is_authentic_user\<close> with 0.
\<close>

theorem empty_password_logs_in:
  assumes "is_valid_uid u" "is_valid_passwd pw" "healthy (fs d)" "fs_get (fs d) (pass_path u) = Some (File [])"
    "fs_get (fs d) [''USERS'', u] = Some Dir" "fs_get (fs d) (login_path u) \<noteq> Some Dir"
  shows "\<exists>d'. udp_round now (account_request LIN u pw) d = Inr (''RLI OK'' @ [LF], d') \<and> is_user_logged_in u d'"
proof -
  note p = valid_uid_paths [OF assms(1)]
  have ex: "exists_user u d" using assms by (simp add: exists_user_def sys_can_read_healthy)
  have au: "is_authentic_user u pw d = - 1"
    using assms by (intro empty_password_file) (simp_all add: healthy_def)
  obtain s where s: "sys_creat (login_path u) (fs d) = Inr s" "fs_get s (login_path u) \<noteq> None" "healthy s"
  proof (cases "fs_get (fs d) (login_path u)")
    case None
    then have "sys_creat (login_path u) (fs d) = Inr (fs_put (login_path u) (File []) (fs d))"
      using assms by (intro sys_creat_new) (simp_all add: p)
    then show ?thesis using assms(3) that [of "fs_put (login_path u) (File []) (fs d)"] by (simp add: p)
  next
    case (Some n)
    then obtain c where "n = File c" using assms(6) by (cases n) auto
    then show ?thesis using Some assms(3) sys_creat_old [of "fs d" "login_path u" c] that by simp
  qed
  have "handle_login (u @ '' '' @ pw @ [LF]) d = udp_reply (''RLI OK'' @ [LF]) (d\<lparr>fs := s\<rparr>)"
    using assms ex au s by (simp add: handle_login_def account_tokens log_in_user_def)
  moreover have "length (u @ '' '' @ pw) \<le> 15" "NUL \<notin> set (u @ '' '' @ pw)"
    using valid_uid_clean [OF assms(1)] valid_passwd_clean [OF assms(2)] assms(1,2)
    by (auto simp: is_valid_uid_iff is_valid_passwd_iff)
  ultimately have "udp_round now (account_request LIN u pw) d = Inr (''RLI OK'' @ [LF], d\<lparr>fs := s\<rparr>)"
    using udp_round_handler [of "u @ '' '' @ pw" "''LIN ''" H_login now d]
    by (simp add: udp_command_table_def run_udp_handler_def account_request_def)
  moreover have "is_user_logged_in u (d\<lparr>fs := s\<rparr>)" using s by (simp add: is_user_logged_in_def sys_can_read_healthy)
  ultimately show ?thesis by blast
qed

lemma empty_password_logs_in_witness:
  "\<exists>d d'. fs_get (fs d) (pass_path ''123456'') = Some (File [])
     \<and> udp_round 0 (''LIN 123456 anything'' @ [LF]) d = Inr (''RLI OK'' @ [LF], d')"
proof -
  let ?s = "fs_put (pass_path ''123456'') (File []) (fs_put [''USERS'', ''123456''] Dir (fs empty_db))"
  let ?d = "empty_db\<lparr>fs := ?s\<rparr>"
  have v: "is_valid_uid ''123456''" "is_valid_passwd ''anything''"
    by (simp_all add: is_valid_uid_iff is_valid_passwd_iff isdigit_def isalnum_def isalpha_def)
  have h: "healthy (fs ?d)" by (simp add: healthy_def) (simp add: empty_db_def)
  have f: "fs_get (fs ?d) (pass_path ''123456'') = Some (File [])" "fs_get (fs ?d) [''USERS'', ''123456''] = Some Dir"
    "fs_get (fs ?d) (login_path ''123456'') \<noteq> Some Dir"
    by (simp_all add: valid_uid_paths [OF v(1)])
  obtain d' where "udp_round 0 (account_request LIN ''123456'' ''anything'') ?d = Inr (''RLI OK'' @ [LF], d')"
    using empty_password_logs_in [OF v h f] by blast
  then show ?thesis using f(1) by (intro exI [of _ ?d] exI [of _ d']) (simp add: account_request_def)
qed

end
