(* ===== verification/AuctionRecords.thy ===== *)
theory AuctionRecords
  imports DbReports
begin

text \<open>
  The text records of the database read back: the words of a \<open>START\<close> line and of a bid line, the
  numbers in them, and the names of the bid files, whose byte order is the order of the values.
\<close>

section \<open>Words\<close>

definition clean_word :: "string \<Rightarrow> bool" where
  "clean_word w \<longleftrightarrow> w \<noteq> [] \<and> SP \<notin> set w \<and> LF \<notin> set w \<and> NUL \<notin> set w"

lemma strtok_word: "clean_word w \<Longrightarrow> strtok [SP] (w @ SP # r) = (Some w, r)"
  by (intro strtok_until) (auto simp: clean_word_def)

lemma strtok_line: "clean_word w \<Longrightarrow> strtok [LF] (w @ [LF]) = (Some w, [])"
  by (intro strtok_until) (auto simp: clean_word_def)

lemma strtok_line_end: "clean_word w \<Longrightarrow> strtok [LF] w = (Some w, [])"
  by (intro strtok_all) (auto simp: clean_word_def)

lemma strtok_last_word: "clean_word w \<Longrightarrow> strtok [SP] (w @ [LF]) = (Some (w @ [LF]), [])"
  by (intro strtok_all) (auto simp: clean_word_def)

lemma clean_valid:
  "is_valid_uid w \<Longrightarrow> clean_word w" "is_valid_aid w \<Longrightarrow> clean_word w"
  "is_valid_name w \<Longrightarrow> w \<noteq> [] \<Longrightarrow> clean_word w"
  using valid_uid_clean [of w] valid_aid_clean [of w]
  by (auto simp: clean_word_def is_valid_name_iff)

lemma clean_fmt_d: "0 \<le> i \<Longrightarrow> clean_word (fmt_d i)"
  using fmt_d_isdigit [of i SP] fmt_d_isdigit [of i LF] fmt_d_isdigit [of i NUL] by (auto simp: clean_word_def)

lemma clean_date: "tm_ok t \<Longrightarrow> clean_word (date_word t)"
  using date_word_clean [of t] by (simp add: clean_word_def)

lemma clean_time: "tm_ok t \<Longrightarrow> clean_word (time_word t)"
  using time_word_clean [of t] by (simp add: clean_word_def)

lemma datetime_words: "datetime_str t @ r = date_word (gmtime t) @ SP # time_word (gmtime t) @ r"
  by (simp add: datetime_str_def)

section \<open>Numbers read back\<close>

lemma read_digits_stop: "(\<And>c. c \<in> set s \<Longrightarrow> isdigit c) \<Longrightarrow> \<not> isdigit x \<Longrightarrow>
    read_digits 0 (s @ x # t) = read_digits 0 s"
  by (simp add: read_digits_append)

lemma strtol10_line:
  assumes d: "\<And>c. c \<in> set s \<Longrightarrow> isdigit c" and len: "length s \<le> 18" "s \<noteq> []"
  shows "strtol10 (s @ [LF]) = read_digits 0 s"
proof -
  obtain x xs where s: "s = x # xs" using len by (cases s) auto
  have sp: "dropWhile isspace (s @ [LF]) = s @ [LF]"
    using d s isdigit_not_isspace by (intro dropWhile_none) auto
  have "0 \<le> read_digits 0 s \<and> read_digits 0 s < 10 ^ length s" using d by (rule read_digits_bounds)
  moreover have "(10::int) ^ length s \<le> 10 ^ 18" using len by (intro power_increasing) auto
  ultimately have b: "read_digits 0 s < 10 ^ 18" "0 \<le> read_digits 0 s" by linarith+
  have "(case s @ [LF] of [] \<Rightarrow> 0 | c # cs \<Rightarrow> if c = CHR ''-'' then - read_digits 0 cs
       else if c = CHR ''+'' then read_digits 0 cs else read_digits 0 (s @ [LF])) = read_digits 0 (s @ [LF])"
    using d s isdigit_neqs by auto
  moreover have "read_digits 0 (s @ [LF]) = read_digits 0 s" using d by (intro read_digits_stop) auto
  ultimately show ?thesis using b by (simp add: strtol10_def sp Let_def)
qed

lemma atol_fmt_d:
  assumes "0 \<le> n" "n < 10 ^ 18"
  shows "atol (fmt_d n) = n" "atol (fmt_d n @ [LF]) = n"
proof -
  have d: "\<And>c. c \<in> set (fmt_d n) \<Longrightarrow> isdigit c" and l: "length (fmt_d n) \<le> 18"
    using assms fmt_d_isdigit [of n] fmt_d_length_le [of n 18] by auto
  show "atol (fmt_d n) = n" using d l assms(1) by (simp add: atol_def strtol10_digits read_digits_fmt_d)
  show "atol (fmt_d n @ [LF]) = n" using d l assms(1) by (simp add: atol_def strtol10_line read_digits_fmt_d)
qed

lemma scan_d_prefix:
  assumes "ds \<noteq> []" and d: "\<And>c. c \<in> set ds \<Longrightarrow> isdigit c" and len: "length ds \<le> w"
    and rest: "rest = [] \<or> \<not> isdigit (hd rest)"
  shows "scan_d w (ds @ rest) = Some (read_digits 0 ds, rest)"
proof -
  obtain x xs where ds: "ds = x # xs" using assms by (cases ds) auto
  with d have x: "isdigit x" by simp
  have sp: "dropWhile isspace (ds @ rest) = ds @ rest"
    using ds x isdigit_not_isspace by (intro dropWhile_none) auto
  have "takeWhile isdigit (take (w - length ds) rest) = []"
    using rest by (cases rest; cases "w - length ds") auto
  then have tk: "takeWhile isdigit (take w (ds @ rest)) = ds"
    using d len by (simp add: takeWhile_append2)
  have sign: "\<not> (ds @ rest \<noteq> [] \<and> (hd (ds @ rest) = CHR ''-'' \<or> hd (ds @ rest) = CHR ''+''))"
    using ds x isdigit_neqs by auto
  show ?thesis using assms(1)
    by (simp only: scan_d_def sp Let_def sign if_False tk simp_thms) simp
qed

section \<open>The START record\<close>

definition start_ok :: "string \<Rightarrow> string \<Rightarrow> string \<Rightarrow> int \<Rightarrow> int \<Rightarrow> int \<Rightarrow> bool" where
  "start_ok uid name fname sv ta now \<longleftrightarrow>
     is_valid_uid uid \<and> is_valid_name name \<and> name \<noteq> [] \<and> is_valid_fname fname \<and> clean_word fname
     \<and> 0 \<le> sv \<and> sv \<le> 999999 \<and> 0 \<le> ta \<and> ta \<le> 99999 \<and> 0 < now \<and> now < 2 ^ 36"

lemma start_okD:
  assumes "start_ok uid name fname sv ta now"
  shows "clean_word uid" "clean_word name" "clean_word fname" "clean_word (fmt_d sv)" "clean_word (fmt_d ta)"
    "clean_word (date_word (gmtime now))" "clean_word (time_word (gmtime now))" "clean_word (fmt_d now)"
    "tm_ok (gmtime now)"
  using assms gmtime_ok [of now] clean_valid clean_fmt_d clean_date clean_time
  by (auto simp: start_ok_def)

lemma start_info_words:
  "start_info uid name fname sv ta now =
     uid @ SP # name @ SP # fname @ SP # fmt_d sv @ SP # fmt_d ta @ SP # date_word (gmtime now) @ SP
       # time_word (gmtime now) @ SP # fmt_d now @ [LF]"
  by (simp add: start_info_def datetime_str_def)

lemma start_info_line:
  assumes ok: "start_ok uid name fname sv ta now"
  shows "start_info uid name fname sv ta now \<noteq> []" "length (start_info uid name fname sv ta now) \<le> 88"
    "LF \<notin> set (butlast (start_info uid name fname sv ta now))"
    "NUL \<notin> set (start_info uid name fname sv ta now)"
proof -
  note w = start_okD [OF ok]
  show "start_info uid name fname sv ta now \<noteq> []" by (simp add: start_info_def)
  have "length (fmt_d sv) \<le> 6" "length (fmt_d ta) \<le> 5" "length (fmt_d now) \<le> 11"
    using ok by (auto simp: start_ok_def intro!: fmt_d_length_le)
  moreover have "length uid = 6" "length name \<le> 10" "length fname \<le> 24"
    using ok by (auto simp: start_ok_def validator_iffs)
  ultimately show "length (start_info uid name fname sv ta now) \<le> 88"
    using date_word_clean [OF w(9)] time_word_clean [OF w(9)] by (simp add: start_info_words)
  show "LF \<notin> set (butlast (start_info uid name fname sv ta now))"
    using w by (simp add: start_info_words butlast_append clean_word_def)
  show "NUL \<notin> set (start_info uid name fname sv ta now)"
    using w by (simp add: start_info_words clean_word_def)
qed

lemma start_info_fgets:
  assumes ok: "start_ok uid name fname sv ta now" and n: "90 \<le> n"
    and f: "fs_get s p = Some (File (start_info uid name fname sv ta now))"
  shows "sys_fgets n p s = Some (start_info uid name fname sv ta now)"
proof -
  let ?l = "start_info uid name fname sv ta now"
  note l = start_info_line [OF ok]
  have e: "?l = butlast ?l @ [LF]" using l(1) by (simp add: start_info_words butlast_append)
  have "first_line n (butlast ?l @ [LF]) = butlast ?l @ [LF]"
    using l n by (intro first_line_lf) auto
  then have "first_line n ?l = ?l" using e by simp
  then show ?thesis using f l by (simp add: sys_fgets_def cstr_no_nul)
qed

text \<open>The eight words, as the successive calls of \<open>strtok\<close> deliver them.\<close>

lemma start_info_tokens:
  assumes ok: "start_ok uid name fname sv ta now"
  defines "l \<equiv> start_info uid name fname sv ta now"
  shows "strtok [SP] l = (Some uid, strtok_n 1 [SP] l)"
    and "strtok [SP] (strtok_n 1 [SP] l) = (Some name, strtok_n 2 [SP] l)"
    and "strtok [SP] (strtok_n 2 [SP] l) = (Some fname, strtok_n 3 [SP] l)"
    and "strtok [SP] (strtok_n 3 [SP] l) = (Some (fmt_d sv), strtok_n 4 [SP] l)"
    and "strtok [SP] (strtok_n 4 [SP] l) = (Some (fmt_d ta), strtok_n 5 [SP] l)"
    and "strtok [SP] (strtok_n 5 [SP] l) = (Some (date_word (gmtime now)), strtok_n 6 [SP] l)"
    and "strtok [SP] (strtok_n 6 [SP] l) = (Some (time_word (gmtime now)), strtok_n 7 [SP] l)"
    and "strtok_n 7 [SP] l = fmt_d now @ [LF]"
  using start_okD [OF ok] unfolding l_def start_info_words
  by (simp_all add: strtok_word numeral_eq_Suc)

lemma start_time_field_info:
  "start_ok uid name fname sv ta now \<Longrightarrow>
     start_time_field (start_info uid name fname sv ta now) = Some (fmt_d now)"
  by (simp add: start_time_field_def start_info_tokens(8) strtok_line start_okD)

section \<open>Bid files\<close>

lemma scan_bid_value_name: "0 \<le> v \<Longrightarrow> v \<le> 999999 \<Longrightarrow> scan_bid_value (fmt_0d 6 v @ ''.txt'') = Some v"
proof -
  assume v: "0 \<le> v" "v \<le> 999999"
  have len: "length (fmt_0d 6 v) = 6" using v by (simp add: fmt_0d_length)
  then have ne: "fmt_0d 6 v \<noteq> []" by auto
  have "scan_d (length (fmt_0d 6 v @ ''.txt'')) (fmt_0d 6 v @ ''.txt'') = Some (read_digits 0 (fmt_0d 6 v), ''.txt'')"
    using v len by (intro scan_d_prefix ne) (auto dest: fmt_0d_isdigit [rotated])
  then show ?thesis using v by (simp add: scan_bid_value_def read_digits_fmt_0d c_int_id)
qed

lemma scan_bid_value_dots: "scan_bid_value ''..'' = None"
  by (simp add: scan_bid_value_def scan_d_def isspace_def)

lemma digit_less: "isdigit a \<Longrightarrow> isdigit b \<Longrightarrow> a < b \<longleftrightarrow> digit_val a < digit_val b"
proof -
  have "(of_char c :: int) = int (of_char c)" for c by (rule of_nat_of_char [symmetric])
  then show ?thesis by (simp add: less_char_def digit_val_def)
qed

lemma read_digits_mono_acc:
  "length a = length b \<Longrightarrow> (\<And>c. c \<in> set a \<union> set b \<Longrightarrow> isdigit c) \<Longrightarrow> x < y \<Longrightarrow>
     read_digits x a < read_digits y b"
proof (induction a b arbitrary: x y rule: list_induct2)
  case Nil
  then show ?case by simp
next
  case (Cons c a d b)
  have "0 \<le> digit_val c \<and> digit_val c \<le> 9" "0 \<le> digit_val d \<and> digit_val d \<le> 9"
    using Cons.prems(1) [of c] Cons.prems(1) [of d] digit_val_bounds by auto
  then have "10 * x + digit_val c < 10 * y + digit_val d" using Cons.prems(2) by linarith
  then show ?case using Cons by simp
qed

lemma digits_less:
  "length a = length b \<Longrightarrow> (\<And>c. c \<in> set a \<union> set b \<Longrightarrow> isdigit c) \<Longrightarrow> a < b \<Longrightarrow>
     read_digits x a < read_digits x b"
proof (induction a b arbitrary: x rule: list_induct2)
  case Nil
  then show ?case by simp
next
  case (Cons c a d b)
  have cd: "isdigit c" "isdigit d" using Cons.prems(1) by auto
  show ?case
  proof (cases "c = d")
    case True
    then show ?thesis using Cons cd by simp
  next
    case False
    then have "digit_val c < digit_val d" using Cons.prems(2) cd digit_less by simp
    then show ?thesis
      using read_digits_mono_acc [OF Cons.hyps, of "10 * x + digit_val c" "10 * x + digit_val d"] Cons.prems(1) cd
      by simp
  qed
qed

lemma append_less_same: "length a = length b \<Longrightarrow> (a :: string) @ t < b @ t \<longleftrightarrow> a < b"
  by (induction a b rule: list_induct2) auto

text \<open>Numbers of a fixed width sort as their values do.\<close>

lemma fmt_0d_less:
  assumes "0 \<le> v" "v < 10 ^ k" "0 \<le> w" "w < 10 ^ k" "0 < k"
  shows "fmt_0d k v < fmt_0d k w \<longleftrightarrow> v < w"
proof -
  have len: "length (fmt_0d k v) = length (fmt_0d k w)" using assms by (simp add: fmt_0d_length)
  have d: "\<And>c. c \<in> set (fmt_0d k v) \<union> set (fmt_0d k w) \<Longrightarrow> isdigit c"
    using assms by (auto dest: fmt_0d_isdigit [rotated])
  have r: "read_digits 0 (fmt_0d k v) = v" "read_digits 0 (fmt_0d k w) = w"
    using assms by (simp_all add: read_digits_fmt_0d)
  show ?thesis
    using digits_less [OF len d, of 0] digits_less [OF len [symmetric], of 0] d r
    by (metis Un_commute less_asym linorder_less_linear order_less_irrefl)
qed

lemma bid_name_less:
  assumes "0 \<le> v" "v \<le> 999999" "0 \<le> w" "w \<le> 999999"
  shows "fmt_0d 6 v @ ''.txt'' < fmt_0d 6 w @ ''.txt'' \<longleftrightarrow> v < w"
proof -
  have "length (fmt_0d 6 v) = length (fmt_0d 6 w)" using assms by (simp add: fmt_0d_length)
  then show ?thesis using fmt_0d_less [of v 6 w] assms by (simp add: append_less_same)
qed

lemma bid_name_inj:
  assumes "0 \<le> v" "v \<le> 999999" "0 \<le> w" "w \<le> 999999" "fmt_0d 6 v @ ''.txt'' = fmt_0d 6 w @ ''.txt''"
  shows "v = w"
  using bid_name_less [OF assms(1-4)] bid_name_less [OF assms(3,4,1,2)] assms(5) by auto

end
