(* ===== verification/AuctionFacts.thy ===== *)
theory AuctionFacts
  imports AuctionRecords
begin

text \<open>
  The auctions as the operations of \<open>database.c\<close> see them: the invariant of the whole database
  (\<open>db_inv\<close>), the set of bid values of an auction with \<open>get_last_bid\<close> as its maximum, and for every
  operation what it does to the tree and that it keeps the invariant.
\<close>

section \<open>Steps of the file system that touch one path\<close>

lemma take_2_hd: "take 2 p = [x, y] \<Longrightarrow> take 1 p = [x]"
  by (cases p) auto

lemma sys_creat_frame: "sys_creat q s = Inr s' \<Longrightarrow> p \<noteq> q \<Longrightarrow> q \<noteq> [] \<Longrightarrow> fs_get s' p = fs_get s p"
  by (auto simp: sys_creat_def split: if_splits option.splits node.splits)

lemma sys_remove_frame: "sys_remove q s = Inr s' \<Longrightarrow> p \<noteq> q \<Longrightarrow> q \<noteq> [] \<Longrightarrow> fs_get s' p = fs_get s p"
  by (auto simp: sys_remove_def split: if_splits option.splits node.splits)

lemma sys_write0_frame: "sys_write0 q c s = Inr s' \<Longrightarrow> p \<noteq> q \<Longrightarrow> q \<noteq> [] \<Longrightarrow> fs_get s' p = fs_get s p"
  by (auto simp: sys_write0_def split: if_splits option.splits node.splits)

lemma mkdir_if_absent_frame: "mkdir_if_absent q s = Some s' \<Longrightarrow> p \<noteq> q \<Longrightarrow> q \<noteq> [] \<Longrightarrow> fs_get s' p = fs_get s p"
  by (auto simp: mkdir_if_absent_def sys_mkdir_def split: if_splits sum.splits errno.splits)

lemma try_remove_frame: "p \<noteq> q \<Longrightarrow> q \<noteq> [] \<Longrightarrow> fs_get (try_remove q s) p = fs_get s p"
  by (auto simp: try_remove_def dest: sys_remove_frame split: sum.splits)

lemmas one_path_frames = sys_creat_frame sys_remove_frame sys_write0_frame mkdir_if_absent_frame try_remove_frame

text \<open>\<open>open(O_CREAT)\<close> on a path whose directory exists: the file is there afterwards, nothing else changes.\<close>

lemma sys_creat_spec:
  assumes "healthy s" "fs_wf s" "p \<noteq> []" "fs_get s (butlast p) = Some Dir" "fs_get s p \<noteq> Some Dir"
  shows "\<exists>s'. sys_creat p s = Inr s' \<and> healthy s' \<and> fs_wf s'
     \<and> (\<forall>q. fs_get s' q = (if q = p \<and> fs_get s p = None then Some (File []) else fs_get s q))"
proof (cases "fs_get s p")
  case None
  have "sys_creat p s = Inr (fs_put p (File []) s)" using assms None by (simp add: sys_creat_new)
  moreover have "fs_wf (fs_put p (File []) s)" using assms None by (intro fs_wf_put) auto
  ultimately show ?thesis using assms None by auto
next
  case (Some n)
  then obtain c where "n = File c" using assms(5) by (cases n) auto
  then show ?thesis using assms Some by (auto simp: sys_creat_old)
qed

lemma sys_fputs_spec:
  assumes "healthy s" "fs_wf s" "p \<noteq> []" "fs_get s (butlast p) = Some Dir" "fs_get s p \<noteq> Some Dir"
  shows "\<exists>s'. sys_fputs p c s = Inr s' \<and> healthy s' \<and> fs_wf s'
     \<and> (\<forall>q. fs_get s' q = (if q = p then Some (File c) else fs_get s q))"
proof -
  have "sys_fputs p c s = Inr (fs_put p (File c) s)" using assms by (intro sys_fputs_eq)
  moreover have "fs_wf (fs_put p (File c) s)" using assms by (intro fs_wf_put) auto
  ultimately show ?thesis using assms by auto
qed

section \<open>Paths of an auction\<close>

lemma valid_aid_paths:
  assumes "is_valid_aid a"
  shows "fmt_ws 3 a = a" "take 3 a = a" "start_path a = [''AUCTIONS'', a, ''START_'' @ a @ ''.txt'']"
    "start_path_cut a = start_path a" "end_path a = [''AUCTIONS'', a, ''END_'' @ a @ ''.txt'']"
    "end_path_cut a = end_path a" "bids_dir a = [''AUCTIONS'', a, ''BIDS'']"
    "bid_path a v = [''AUCTIONS'', a, ''BIDS'', fmt_0d 6 v @ ''.txt'']"
  using assms by (auto simp: is_valid_aid_iff auc_paths)

definition asset_path :: "string \<Rightarrow> string \<Rightarrow> path" where
  "asset_path a fname = [''AUCTIONS'', a, ''ASSET'', fname]"

definition bidded_path :: "string \<Rightarrow> string \<Rightarrow> path" where
  "bidded_path u a = [''USERS'', u, ''BIDDED'', a @ ''.txt'']"

definition hosted_path :: "string \<Rightarrow> string \<Rightarrow> path" where
  "hosted_path u a = [''USERS'', u, ''HOSTED'', a @ ''.txt'']"

section \<open>Bids\<close>

definition bid_set :: "fsys \<Rightarrow> string \<Rightarrow> int set" where
  "bid_set s a = {v. 1 \<le> v \<and> v \<le> 999999 \<and> fs_get s (bid_path a v) \<noteq> None}"

text \<open>What a bid file and an \<open>END\<close> file hold; the seconds are negative when the clock was set back.\<close>

definition time_ok :: "int \<Rightarrow> bool" where
  "time_ok t \<longleftrightarrow> 0 \<le> t \<and> t < 2 ^ 36"

definition secs_ok :: "int \<Rightarrow> bool" where
  "secs_ok x \<longleftrightarrow> - (2 ^ 37) < x \<and> x < 2 ^ 37"

definition bid_record_ok :: "string \<Rightarrow> bool" where
  "bid_record_ok c \<longleftrightarrow> (\<exists>u t x. is_valid_uid u \<and> time_ok t \<and> secs_ok x \<and> c = bid_info u t x)"

definition end_record_ok :: "string \<Rightarrow> bool" where
  "end_record_ok c \<longleftrightarrow> (\<exists>t x. time_ok t \<and> secs_ok x \<and> (c = end_info t x \<or> c = end_info t x @ [LF]))"

definition bids_ok :: "fsys \<Rightarrow> string \<Rightarrow> bool" where
  "bids_ok s a \<longleftrightarrow> fs_get s (bids_dir a) = Some Dir
     \<and> (\<forall>x. fs_get s (bids_dir a @ [x]) \<noteq> None \<longrightarrow>
           (\<exists>v c. 1 \<le> v \<and> v \<le> 999999 \<and> x = fmt_0d 6 v @ ''.txt'' \<and> fs_get s (bids_dir a @ [x]) = Some (File c)
                \<and> bid_record_ok c))"

definition end_ok :: "fsys \<Rightarrow> string \<Rightarrow> bool" where
  "end_ok s a \<longleftrightarrow> (case fs_get s (end_path a) of None \<Rightarrow> True | Some Dir \<Rightarrow> False | Some (File c) \<Rightarrow> end_record_ok c)"

lemma end_ok_not_Dir: "end_ok s a \<Longrightarrow> fs_get s (end_path a) \<noteq> Some Dir"
  by (auto simp: end_ok_def)

lemma finite_bid_set: "finite (bid_set s a)"
  by (rule finite_subset [of _ "{1..999999}"]) (auto simp: bid_set_def)

lemma bid_names:
  assumes "bids_ok s a"
  shows "set (fs_names (bids_dir a) s) = (\<lambda>v. fmt_0d 6 v @ ''.txt'') ` bid_set s a"
proof
  show "set (fs_names (bids_dir a) s) \<subseteq> (\<lambda>v. fmt_0d 6 v @ ''.txt'') ` bid_set s a"
    using assms by (fastforce simp: set_fs_names bids_ok_def bid_set_def bid_path_def)
  show "(\<lambda>v. fmt_0d 6 v @ ''.txt'') ` bid_set s a \<subseteq> set (fs_names (bids_dir a) s)"
    by (auto simp: set_fs_names bid_set_def bid_path_def)
qed

lemma dots_first: "0 \<le> v \<Longrightarrow> v \<le> 999999 \<Longrightarrow> ''..'' < fmt_0d 6 v @ ''.txt''"
proof -
  assume v: "0 \<le> v" "v \<le> 999999"
  have "length (fmt_0d 6 v) = 6" using v by (simp add: fmt_0d_length)
  then obtain c cs where c: "fmt_0d 6 v = c # cs" by (cases "fmt_0d 6 v") auto
  then have "isdigit c" using fmt_0d_isdigit [of v c 6] v by simp
  then have "CHR ''.'' < c" by (simp add: isdigit_def less_char_def del: less_char_simp)
  then show ?thesis using c by simp
qed

lemma sort_eq_Nil: "sort xs = [] \<longleftrightarrow> xs = []"
  by (metis length_0_conv length_sort)

lemma last_sort_Max:
  fixes xs :: "'a::linorder list"
  assumes "xs \<noteq> []"
  shows "last (sort xs) = Max (set xs)"
proof -
  have "sort xs \<noteq> []" using assms by (simp add: sort_eq_Nil)
  then obtain ys y where ys: "sort xs = ys @ [y]" by (metis rev_exhaust)
  have "sorted (ys @ [y])" unfolding ys [symmetric] by simp
  then have le: "\<forall>x \<in> set ys. x \<le> y" by (simp add: sorted_append)
  have set: "set xs = insert y (set ys)" by (metis Un_insert_right append_Nil2 list.simps(15) set_append set_sort ys sup_bot_right)
  have "Max (set xs) = y" unfolding set using le by (intro Max_eqI) auto
  then show ?thesis by (simp add: ys)
qed

text \<open>\<open>get_last_bid\<close> is the greatest bid: the byte order of the names is the order of the values.\<close>

lemma get_last_bid_Max:
  assumes h: "healthy (fs d)" and ok: "bids_ok (fs d) a"
  shows "get_last_bid a d = (if bid_set (fs d) a = {} then 0 else Max (bid_set (fs d) a))"
proof -
  let ?names = "fs_names (bids_dir a) (fs d)"
  have set: "set ?names = (\<lambda>v. fmt_0d 6 v @ ''.txt'') ` bid_set (fs d) a" using bid_names [OF ok] .
  have gt: "\<forall>x \<in> set ?names. ''..'' < x" unfolding set by (auto simp: bid_set_def intro: dots_first)
  have scan: "sys_scandir (bids_dir a) (fs d) = Some (''.'' # ''..'' # sort ?names)"
    using ok by (simp only: sys_scandir_def sys_readdir_healthy [OF h] bids_ok_def option.map sort_dots [OF gt])
  show ?thesis
  proof (cases "bid_set (fs d) a = {}")
    case True
    then have "?names = []" using set by (simp only: image_empty set_empty)
    then show ?thesis using scan True by (simp add: get_last_bid_def scan_bid_value_dots)
  next
    case False
    let ?M = "Max (bid_set (fs d) a)"
    have M: "?M \<in> bid_set (fs d) a" using Max_in [OF finite_bid_set False] .
    have ne: "?names \<noteq> []" using set False by auto
    have "Max (set ?names) = fmt_0d 6 ?M @ ''.txt''"
    proof (rule Max_eqI)
      show "fmt_0d 6 ?M @ ''.txt'' \<in> set ?names" unfolding set using M by blast
      fix y
      assume "y \<in> set ?names"
      then obtain v where v: "y = fmt_0d 6 v @ ''.txt''" "v \<in> bid_set (fs d) a" unfolding set by blast
      have "v \<le> ?M" using v(2) finite_bid_set by simp
      then show "y \<le> fmt_0d 6 ?M @ ''.txt''"
        using v M bid_name_less [of ?M v] by (auto simp: bid_set_def not_less [symmetric])
    qed simp
    then have "last (''.'' # ''..'' # sort ?names) = fmt_0d 6 ?M @ ''.txt''"
      using last_sort_Max [OF ne] ne by (simp add: sort_eq_Nil)
    moreover have "0 \<le> ?M" "?M \<le> 999999" using M by (simp_all add: bid_set_def)
    ultimately show ?thesis
      using scan False scan_bid_value_name [of ?M] by (simp add: get_last_bid_def)
  qed
qed

section \<open>The invariant of the database\<close>

definition start_of :: "fsys \<Rightarrow> string \<Rightarrow> string \<Rightarrow> string \<Rightarrow> string \<Rightarrow> int \<Rightarrow> int \<Rightarrow> int \<Rightarrow> bool" where
  "start_of s a uid name fname sv ta t \<longleftrightarrow>
     start_ok uid name fname sv ta t \<and> fs_get s (start_path a) = Some (File (start_info uid name fname sv ta t))"

definition auction_ok :: "fsys \<Rightarrow> string \<Rightarrow> bool" where
  "auction_ok s a \<longleftrightarrow> bids_ok s a \<and> end_ok s a
     \<and> (\<exists>uid name fname sv ta t c. start_of s a uid name fname sv ta t
          \<and> fs_get s (asset_path a fname) = Some (File c))"

definition auction_dir_ok :: "db \<Rightarrow> string \<Rightarrow> bool" where
  "auction_dir_ok d a \<longleftrightarrow>
     (if exists_auction a d then fs_get (fs d) [''AUCTIONS'', a] = Some Dir \<and> auction_ok (fs d) a
      else fs_get (fs d) [''AUCTIONS'', a] = None)"

definition db_inv :: "db \<Rightarrow> bool" where
  "db_inv d \<longleftrightarrow> users_inv d \<and> (\<forall>u x y. fs_get (fs d) [''USERS'', u, x, y] \<noteq> Some Dir)
     \<and> fs_get (fs d) [''AUCTIONS''] = Some Dir \<and> 0 \<le> auc_count d \<and> auc_count d \<le> 999
     \<and> (\<forall>a. is_valid_aid a \<longrightarrow> auction_dir_ok d a)
     \<and> (\<forall>x. fs_get (fs d) [''AUCTIONS'', x] \<noteq> None \<longrightarrow> is_valid_aid x)"

lemma db_invD:
  assumes "db_inv d"
  shows "users_inv d" "healthy (fs d)" "fs_wf (fs d)" "fs_get (fs d) [''AUCTIONS''] = Some Dir"
    "fs_get (fs d) [''USERS'', u, x, y] \<noteq> Some Dir"
    "is_valid_aid a \<Longrightarrow> exists_auction a d \<Longrightarrow> fs_get (fs d) [''AUCTIONS'', a] = Some Dir"
    "is_valid_aid a \<Longrightarrow> exists_auction a d \<Longrightarrow> auction_ok (fs d) a"
    "is_valid_aid a \<Longrightarrow> \<not> exists_auction a d \<Longrightarrow> fs_get (fs d) [''AUCTIONS'', a] = None"
    "fs_get (fs d) [''AUCTIONS'', z] \<noteq> None \<Longrightarrow> is_valid_aid z"
    "0 \<le> auc_count d" "auc_count d \<le> 999"
proof -
  show "users_inv d" using assms by (simp add: db_inv_def)
  then show "healthy (fs d)" "fs_wf (fs d)" by (simp_all add: users_inv_def)
  have a: "auction_dir_ok d a" if "is_valid_aid a" using assms that by (simp add: db_inv_def)
  then show "is_valid_aid a \<Longrightarrow> exists_auction a d \<Longrightarrow> fs_get (fs d) [''AUCTIONS'', a] = Some Dir"
    "is_valid_aid a \<Longrightarrow> exists_auction a d \<Longrightarrow> auction_ok (fs d) a"
    "is_valid_aid a \<Longrightarrow> \<not> exists_auction a d \<Longrightarrow> fs_get (fs d) [''AUCTIONS'', a] = None"
    by (simp_all add: auction_dir_ok_def)
qed (use assms in \<open>simp_all add: db_inv_def\<close>)

lemma db_invI:
  assumes "users_inv d" "\<And>u x y. fs_get (fs d) [''USERS'', u, x, y] \<noteq> Some Dir"
    "fs_get (fs d) [''AUCTIONS''] = Some Dir" "0 \<le> auc_count d" "auc_count d \<le> 999"
    "\<And>a. is_valid_aid a \<Longrightarrow> exists_auction a d \<Longrightarrow> fs_get (fs d) [''AUCTIONS'', a] = Some Dir \<and> auction_ok (fs d) a"
    "\<And>a. is_valid_aid a \<Longrightarrow> \<not> exists_auction a d \<Longrightarrow> fs_get (fs d) [''AUCTIONS'', a] = None"
    "\<And>x. fs_get (fs d) [''AUCTIONS'', x] \<noteq> None \<Longrightarrow> is_valid_aid x"
  shows "db_inv d"
proof -
  have "auction_dir_ok d a" if "is_valid_aid a" for a
    using assms(6,7) [OF that] by (simp add: auction_dir_ok_def)
  then show ?thesis unfolding db_inv_def using assms(1-5,8) by blast
qed

lemma auction_okE:
  assumes "auction_ok s a"
  obtains uid name fname sv ta t c where "start_of s a uid name fname sv ta t"
    "fs_get s (asset_path a fname) = Some (File c)"
  using assms by (auto simp: auction_ok_def)

lemma auction_ok_cong:
  assumes a: "is_valid_aid a" and same: "\<And>p. take 2 p = [''AUCTIONS'', a] \<Longrightarrow> fs_get s' p = fs_get s p"
  shows "auction_ok s' a = auction_ok s a"
proof -
  have "fs_get s' (bids_dir a @ q) = fs_get s (bids_dir a @ q)" for q
    using valid_aid_paths [OF a] by (intro same) simp
  from this [of "[]"] this have "bids_ok s' a = bids_ok s a" by (simp add: bids_ok_def)
  moreover have "fs_get s' (end_path a) = fs_get s (end_path a)" "fs_get s' (start_path a) = fs_get s (start_path a)"
    "fs_get s' (asset_path a f) = fs_get s (asset_path a f)" for f
    using valid_aid_paths [OF a] by (auto intro!: same simp: asset_path_def)
  ultimately show ?thesis by (simp add: auction_ok_def start_of_def end_ok_def)
qed

lemma exists_auction_fs [simp]: "exists_auction a (d\<lparr>fs := s\<rparr>) = exists_auction a d"
  by (simp add: exists_auction_def)

text \<open>A step inside one existing auction, and on the \<open>HOSTED\<close> and \<open>BIDDED\<close> files of users.\<close>

lemma users_inv_short:
  assumes "users_inv d" "healthy s" "fs_wf s"
    and same: "\<And>p. length p \<le> 3 \<Longrightarrow> take 1 p = [''USERS''] \<Longrightarrow> fs_get s p = fs_get (fs d) p"
  shows "users_inv (d\<lparr>fs := s\<rparr>) \<and> user_view (d\<lparr>fs := s\<rparr>) = user_view d"
proof
  have "user_ok s v = user_ok (fs d) v" if "is_valid_uid v" for v
    using valid_uid_paths [OF that] by (intro user_ok_cong same) auto
  then show "users_inv (d\<lparr>fs := s\<rparr>)" using assms by (simp add: users_inv_def)
  show "user_view (d\<lparr>fs := s\<rparr>) = user_view d"
  proof
    fix v
    show "user_view (d\<lparr>fs := s\<rparr>) v = user_view d v"
      using valid_uid_paths [of v] by (intro user_view_cong) (simp_all add: same)
  qed
qed

lemma db_inv_step:
  assumes inv: "db_inv d" and a: "is_valid_aid a" "exists_auction a d" and s: "healthy s" "fs_wf s" "auction_ok s a"
    and top: "fs_get s [''AUCTIONS'', a] = Some Dir" and files: "\<And>u x y. fs_get s [''USERS'', u, x, y] \<noteq> Some Dir"
    and same: "\<And>p. take 2 p \<noteq> [''AUCTIONS'', a] \<Longrightarrow> (\<And>u x y. p \<noteq> [''USERS'', u, x, y]) \<Longrightarrow>
                 fs_get s p = fs_get (fs d) p"
  shows "db_inv (d\<lparr>fs := s\<rparr>) \<and> user_view (d\<lparr>fs := s\<rparr>) = user_view d"
proof -
  have "users_inv (d\<lparr>fs := s\<rparr>) \<and> user_view (d\<lparr>fs := s\<rparr>) = user_view d"
    using db_invD(1) [OF inv] s by (intro users_inv_short) (auto intro!: same dest: take_2_hd)
  moreover have "db_inv (d\<lparr>fs := s\<rparr>)"
  proof (rule db_invI)
    show "fs_get (fs (d\<lparr>fs := s\<rparr>)) [''AUCTIONS''] = Some Dir"
      using same [of "[''AUCTIONS'']"] db_invD(4) [OF inv] by simp
    fix b
    assume b: "is_valid_aid b"
    have other: "fs_get s [''AUCTIONS'', b] = fs_get (fs d) [''AUCTIONS'', b]" "auction_ok s b = auction_ok (fs d) b"
      if "b \<noteq> a" using that by (auto intro!: auction_ok_cong b same)
    show "fs_get (fs (d\<lparr>fs := s\<rparr>)) [''AUCTIONS'', b] = Some Dir \<and> auction_ok (fs (d\<lparr>fs := s\<rparr>)) b"
      if "exists_auction b (d\<lparr>fs := s\<rparr>)"
      using that other top s(3) db_invD(6,7) [OF inv b] by (cases "b = a") auto
    show "fs_get (fs (d\<lparr>fs := s\<rparr>)) [''AUCTIONS'', b] = None" if "\<not> exists_auction b (d\<lparr>fs := s\<rparr>)"
      using that other a db_invD(8) [OF inv b] by (cases "b = a") auto
  next
    show "is_valid_aid x" if "fs_get (fs (d\<lparr>fs := s\<rparr>)) [''AUCTIONS'', x] \<noteq> None" for x
      using that same [of "[''AUCTIONS'', x]"] db_invD(9) [OF inv, of x] a by (cases "x = a") auto
  qed (use calculation files db_invD(10,11) [OF inv] in simp_all)
  ultimately show ?thesis by simp
qed

text \<open>The account operations do not touch the auctions.\<close>

lemma db_inv_user_step:
  assumes inv: "db_inv d" and d': "users_inv d'" "auc_count d' = auc_count d" and u: "is_valid_uid u"
    and same: "\<And>p. take 2 p \<noteq> [''USERS'', u] \<or> length p = 4 \<Longrightarrow> fs_get (fs d') p = fs_get (fs d) p"
  shows "db_inv d'"
proof -
  have ex: "exists_auction a d' = exists_auction a d" for a using d' by (simp add: exists_auction_def)
  have auc: "fs_get (fs d') p = fs_get (fs d) p" if "take 1 p = [''AUCTIONS'']" for p
    using that by (intro same) (cases p; auto)
  have "auction_ok (fs d') a = auction_ok (fs d) a" if "is_valid_aid a" for a
    using that by (intro auction_ok_cong auc) (auto dest: take_2_hd)
  note ok = this
  show ?thesis
  proof (rule db_invI)
    show "fs_get (fs d') [''USERS'', v, x, y] \<noteq> Some Dir" for v x y
      using same [of "[''USERS'', v, x, y]"] db_invD(5) [OF inv] by simp
    show "fs_get (fs d') [''AUCTIONS''] = Some Dir" using auc [of "[''AUCTIONS'']"] db_invD(4) [OF inv] by simp
    fix a
    assume a: "is_valid_aid a"
    note dir = auc [of "[''AUCTIONS'', a]", simplified] ok [OF a]
    show "fs_get (fs d') [''AUCTIONS'', a] = Some Dir \<and> auction_ok (fs d') a" if "exists_auction a d'"
      using that db_invD(6,7) [OF inv a] dir ex by simp
    show "fs_get (fs d') [''AUCTIONS'', a] = None" if "\<not> exists_auction a d'"
      using that db_invD(8) [OF inv a] dir ex by simp
  next
    show "is_valid_aid x" if "fs_get (fs d') [''AUCTIONS'', x] \<noteq> None" for x
      using that auc [of "[''AUCTIONS'', x]"] db_invD(9) [OF inv, of x] by simp
  qed (use d' db_invD(10,11) [OF inv] in simp_all)
qed

lemma account_op_frame:
  assumes "is_valid_uid u" "take 2 p \<noteq> [''USERS'', u] \<or> length p = 4"
  shows "fs_get (fs (snd (log_in_user u d))) p = fs_get (fs d) p"
    "fs_get (fs (snd (log_out_user u d))) p = fs_get (fs d) p"
    "fs_get (fs (snd (register_user u pw d))) p = fs_get (fs d) p"
    "fs_get (fs (snd (unregister_user u d))) p = fs_get (fs d) p"
proof -
  note paths = valid_uid_paths [OF assms(1)]
  have ne: "p \<noteq> [''USERS'', u]" "p \<noteq> [''USERS'', u, x]" for x using assms(2) by auto
  have fr: "sys_creat [''USERS'', u, x] s = Inr s' \<Longrightarrow> fs_get s' p = fs_get s p"
    "sys_remove [''USERS'', u, x] s = Inr s' \<Longrightarrow> fs_get s' p = fs_get s p"
    "sys_write0 [''USERS'', u, x] c s = Inr s' \<Longrightarrow> fs_get s' p = fs_get s p"
    "mkdir_if_absent [''USERS'', u, x] s = Some s' \<Longrightarrow> fs_get s' p = fs_get s p"
    "mkdir_if_absent [''USERS'', u] s = Some s' \<Longrightarrow> fs_get s' p = fs_get s p"
    "fs_get (try_remove [''USERS'', u, x] s) p = fs_get s p" for x s s' c
    using ne by (auto intro: sys_creat_frame sys_remove_frame sys_write0_frame mkdir_if_absent_frame try_remove_frame)
  show "fs_get (fs (snd (log_in_user u d))) p = fs_get (fs d) p"
    by (auto simp: log_in_user_def paths dest!: fr(1-5) split: sum.splits)
  show "fs_get (fs (snd (log_out_user u d))) p = fs_get (fs d) p"
    by (auto simp: log_out_user_def paths dest!: fr(1-5) split: sum.splits)
  show "fs_get (fs (snd (register_user u pw d))) p = fs_get (fs d) p"
    by (auto simp: register_user_def paths fr(6) dest!: fr(1-5) split: sum.splits option.splits)
  show "fs_get (fs (snd (unregister_user u d))) p = fs_get (fs d) p"
    by (auto simp: unregister_user_def paths dest!: fr(1-5) split: sum.splits)
qed

lemma account_op_count:
  "auc_count (snd (log_in_user u d)) = auc_count d" "auc_count (snd (log_out_user u d)) = auc_count d"
  "auc_count (snd (register_user u pw d)) = auc_count d" "auc_count (snd (unregister_user u d)) = auc_count d"
  by (simp_all add: log_in_user_def log_out_user_def register_user_def unregister_user_def
    split: sum.splits option.splits)

section \<open>Bidding\<close>

lemma start_time_l:
  assumes "start_of s a uid name fname sv ta t"
  shows "start_time_field (start_info uid name fname sv ta t) = Some (fmt_d t)" "atol (fmt_d t) = t" "t \<noteq> 0"
  using assms start_time_field_info [of uid name fname sv ta t] atol_fmt_d [of t]
  by (auto simp: start_of_def start_ok_def)

lemma start_line:
  assumes "start_of s a uid name fname sv ta t" "healthy s" "90 \<le> n"
  shows "sys_can_read (start_path a) s" "sys_fgets n (start_path a) s = Some (start_info uid name fname sv ta t)"
  using assms start_info_fgets [of uid name fname sv ta t n s "start_path a"]
  by (auto simp: start_of_def sys_can_read_healthy)

lemma bid_spec:
  assumes h: "healthy (fs d)" "fs_wf (fs d)" and a: "is_valid_aid a" and u: "is_valid_uid u"
    and st: "start_of (fs d) a uid name fname sv ta t" and ok: "bids_ok (fs d) a"
    and v: "1 \<le> v" "v \<le> 999999"
    and ud: "fs_get (fs d) [''USERS'', u, ''BIDDED''] = Some Dir" "fs_get (fs d) (bidded_path u a) \<noteq> Some Dir"
  shows "\<exists>s. bid now a u v d = (0, d\<lparr>fs := s\<rparr>) \<and> healthy s \<and> fs_wf s
     \<and> (\<forall>q. fs_get s q = (if q = bid_path a v then Some (File (bid_info u now (now - t)))
              else if q = bidded_path u a \<and> fs_get (fs d) q = None then Some (File []) else fs_get (fs d) q))"
proof -
  note p = valid_aid_paths [OF a] and tl = start_time_l [OF st] and sl = start_line [OF st h(1), of 128]
  have uid: "take 6 u = u" using valid_uid_paths [OF u] by simp
  have bd: "fs_get (fs d) (bids_dir a) = Some Dir" using ok by (simp add: bids_ok_def)
  have bp: "bid_path a v \<noteq> []" "butlast (bid_path a v) = bids_dir a" "bids_dir a \<noteq> bid_path a v"
    by (simp_all add: bid_path_def)
  have nd: "fs_get (fs d) (bid_path a v) \<noteq> Some Dir"
    using ok unfolding bids_ok_def bid_path_def by fastforce
  obtain s1 where s1: "sys_creat (bid_path a v) (fs d) = Inr s1" "healthy s1" "fs_wf s1"
    "\<And>q. fs_get s1 q = (if q = bid_path a v \<and> fs_get (fs d) (bid_path a v) = None then Some (File []) else fs_get (fs d) q)"
    using sys_creat_spec [OF h bp(1)] nd bd bp by auto
  have "fs_get s1 (bid_path a v) \<noteq> Some Dir" "fs_get s1 (bids_dir a) = Some Dir" using nd bd bp s1(4) by auto
  then obtain s2 where s2: "sys_fputs (bid_path a v) (bid_info u now (now - t)) s1 = Inr s2" "healthy s2" "fs_wf s2"
    "\<And>q. fs_get s2 q = (if q = bid_path a v then Some (File (bid_info u now (now - t))) else fs_get s1 q)"
    using sys_fputs_spec [OF s1(2,3) bp(1), of "bid_info u now (now - t)"] bp(2) by auto
  have b: "bidded_path u a = [''USERS'', u, ''BIDDED'', a @ ''.txt'']" by (simp add: bidded_path_def)
  obtain s3 where s3: "sys_creat (bidded_path u a) s2 = Inr s3" "healthy s3" "fs_wf s3"
    "\<And>q. fs_get s3 q = (if q = bidded_path u a \<and> fs_get s2 (bidded_path u a) = None then Some (File []) else fs_get s2 q)"
    using sys_creat_spec [OF s2(2,3), of "bidded_path u a"] ud p by (auto simp: b s1(4) s2(4))
  have "bid now a u v d = (0, d\<lparr>fs := s3\<rparr>)"
    using sl tl s1(1) s2(1) s3(1) by (simp add: bid_def uid p(2) b Let_def)
  moreover have "fs_get s3 q = (if q = bid_path a v then Some (File (bid_info u now (now - t)))
              else if q = bidded_path u a \<and> fs_get (fs d) q = None then Some (File []) else fs_get (fs d) q)" for q
    by (auto simp: s3(4) s2(4) s1(4) p b)
  ultimately show ?thesis using s3(2,3) by blast
qed

text \<open>The bid joins the set of bids, the rest of the auction is as it was.\<close>

lemma bid_path_inj:
  "1 \<le> v \<Longrightarrow> v \<le> 999999 \<Longrightarrow> 1 \<le> w \<Longrightarrow> w \<le> 999999 \<Longrightarrow> bid_path a v = bid_path a w \<longleftrightarrow> v = w"
  using bid_name_inj [of v w] by (auto simp: bid_path_def)

lemma bid_effect:
  assumes inv: "db_inv d" and a: "is_valid_aid a" "exists_auction a d" and u: "is_valid_uid u"
    and reg: "user_view d u = Some r" and st: "start_of (fs d) a uid name fname sv ta t"
    and v: "1 \<le> v" "v \<le> 999999" and now: "time_ok now"
  shows "\<exists>d'. bid now a u v d = (0, d') \<and> db_inv d' \<and> user_view d' = user_view d \<and> auc_count d' = auc_count d
     \<and> bid_set (fs d') a = insert v (bid_set (fs d) a)
     \<and> fs_get (fs d') (bid_path a v) = Some (File (bid_info u now (now - t)))
     \<and> fs_get (fs d') (bidded_path u a) \<noteq> None
     \<and> (\<forall>q. q \<noteq> bid_path a v \<longrightarrow> q \<noteq> bidded_path u a \<longrightarrow> fs_get (fs d') q = fs_get (fs d) q)"
proof -
  note I = db_invD [OF inv] and p = valid_aid_paths [OF a(1)]
  obtain pw l where r: "user_view d u = Some (pw, l)" using reg by (cases r) auto
  have ok: "auction_ok (fs d) a" using I(7) a by simp
  then have bok: "bids_ok (fs d) a" by (simp add: auction_ok_def)
  have ud: "fs_get (fs d) [''USERS'', u, ''BIDDED''] = Some Dir" "fs_get (fs d) (bidded_path u a) \<noteq> Some Dir"
    using user_view_SomeD(7) [OF I(1) u r] I(5) by (simp_all add: bidded_path_def)
  obtain s where s: "bid now a u v d = (0, d\<lparr>fs := s\<rparr>)" "healthy s" "fs_wf s"
    "\<And>q. fs_get s q = (if q = bid_path a v then Some (File (bid_info u now (now - t)))
              else if q = bidded_path u a \<and> fs_get (fs d) q = None then Some (File []) else fs_get (fs d) q)"
    using bid_spec [OF I(2,3) a(1) u st bok v ud] by blast
  have path: "bid_path a v = bids_dir a @ [fmt_0d 6 v @ ''.txt'']" "bidded_path u a \<noteq> bids_dir a @ q" for q
    by (simp_all add: bid_path_def bidded_path_def p)
  have "secs_ok (now - t)" using now st by (auto simp: secs_ok_def time_ok_def start_of_def start_ok_def)
  then have rec: "bid_record_ok (bid_info u now (now - t))" using u now unfolding bid_record_ok_def by blast
  have bok': "bids_ok s a" unfolding bids_ok_def
  proof (intro conjI allI impI)
    show "fs_get s (bids_dir a) = Some Dir" using bok path(2) [of "[]"] by (simp add: s(4) bids_ok_def path(1))
    fix x
    assume x: "fs_get s (bids_dir a @ [x]) \<noteq> None"
    show "\<exists>w c. 1 \<le> w \<and> w \<le> 999999 \<and> x = fmt_0d 6 w @ ''.txt'' \<and> fs_get s (bids_dir a @ [x]) = Some (File c)
        \<and> bid_record_ok c"
    proof (cases "x = fmt_0d 6 v @ ''.txt''")
      case True
      then show ?thesis using v rec by (intro exI [of _ v]) (simp add: s(4) path(1))
    next
      case False
      then have "fs_get s (bids_dir a @ [x]) = fs_get (fs d) (bids_dir a @ [x])"
        using path(2) [of "[x]"] by (simp add: s(4) path(1))
      then show ?thesis using bok x by (simp add: bids_ok_def)
    qed
  qed
  have nb: "bid_path a w \<noteq> bidded_path u a" for w by (simp add: bidded_path_def p)
  have set: "bid_set s a = insert v (bid_set (fs d) a)"
  proof (rule set_eqI)
    fix w
    show "w \<in> bid_set s a \<longleftrightarrow> w \<in> insert v (bid_set (fs d) a)"
      using v bid_path_inj [of w v a] nb [of w] by (cases "w = v") (auto simp: bid_set_def s(4))
  qed
  have same: "fs_get s (end_path a) = fs_get (fs d) (end_path a)" "fs_get s (start_path a) = fs_get (fs d) (start_path a)"
    "fs_get s (asset_path a f) = fs_get (fs d) (asset_path a f)" for f
    by (simp_all add: s(4) p bidded_path_def asset_path_def)
  have ok': "auction_ok s a" using ok bok' same by (simp add: auction_ok_def start_of_def end_ok_def)
  have top: "fs_get s [''AUCTIONS'', a] = Some Dir" using I(6) a by (simp add: s(4) p bidded_path_def)
  have "db_inv (d\<lparr>fs := s\<rparr>) \<and> user_view (d\<lparr>fs := s\<rparr>) = user_view d"
    by (rule db_inv_step [OF inv a s(2,3) ok' top]) (use I(5) in \<open>auto simp: s(4) p bidded_path_def\<close>)
  then show ?thesis using s(1) set by (intro exI [of _ "d\<lparr>fs := s\<rparr>"]) (simp add: s(4) bid_path_def bidded_path_def p)
qed

section \<open>Closing\<close>

lemma close_effect:
  assumes inv: "db_inv d" and a: "is_valid_aid a" "exists_auction a d"
    and st: "start_of (fs d) a uid name fname sv ta t" and now: "time_ok now"
  shows "\<exists>d'. close_auction now a d = (0, d') \<and> db_inv d' \<and> user_view d' = user_view d \<and> auc_count d' = auc_count d
     \<and> fs_get (fs d') (end_path a) = Some (File (end_info now (now - t)))
     \<and> (\<forall>q. q \<noteq> end_path a \<longrightarrow> fs_get (fs d') q = fs_get (fs d) q)"
proof -
  note I = db_invD [OF inv] and p = valid_aid_paths [OF a(1)]
  note tl = start_time_l [OF st] and sl = start_line [OF st I(2), of 128]
  have ok: "auction_ok (fs d) a" using I(7) a by simp
  have e: "end_path a \<noteq> []" "butlast (end_path a) = [''AUCTIONS'', a]" "[''AUCTIONS'', a] \<noteq> end_path a"
    by (simp_all add: p)
  have en: "fs_get (fs d) (end_path a) \<noteq> Some Dir" "fs_get (fs d) [''AUCTIONS'', a] = Some Dir"
    using ok I(6) a by (auto simp: auction_ok_def dest: end_ok_not_Dir)
  obtain s1 where s1: "sys_creat (end_path a) (fs d) = Inr s1" "healthy s1" "fs_wf s1"
    "\<And>q. fs_get s1 q = (if q = end_path a \<and> fs_get (fs d) (end_path a) = None then Some (File []) else fs_get (fs d) q)"
    using sys_creat_spec [OF I(2,3) e(1)] en e(2) by auto
  have "fs_get s1 (end_path a) \<noteq> Some Dir" "fs_get s1 [''AUCTIONS'', a] = Some Dir" using en e s1(4) by auto
  then obtain s2 where s2: "sys_fputs (end_path a) (end_info now (now - t)) s1 = Inr s2" "healthy s2" "fs_wf s2"
    "\<And>q. fs_get s2 q = (if q = end_path a then Some (File (end_info now (now - t))) else fs_get s1 q)"
    using sys_fputs_spec [OF s1(2,3) e(1), of "end_info now (now - t)"] e(2) by auto
  have r: "close_auction now a d = (0, d\<lparr>fs := s2\<rparr>)"
    using sl tl s1(1) s2(1) by (simp add: close_auction_def Let_def)
  have get: "fs_get s2 q = (if q = end_path a then Some (File (end_info now (now - t))) else fs_get (fs d) q)" for q
    by (simp add: s2(4) s1(4))
  have ne: "bids_dir a @ q \<noteq> end_path a" "start_path a \<noteq> end_path a" "asset_path a f \<noteq> end_path a" for q f
    by (auto simp: p asset_path_def)
  moreover have "secs_ok (now - t)" using now st by (auto simp: secs_ok_def time_ok_def start_of_def start_ok_def)
  then have "end_record_ok (end_info now (now - t))" using now unfolding end_record_ok_def by blast
  ultimately have "auction_ok s2 a" using ok get ne(1) [of "[]"]
    by (simp add: auction_ok_def start_of_def bids_ok_def end_ok_def)
  then have "db_inv (d\<lparr>fs := s2\<rparr>) \<and> user_view (d\<lparr>fs := s2\<rparr>) = user_view d"
    by (rule db_inv_step [OF inv a s2(2,3)]) (use I(5) en in \<open>auto simp: get p\<close>)
  then show ?thesis using r by (intro exI [of _ "d\<lparr>fs := s2\<rparr>"]) (simp add: get)
qed

section \<open>Expired auctions\<close>

text \<open>Start time and duration, as recorded in the \<open>START\<close> file.\<close>

definition auction_times :: "fsys \<Rightarrow> string \<Rightarrow> int \<times> int" where
  "auction_times s a =
     (case fs_get s (start_path a) of
        Some (File l) \<Rightarrow> (atol (the (fst (strtok [SP] (strtok_n 7 [SP] l)))), atoi (the (fst (strtok [SP] (strtok_n 4 [SP] l)))))
      | _ \<Rightarrow> (0, 0))"

definition expired :: "int \<Rightarrow> fsys \<Rightarrow> string \<Rightarrow> bool" where
  "expired now s a \<longleftrightarrow> fst (auction_times s a) + snd (auction_times s a) \<le> now"

definition expiry_record :: "fsys \<Rightarrow> string \<Rightarrow> string" where
  "expiry_record s a =
     end_info (fst (auction_times s a) + snd (auction_times s a)) (snd (auction_times s a)) @ [LF]"

text \<open>No auction runs beyond January 2038, where the \<open>int\<close> of \<open>update_database\<close> ends.\<close>

definition clock_ok :: "db \<Rightarrow> bool" where
  "clock_ok d \<longleftrightarrow> (\<forall>a. is_valid_aid a \<longrightarrow> exists_auction a d \<longrightarrow>
     fst (auction_times (fs d) a) + snd (auction_times (fs d) a) < 2 ^ 31)"

lemma auction_times_start:
  assumes "start_of s a uid name fname sv ta t"
  shows "auction_times s a = (t, ta)"
proof -
  have ok: "start_ok uid name fname sv ta t" using assms by (simp add: start_of_def)
  then have "atoi (fmt_d ta) = ta" by (intro atoi_fmt_d) (auto simp: start_ok_def)
  moreover have "atol (fmt_d t @ [LF]) = t" using ok by (intro atol_fmt_d) (auto simp: start_ok_def)
  ultimately show ?thesis using assms start_info_tokens [OF ok] strtok_last_word [OF start_okD(8) [OF ok]]
    by (simp add: auction_times_def start_of_def)
qed

lemma valid_aid_not_hidden: "is_valid_aid a \<Longrightarrow> \<not> hidden a"
proof
  assume a: "is_valid_aid a" "hidden a"
  then obtain c cs where "a = c # cs" by (cases a) (auto simp: is_valid_aid_iff)
  then show False using a by (auto simp: is_valid_aid_iff hidden_def)
qed

lemma update_auction_spec:
  assumes h: "healthy s" "fs_wf s" and a: "is_valid_aid a" and st: "start_of s a uid name fname sv ta t"
    and dir: "fs_get s [''AUCTIONS'', a] = Some Dir" and en: "fs_get s (end_path a) \<noteq> Some Dir"
    and clock: "t + ta < 2 ^ 31"
  shows "\<exists>s'. update_auction now a s = Inr s' \<and> healthy s' \<and> fs_wf s'
     \<and> (\<forall>q. fs_get s' q = (if q = end_path a \<and> fs_get s (end_path a) = None \<and> t + ta \<le> now
              then Some (File (end_info (t + ta) ta @ [LF])) else fs_get s q))"
proof (cases "fs_get s (end_path a) = None \<and> t + ta \<le> now")
  case False
  note p = valid_aid_paths [OF a]
  have ok: "start_ok uid name fname sv ta t" using st by (simp add: start_of_def)
  have "c_int t = t" using ok clock by (intro c_int_id) (auto simp: start_ok_def)
  moreover have "atoi (fmt_d ta) = ta" using ok by (intro atoi_fmt_d) (auto simp: start_ok_def)
  moreover have "atol (fmt_d t @ [LF]) = t" using ok by (intro atol_fmt_d) (auto simp: start_ok_def)
  moreover have "is_valid_time_active (fmt_d ta)" using ok by (simp add: start_ok_def fmt_d_valid_time_active)
  ultimately have "update_auction now a s = Inr s"
    using False start_line [OF st h(1), of 128] start_info_tokens [OF ok] valid_aid_not_hidden [OF a]
      strtok_last_word [OF start_okD(8) [OF ok]] h
    by (auto simp: update_auction_def p(4,6) sys_can_read_healthy Let_def)
  then show ?thesis using False h by auto
next
  case True
  note p = valid_aid_paths [OF a]
  have ok: "start_ok uid name fname sv ta t" using st by (simp add: start_of_def)
  have "c_int t = t" "c_int (t + ta) = t + ta" using ok clock by (auto intro!: c_int_id simp: start_ok_def)
  moreover have "atoi (fmt_d ta) = ta" using ok by (intro atoi_fmt_d) (auto simp: start_ok_def)
  moreover have "atol (fmt_d t @ [LF]) = t" using ok by (intro atol_fmt_d) (auto simp: start_ok_def)
  moreover have "is_valid_time_active (fmt_d ta)" using ok by (simp add: start_ok_def fmt_d_valid_time_active)
  moreover have e: "end_path a \<noteq> []" "butlast (end_path a) = [''AUCTIONS'', a]" "[''AUCTIONS'', a] \<noteq> end_path a"
    by (simp_all add: p)
  obtain s1 where s1: "sys_creat (end_path a) s = Inr s1" "healthy s1" "fs_wf s1"
    "\<And>q. fs_get s1 q = (if q = end_path a \<and> fs_get s (end_path a) = None then Some (File []) else fs_get s q)"
    using sys_creat_spec [OF h e(1)] en dir e(2) by auto
  have "fs_get s1 (end_path a) \<noteq> Some Dir" "fs_get s1 [''AUCTIONS'', a] = Some Dir" using en dir e s1(4) by auto
  then obtain s2 where s2: "sys_fputs (end_path a) (end_info (t + ta) ta @ [LF]) s1 = Inr s2" "healthy s2" "fs_wf s2"
    "\<And>q. fs_get s2 q = (if q = end_path a then Some (File (end_info (t + ta) ta @ [LF])) else fs_get s1 q)"
    using sys_fputs_spec [OF s1(2,3) e(1), of "end_info (t + ta) ta @ [LF]"] e(2) by auto
  ultimately have "update_auction now a s = Inr s2"
    using True start_line [OF st h(1), of 128] start_info_tokens [OF ok] valid_aid_not_hidden [OF a]
      strtok_last_word [OF start_okD(8) [OF ok]] h s1(1)
    by (auto simp: update_auction_def p(4,6) sys_can_read_healthy Let_def)
  then show ?thesis using True s2 s1(4) by auto
qed

lemma end_path_inj: "is_valid_aid a \<Longrightarrow> is_valid_aid b \<Longrightarrow> end_path a = end_path b \<longleftrightarrow> a = b"
  by (auto simp: valid_aid_paths)

lemma update_auctions_spec:
  assumes "db_inv d" "clock_ok d" "\<forall>a \<in> set names. hidden a \<or> (is_valid_aid a \<and> exists_auction a d)"
  shows "\<exists>s. update_auctions now names (fs d) = Inr s \<and> db_inv (d\<lparr>fs := s\<rparr>)
     \<and> user_view (d\<lparr>fs := s\<rparr>) = user_view d
     \<and> (\<forall>q. fs_get s q =
          (if \<exists>a \<in> set names. is_valid_aid a \<and> q = end_path a \<and> fs_get (fs d) q = None \<and> expired now (fs d) a
           then Some (File (expiry_record (fs d) (THE a. is_valid_aid a \<and> q = end_path a))) else fs_get (fs d) q))"
  using assms
proof (induction names arbitrary: d)
  case Nil
  then show ?case by simp
next
  case (Cons x names)
  show ?case
  proof (cases "hidden x")
    case True
    then have "update_auctions now (x # names) (fs d) = update_auctions now names (fs d)"
      by (simp add: update_auction_def)
    moreover have "\<not> is_valid_aid x" using True valid_aid_not_hidden by blast
    ultimately show ?thesis using Cons.IH [OF Cons.prems(1,2)] Cons.prems(3) by simp
  next
    case False
    then have x: "is_valid_aid x" "exists_auction x d" using Cons.prems(3) by auto
    note I = db_invD [OF Cons.prems(1)] and p = valid_aid_paths [OF x(1)]
    have ok: "auction_ok (fs d) x" using I(7) x by simp
    obtain uid name fname sv ta t c where st: "start_of (fs d) x uid name fname sv ta t"
      using ok by (rule auction_okE)
    have times: "auction_times (fs d) x = (t, ta)" using auction_times_start [OF st] .
    have tta: "t + ta < 2 ^ 31" using Cons.prems(2) x times by (auto simp: clock_ok_def)
    have en: "fs_get (fs d) (end_path x) \<noteq> Some Dir" using ok by (auto simp: auction_ok_def dest: end_ok_not_Dir)
    obtain s1 where s1: "update_auction now x (fs d) = Inr s1" "healthy s1" "fs_wf s1"
      "\<And>q. fs_get s1 q = (if q = end_path x \<and> fs_get (fs d) (end_path x) = None \<and> t + ta \<le> now
              then Some (File (end_info (t + ta) ta @ [LF])) else fs_get (fs d) q)"
      using update_auction_spec [OF I(2,3) x(1) st I(6) [OF x] en tta] by blast
    have ne: "bids_dir x @ q \<noteq> end_path x" "asset_path x f \<noteq> end_path x" for q f
      by (auto simp: p asset_path_def)
    have sne: "start_path a \<noteq> end_path x" for a by (simp add: auc_paths)
    have "time_ok (t + ta)" "secs_ok ta" using st tta
      by (auto simp: time_ok_def secs_ok_def start_of_def start_ok_def)
    then have "end_record_ok (end_info (t + ta) ta @ [LF])" unfolding end_record_ok_def by blast
    then have "auction_ok s1 x" using ok s1(4) ne ne(1) [of "[]"] sne [of x]
      by (simp add: auction_ok_def start_of_def bids_ok_def end_ok_def)
    then have inv: "db_inv (d\<lparr>fs := s1\<rparr>) \<and> user_view (d\<lparr>fs := s1\<rparr>) = user_view d"
      by (rule db_inv_step [OF Cons.prems(1) x s1(2,3)]) (use I(5,6) x en in \<open>auto simp: s1(4) p\<close>)
    have times': "auction_times s1 a = auction_times (fs d) a" for a
      using sne [of a] by (simp add: auction_times_def s1(4))
    then have exp: "expired now s1 a = expired now (fs d) a" "expiry_record s1 a = expiry_record (fs d) a" for a
      by (simp_all add: expired_def expiry_record_def)
    have fsu: "fs (d\<lparr>fs := s1\<rparr>) = s1" by simp
    have "clock_ok (d\<lparr>fs := s1\<rparr>)" using Cons.prems(2) times' by (simp add: clock_ok_def)
    then obtain s where s: "update_auctions now names s1 = Inr s" "db_inv (d\<lparr>fs := s\<rparr>)"
      "user_view (d\<lparr>fs := s\<rparr>) = user_view d"
      "\<And>q. fs_get s q =
          (if \<exists>a \<in> set names. is_valid_aid a \<and> q = end_path a \<and> fs_get s1 q = None \<and> expired now (fs d) a
           then Some (File (expiry_record (fs d) (THE a. is_valid_aid a \<and> q = end_path a))) else fs_get s1 q)"
      using Cons.IH [of "d\<lparr>fs := s1\<rparr>", unfolded fsu exp] Cons.prems(3) inv by auto
    have the: "(THE a. is_valid_aid a \<and> end_path x = end_path a) = x"
      using x(1) end_path_inj [OF x(1)] by (intro the_equality) auto
    have rec: "expiry_record (fs d) x = end_info (t + ta) ta @ [LF]" "expired now (fs d) x \<longleftrightarrow> t + ta \<le> now"
      using times by (simp_all add: expiry_record_def expired_def)
    have "fs_get s q =
          (if \<exists>a \<in> set (x # names). is_valid_aid a \<and> q = end_path a \<and> fs_get (fs d) q = None \<and> expired now (fs d) a
           then Some (File (expiry_record (fs d) (THE a. is_valid_aid a \<and> q = end_path a))) else fs_get (fs d) q)" for q
    proof (cases "q = end_path x")
      case True
      then show ?thesis using x(1) rec the end_path_inj [OF x(1)] by (auto simp: s(4) s1(4))
    next
      case False
      then show ?thesis by (auto simp: s(4) s1(4))
    qed
    then show ?thesis using s(1-3) s1(1) by auto
  qed
qed

lemma update_effect:
  assumes inv: "db_inv d" and clock: "clock_ok d"
  shows "\<exists>d'. update_database now d = Inr (0, d') \<and> db_inv d' \<and> user_view d' = user_view d \<and> auc_count d' = auc_count d
     \<and> (\<forall>a. is_valid_aid a \<longrightarrow> fs_get (fs d') (end_path a) =
          (if exists_auction a d \<and> fs_get (fs d) (end_path a) = None \<and> expired now (fs d) a
           then Some (File (expiry_record (fs d) a)) else fs_get (fs d) (end_path a)))
     \<and> (\<forall>q. (\<forall>a. is_valid_aid a \<longrightarrow> q \<noteq> end_path a) \<longrightarrow> fs_get (fs d') q = fs_get (fs d) q)"
proof -
  note I = db_invD [OF inv]
  let ?names = "[''.'', ''..''] @ fs_names [''AUCTIONS''] (fs d)"
  have names: "x \<in> set (fs_names [''AUCTIONS''] (fs d)) \<longleftrightarrow> is_valid_aid x \<and> exists_auction x d" for x
    using I(6,8) [of x] I(9) [of x] unfolding set_fs_names append_Cons append_Nil by (metis option.distinct(1))
  then have ok: "\<forall>a \<in> set ?names. hidden a \<or> (is_valid_aid a \<and> exists_auction a d)" by (auto simp: hidden_def)
  obtain s where s: "update_auctions now ?names (fs d) = Inr s" "db_inv (d\<lparr>fs := s\<rparr>)"
     "user_view (d\<lparr>fs := s\<rparr>) = user_view d"
     "\<And>q. fs_get s q =
          (if \<exists>a \<in> set ?names. is_valid_aid a \<and> q = end_path a \<and> fs_get (fs d) q = None \<and> expired now (fs d) a
           then Some (File (expiry_record (fs d) (THE a. is_valid_aid a \<and> q = end_path a))) else fs_get (fs d) q)"
    using update_auctions_spec [OF inv clock ok] by blast
  have rd: "sys_readdir [''AUCTIONS''] (fs d) = Some ?names" using I(2,4) by (rule sys_readdir_healthy)
  then have r: "update_database now d = Inr (0, d\<lparr>fs := s\<rparr>)" using s(1) by (simp add: update_database_def)
  have dots: "\<not> is_valid_aid ''.''" "\<not> is_valid_aid ''..''" by (simp_all add: is_valid_aid_iff)
  have e: "fs_get s (end_path a) =
          (if exists_auction a d \<and> fs_get (fs d) (end_path a) = None \<and> expired now (fs d) a
           then Some (File (expiry_record (fs d) a)) else fs_get (fs d) (end_path a))" if a: "is_valid_aid a" for a
  proof -
    have "(THE b. is_valid_aid b \<and> end_path a = end_path b) = a"
      using a end_path_inj [OF a] by (intro the_equality) auto
    moreover have "(\<exists>b \<in> set ?names. is_valid_aid b \<and> end_path a = end_path b \<and> fs_get (fs d) (end_path a) = None
        \<and> expired now (fs d) b) \<longleftrightarrow> exists_auction a d \<and> fs_get (fs d) (end_path a) = None \<and> expired now (fs d) a"
      using a end_path_inj [OF a] dots by (auto simp: names)
    ultimately show ?thesis by (simp only: s(4))
  qed
  have "fs_get s q = fs_get (fs d) q" if "\<forall>a. is_valid_aid a \<longrightarrow> q \<noteq> end_path a" for q
    using that by (auto simp: s(4))
  then show ?thesis using r s(2,3) e by (intro exI [of _ "d\<lparr>fs := s\<rparr>"]) simp
qed

section \<open>The invariant under the account operations\<close>

lemma clock_ok_cong:
  assumes "auc_count e = auc_count d" "\<And>a. is_valid_aid a \<Longrightarrow> fs_get (fs e) (start_path a) = fs_get (fs d) (start_path a)"
  shows "clock_ok e = clock_ok d"
  using assms by (simp add: clock_ok_def exists_auction_def auction_times_def)

definition sound :: "db \<Rightarrow> bool" where
  "sound d \<longleftrightarrow> db_inv d \<and> clock_ok d"

lemma sound_users_inv: "sound d \<Longrightarrow> users_inv d"
  by (simp add: sound_def db_inv_def)

lemma sound_account_step:
  assumes d: "sound d" and d': "users_inv d'" "auc_count d' = auc_count d" and u: "is_valid_uid u"
    and same: "\<And>p. take 2 p \<noteq> [''USERS'', u] \<or> length p = 4 \<Longrightarrow> fs_get (fs d') p = fs_get (fs d) p"
  shows "sound d'"
proof -
  have "clock_ok d' = clock_ok d" using d' by (intro clock_ok_cong same) (auto simp: valid_aid_paths)
  then show ?thesis using d db_inv_user_step [OF _ d' u same] by (simp add: sound_def)
qed

lemma account_ops_sound:
  assumes d: "sound d" and u: "is_valid_uid u"
  shows "user_view d u = Some (pw, l) \<Longrightarrow>
      \<exists>d'. log_in_user u d = (0, d') \<and> sound d' \<and> user_view d' = (user_view d)(u \<mapsto> (pw, True))"
    and "user_view d u = Some (pw, True) \<Longrightarrow>
      \<exists>d'. log_out_user u d = (0, d') \<and> sound d' \<and> user_view d' = (user_view d)(u \<mapsto> (pw, False))"
    and "is_valid_passwd pw \<Longrightarrow> user_view d u = None \<Longrightarrow>
      \<exists>d'. register_user u pw d = (0, d') \<and> sound d' \<and> user_view d' = (user_view d)(u \<mapsto> (pw, True))"
    and "user_view d u = Some (pw, True) \<Longrightarrow>
      \<exists>d'. unregister_user u d = (0, d') \<and> sound d' \<and> user_view d' = (user_view d)(u := None)"
proof -
  have inv: "users_inv d" using d by (simp add: sound_def db_inv_def)
  have lift: "\<exists>d'. op = (0 :: int, d') \<and> sound d' \<and> user_view d' = V"
    if ex: "\<exists>d'. op = (0 :: int, d') \<and> users_inv d' \<and> user_view d' = V"
      and cnt: "auc_count (snd op) = auc_count d"
      and frame: "\<And>p. take 2 p \<noteq> [''USERS'', u] \<or> length p = 4 \<Longrightarrow> fs_get (fs (snd op)) p = fs_get (fs d) p"
    for op V
  proof -
    from ex obtain d' where o: "op = (0, d')" and d': "users_inv d'" "user_view d' = V" by blast
    have "sound d'" by (rule sound_account_step [OF d d'(1) _ u]) (use cnt frame in \<open>simp_all add: o\<close>)
    then show ?thesis using o d'(2) by simp
  qed
  show "user_view d u = Some (pw, l) \<Longrightarrow>
      \<exists>d'. log_in_user u d = (0, d') \<and> sound d' \<and> user_view d' = (user_view d)(u \<mapsto> (pw, True))"
    by (rule lift [OF us.log_in_law [OF inv u] account_op_count(1) account_op_frame(1) [OF u]])
  show "user_view d u = Some (pw, True) \<Longrightarrow>
      \<exists>d'. log_out_user u d = (0, d') \<and> sound d' \<and> user_view d' = (user_view d)(u \<mapsto> (pw, False))"
    by (rule lift [OF us.log_out_law [OF inv u] account_op_count(2) account_op_frame(2) [OF u]])
  show "is_valid_passwd pw \<Longrightarrow> user_view d u = None \<Longrightarrow>
      \<exists>d'. register_user u pw d = (0, d') \<and> sound d' \<and> user_view d' = (user_view d)(u \<mapsto> (pw, True))"
    by (rule lift [OF us.register_law [OF inv u] account_op_count(3) account_op_frame(3) [OF u]])
  show "user_view d u = Some (pw, True) \<Longrightarrow>
      \<exists>d'. unregister_user u d = (0, d') \<and> sound d' \<and> user_view d' = (user_view d)(u := None)"
    by (rule lift [OF us.unregister_law [OF inv u] account_op_count(4) account_op_frame(4) [OF u]])
qed

lemma sound_update:
  assumes "sound d"
  shows "\<exists>d'. update_database now d = Inr (0, d') \<and> sound d' \<and> user_view d' = user_view d \<and> auc_count d' = auc_count d
     \<and> (\<forall>a. is_valid_aid a \<longrightarrow> fs_get (fs d') (end_path a) =
          (if exists_auction a d \<and> fs_get (fs d) (end_path a) = None \<and> expired now (fs d) a
           then Some (File (expiry_record (fs d) a)) else fs_get (fs d) (end_path a)))
     \<and> (\<forall>q. (\<forall>a. is_valid_aid a \<longrightarrow> q \<noteq> end_path a) \<longrightarrow> fs_get (fs d') q = fs_get (fs d) q)"
proof -
  have inv: "db_inv d" "clock_ok d" using assms by (simp_all add: sound_def)
  obtain d' where d': "update_database now d = Inr (0, d')" "db_inv d'" "user_view d' = user_view d"
    "auc_count d' = auc_count d"
    "\<forall>a. is_valid_aid a \<longrightarrow> fs_get (fs d') (end_path a) =
          (if exists_auction a d \<and> fs_get (fs d) (end_path a) = None \<and> expired now (fs d) a
           then Some (File (expiry_record (fs d) a)) else fs_get (fs d) (end_path a))"
    "\<forall>q. (\<forall>a. is_valid_aid a \<longrightarrow> q \<noteq> end_path a) \<longrightarrow> fs_get (fs d') q = fs_get (fs d) q"
    using update_effect [OF inv, of now] by blast
  have "start_path a \<noteq> end_path b" for a b by (simp add: auc_paths)
  then have "clock_ok d' = clock_ok d" using d'(4,6) by (intro clock_ok_cong) auto
  then have s: "sound d'" using d'(2) inv(2) by (simp add: sound_def)
  show ?thesis by (intro exI [of _ d'] conjI d' s)
qed

lemma empty_db_sound: "sound empty_db"
proof -
  have ex: "\<not> exists_auction a empty_db" for a by (simp add: exists_auction_def empty_db_def Let_def)
  have "db_inv empty_db"
    by (rule db_invI) (simp_all add: empty_db_inv ex, simp_all add: empty_db_def)
  then show ?thesis using ex by (simp add: sound_def clock_ok_def)
qed

end
