(* ===== verification/AuctionCreation.thy ===== *)
theory AuctionCreation
  imports AuctionFacts
begin

text \<open>
  \<open>create_new_auction\<close> as a transaction: the directory, the record, the asset and the entry of
  the seller appear together, or \<open>rollback_auction_dir_creation\<close> restores the tree and the counter.
\<close>

section \<open>Removing a directory\<close>

lemma below_none:
  assumes "fs_wf s" "fs_get s p = None"
  shows "fs_get s (p @ q) = None"
proof (induction q rule: rev_induct)
  case Nil
  then show ?case using assms(2) by simp
next
  case (snoc x xs)
  then show ?case using fs_wf_parent [OF assms(1), of "p @ xs @ [x]"] 
    by (cases "fs_get s (p @ xs @ [x])") (auto simp: butlast_append)
qed

lemma below_none_take: "fs_wf s \<Longrightarrow> fs_get s p = None \<Longrightarrow> take (length p) q = p \<Longrightarrow> fs_get s q = None"
  using below_none [of s p "drop (length p) q"] by (metis append_take_drop_id)

lemma below_file: "fs_wf s \<Longrightarrow> fs_get s p = Some (File c) \<Longrightarrow> fs_get s (p @ [x]) = None"
  using fs_wf_parent [of s "p @ [x]"] by (cases "fs_get s (p @ [x])") auto

lemma fs_names_Nil: "fs_names d s = [] \<longleftrightarrow> (\<forall>x. fs_get s (d @ [x]) = None)"
proof -
  have "fs_names d s = [] \<longleftrightarrow> (\<forall>x. x \<notin> set (fs_names d s))" by (cases "fs_names d s") auto
  then show ?thesis by (simp only: set_fs_names not_not)
qed

lemma try_remove_file: "healthy s \<Longrightarrow> fs_get s p = Some (File c) \<Longrightarrow> try_remove p s = fs_del p s"
  by (simp add: try_remove_def sys_remove_file)

lemma try_remove_dir:
  "healthy s \<Longrightarrow> fs_get s p = Some Dir \<Longrightarrow> (\<forall>x. fs_get s (p @ [x]) = None) \<Longrightarrow> try_remove p s = fs_del p s"
  using fs_names_Nil [of p s] by (simp add: try_remove_def sys_remove_def healthy_def)

lemma remove_regular_spec:
  assumes "healthy s" "fs_wf s"
  shows "healthy (remove_regular dir names s) \<and> fs_wf (remove_regular dir names s)
     \<and> (\<forall>q. fs_get (remove_regular dir names s) q =
          (if (\<exists>x \<in> set names. \<not> hidden x \<and> q = dir @ [x]) \<and> (\<exists>c. fs_get s q = Some (File c)) then None
           else fs_get s q))"
  using assms
proof (induction names arbitrary: s)
  case Nil
  then show ?case by simp
next
  case (Cons x names)
  show ?case
  proof (cases "\<not> hidden x \<and> (\<exists>c. fs_get s (dir @ [x]) = Some (File c))")
    case True
    then obtain c where c: "fs_get s (dir @ [x]) = Some (File c)" "\<not> hidden x" by blast
    have "fs_wf (fs_del (dir @ [x]) s)" using Cons.prems c by (intro fs_wf_del_file) auto
    then have "healthy (remove_regular dir names (fs_del (dir @ [x]) s))
        \<and> fs_wf (remove_regular dir names (fs_del (dir @ [x]) s))
        \<and> (\<forall>q. fs_get (remove_regular dir names (fs_del (dir @ [x]) s)) q =
          (if (\<exists>y \<in> set names. \<not> hidden y \<and> q = dir @ [y]) \<and> (\<exists>c. fs_get (fs_del (dir @ [x]) s) q = Some (File c))
           then None else fs_get (fs_del (dir @ [x]) s) q))"
      using Cons.prems by (intro Cons.IH) auto
    moreover have "remove_regular dir (x # names) s = remove_regular dir names (fs_del (dir @ [x]) s)"
      using c Cons.prems by (simp add: try_remove_file)
    ultimately show ?thesis using c by auto
  next
    case False
    then have "remove_regular dir (x # names) s = remove_regular dir names s"
      by (auto split: option.splits node.splits)
    then show ?thesis using Cons.IH [OF Cons.prems] False by auto
  qed
qed

lemma remove_dir_files_spec:
  assumes h: "healthy s" "fs_wf s" and dir: "fs_get s dir = Some Dir" "dir \<noteq> []"
    and kids: "\<And>x. fs_get s (dir @ [x]) \<noteq> None \<Longrightarrow> \<not> hidden x \<and> (\<exists>c. fs_get s (dir @ [x]) = Some (File c))"
  shows "healthy (remove_dir_files dir s) \<and> fs_wf (remove_dir_files dir s)
     \<and> (\<forall>q. fs_get (remove_dir_files dir s) q = (if q = dir \<or> (\<exists>x. q = dir @ [x]) then None else fs_get s q))"
proof -
  define names where "names = [''.'', ''..''] @ fs_names dir s"
  have set_names: "fs_get s (dir @ [x]) \<noteq> None \<Longrightarrow> x \<in> set names" for x
    by (simp add: names_def set_fs_names)
  let ?s1 = "remove_regular dir names s"
  have s1: "healthy ?s1" "fs_wf ?s1" and g: "\<And>q. fs_get ?s1 q =
      (if (\<exists>x \<in> set names. \<not> hidden x \<and> q = dir @ [x]) \<and> (\<exists>c. fs_get s q = Some (File c)) then None
       else fs_get s q)"
    using remove_regular_spec [OF h, of dir names] by blast+
  have kid: "fs_get ?s1 (dir @ [x]) = None" for x
    using kids [of x] set_names [of x] by (cases "fs_get s (dir @ [x])") (auto simp: g)
  have other: "fs_get ?s1 q = fs_get s q" if "\<nexists>x. q = dir @ [x]" for q
    using that by (auto simp: g)
  have "dir \<noteq> dir @ [x]" for x by simp
  then have d1: "fs_get ?s1 dir = Some Dir" using other [of dir] dir by simp
  then have "try_remove dir ?s1 = fs_del dir ?s1" using s1 kid by (intro try_remove_dir) auto
  then have r: "remove_dir_files dir s = fs_del dir ?s1"
    using sys_readdir_healthy [OF h(1) dir(1)] by (simp add: remove_dir_files_def names_def)
  have "fs_wf (fs_del dir ?s1)" using s1 dir kid by (intro fs_wf_del_dir) (simp_all add: fs_names_Nil)
  moreover have "fs_get (fs_del dir ?s1) q = (if q = dir \<or> (\<exists>x. q = dir @ [x]) then None else fs_get s q)" for q
    using dir kid other [of q] by auto
  ultimately show ?thesis using r s1 by simp
qed

lemma rollback_spec:
  assumes h: "healthy (fs d)" "fs_wf (fs d)"
    and dir: "dir = auc_dir (auc_count d)" "fs_get (fs d) dir = Some Dir"
    and sub: "fs_get (fs d) (dir @ [''BIDS'']) = Some Dir" "fs_get (fs d) (dir @ [''ASSET'']) = Some Dir"
    and kids: "\<And>x. fs_get (fs d) (dir @ [x]) \<noteq> None \<Longrightarrow> x = ''BIDS'' \<or> x = ''ASSET''
                 \<or> (\<not> hidden x \<and> (\<exists>c. fs_get (fs d) (dir @ [x]) = Some (File c)))"
    and files: "\<And>y x. fs_get (fs d) (dir @ [y, x]) \<noteq> None \<Longrightarrow>
                 \<not> hidden x \<and> (\<exists>c. fs_get (fs d) (dir @ [y, x]) = Some (File c))"
  shows "\<exists>s. rollback_auction_dir_creation d = d\<lparr>fs := s, auc_count := auc_count d - 1\<rparr> \<and> healthy s \<and> fs_wf s
     \<and> (\<forall>q. fs_get s q = (if take 2 q = dir then None else fs_get (fs d) q))"
proof -
  have len: "dir \<noteq> []" "length dir = 2" using dir(1) by (auto simp: auc_dir_def)
  define names where "names = [''.'', ''..''] @ fs_names dir (fs d)"
  have set_names: "fs_get (fs d) (dir @ [x]) \<noteq> None \<Longrightarrow> x \<in> set names" for x
    by (simp add: names_def set_fs_names)
  let ?s1 = "remove_regular dir names (fs d)"
  have s1: "healthy ?s1" "fs_wf ?s1" and g1: "\<And>q. fs_get ?s1 q =
      (if (\<exists>x \<in> set names. \<not> hidden x \<and> q = dir @ [x]) \<and> (\<exists>c. fs_get (fs d) q = Some (File c)) then None
       else fs_get (fs d) q)"
    using remove_regular_spec [OF h, of dir names] by blast+
  have k1: "fs_get ?s1 (dir @ [x]) = None" if "x \<noteq> ''BIDS''" "x \<noteq> ''ASSET''" for x
    using kids [of x] that set_names [of x] by (cases "fs_get (fs d) (dir @ [x])") (auto simp: g1)
  have o1: "fs_get ?s1 q = fs_get (fs d) q" if "\<nexists>x. q = dir @ [x]" for q using that by (auto simp: g1)
  have sub1: "fs_get ?s1 (dir @ [''BIDS'']) = Some Dir" "fs_get ?s1 (dir @ [''ASSET'']) = Some Dir"
    using sub by (simp_all add: g1)
  have f1: "fs_get ?s1 ((dir @ [y]) @ [x]) \<noteq> None \<Longrightarrow>
      \<not> hidden x \<and> (\<exists>c. fs_get ?s1 ((dir @ [y]) @ [x]) = Some (File c))" for x y
    using files [of y x] o1 [of "dir @ [y, x]"] by auto
  let ?s2 = "remove_dir_files (dir @ [''BIDS'']) ?s1"
  have s2: "healthy ?s2" "fs_wf ?s2" and g2: "\<And>q. fs_get ?s2 q =
      (if q = dir @ [''BIDS''] \<or> (\<exists>x. q = (dir @ [''BIDS'']) @ [x]) then None else fs_get ?s1 q)"
    using remove_dir_files_spec [OF s1 sub1(1) _ f1] by auto
  have f2: "fs_get ?s2 ((dir @ [''ASSET'']) @ [x]) \<noteq> None \<Longrightarrow>
      \<not> hidden x \<and> (\<exists>c. fs_get ?s2 ((dir @ [''ASSET'']) @ [x]) = Some (File c))" for x
    using f1 [of "''ASSET''" x] by (simp add: g2)
  have sub2: "fs_get ?s2 (dir @ [''ASSET'']) = Some Dir" using sub1 by (simp add: g2)
  let ?s3 = "remove_dir_files (dir @ [''ASSET'']) ?s2"
  have s3: "healthy ?s3" "fs_wf ?s3" and g3: "\<And>q. fs_get ?s3 q =
      (if q = dir @ [''ASSET''] \<or> (\<exists>x. q = (dir @ [''ASSET'']) @ [x]) then None else fs_get ?s2 q)"
    using remove_dir_files_spec [OF s2 sub2 _ f2] by auto
  have d3: "fs_get ?s3 dir = Some Dir" using o1 [of dir] dir(2) by (simp add: g3 g2)
  have k3: "fs_get ?s3 (dir @ [x]) = None" for x using k1 [of x] by (simp add: g3 g2)
  have t: "try_remove dir ?s3 = fs_del dir ?s3" using s3 d3 k3 by (intro try_remove_dir) auto
  have wf: "fs_wf (fs_del dir ?s3)" using s3 len k3 by (intro fs_wf_del_dir) (simp_all add: fs_names_Nil)
  have r: "rollback_auction_dir_creation d = d\<lparr>fs := fs_del dir ?s3, auc_count := auc_count d - 1\<rparr>"
    using sys_readdir_healthy [OF h(1) dir(2)] t dir(1) by (simp add: rollback_auction_dir_creation_def Let_def names_def)
  have "fs_get (fs_del dir ?s3) q = (if take 2 q = dir then None else fs_get (fs d) q)" for q
  proof (cases "take 2 q = dir")
    case True
    then show ?thesis using below_none_take [OF wf, of dir q] len by simp
  next
    case False
    then have "q \<noteq> dir" "\<nexists>x. q = dir @ [x]" "\<nexists>y x. q = dir @ [y, x]" "\<nexists>y x. q = (dir @ [y]) @ [x]" using len by auto
    then show ?thesis using False o1 [of q] len by (simp add: g3 g2)
  qed
  then show ?thesis using r wf s3 by (intro exI [of _ "fs_del dir ?s3"]) simp
qed

section \<open>The steps of create_new_auction\<close>

lemma create_auction_dir_new:
  assumes h: "healthy (fs d)" and n: "0 \<le> auc_count d" "auc_count d < 999"
    and top: "fs_get (fs d) [''AUCTIONS''] = Some Dir" and new: "\<And>q. fs_get (fs d) (auc_dir (auc_count d + 1) @ q) = None"
  shows "create_auction_dir d = (auc_count d + 1,
     d\<lparr>fs := fs_put (auc_dir (auc_count d + 1) @ [''ASSET'']) Dir (fs_put (auc_dir (auc_count d + 1) @ [''BIDS'']) Dir
          (fs_put (auc_dir (auc_count d + 1)) Dir (fs d))), auc_count := auc_count d + 1\<rparr>)"
proof -
  let ?dir = "auc_dir (auc_count d + 1)"
  have mk: "mkdir_if_absent p s = Some (fs_put p Dir s)"
    if "healthy s" "fs_get s p = None" "fs_get s (butlast p) = Some Dir" for p s
    using that by (simp add: mkdir_if_absent_def sys_mkdir_new)
  have b: "?dir \<noteq> []" "butlast ?dir = [''AUCTIONS'']" by (simp_all add: auc_dir_def)
  have "mkdir_if_absent ?dir (fs d) = Some (fs_put ?dir Dir (fs d))"
    using h new [of "[]"] top b by (intro mk) auto
  moreover have "mkdir_if_absent (?dir @ [''BIDS'']) (fs_put ?dir Dir (fs d))
      = Some (fs_put (?dir @ [''BIDS'']) Dir (fs_put ?dir Dir (fs d)))"
    using h new [of "[''BIDS'']"] b by (intro mk) auto
  moreover have "mkdir_if_absent (?dir @ [''ASSET'']) (fs_put (?dir @ [''BIDS'']) Dir (fs_put ?dir Dir (fs d)))
      = Some (fs_put (?dir @ [''ASSET'']) Dir (fs_put (?dir @ [''BIDS'']) Dir (fs_put ?dir Dir (fs d))))"
    using h new [of "[''ASSET'']"] b by (intro mk) auto
  ultimately show ?thesis using n by (simp add: create_auction_dir_def Let_def)
qed

text \<open>The tree while the asset \<open>content\<close> is being stored.\<close>

definition being_created :: "string \<Rightarrow> string \<Rightarrow> string \<Rightarrow> string \<Rightarrow> fsys \<Rightarrow> fsys" where
  "being_created a info fname content s =
     fs_put (asset_path a fname) (File content) (fs_put (start_path a) (File info)
       (fs_put [''AUCTIONS'', a, ''ASSET''] Dir (fs_put [''AUCTIONS'', a, ''BIDS''] Dir (fs_put [''AUCTIONS'', a] Dir s))))"

definition next_aid :: "db \<Rightarrow> string" where
  "next_aid d = fmt_0d 3 (auc_count d + 1)"

lemma being_created_get:
  "is_valid_aid a \<Longrightarrow> fs_get (being_created a info fname content s) q =
     (if q = asset_path a fname then Some (File content) else if q = start_path a then Some (File info)
      else if q = [''AUCTIONS'', a, ''ASSET''] \<or> q = [''AUCTIONS'', a, ''BIDS''] \<or> q = [''AUCTIONS'', a] then Some Dir
      else fs_get s q)"
  by (simp add: being_created_def asset_path_def valid_aid_paths)

lemma next_aid:
  assumes "db_inv d" "auc_count d < 999"
  shows "is_valid_aid (next_aid d)" "atoi (next_aid d) = auc_count d + 1" "\<not> exists_auction (next_aid d) d"
    "fs_get (fs d) ([''AUCTIONS'', next_aid d] @ q) = None"
proof -
  note I = db_invD [OF assms(1)]
  show a: "is_valid_aid (next_aid d)" using I(10) assms(2) by (simp add: next_aid_def fmt_0d_valid_aid)
  show n: "atoi (next_aid d) = auc_count d + 1" using I(10) assms(2) by (simp add: next_aid_def atoi_fmt_0d)
  then show ne: "\<not> exists_auction (next_aid d) d" by (simp add: exists_auction_def)
  show "fs_get (fs d) ([''AUCTIONS'', next_aid d] @ q) = None"
    using below_none [OF I(3) I(8) [OF a ne]] .
qed

lemma being_created_ok:
  assumes inv: "db_inv d" and n: "auc_count d < 999"
  shows "healthy (being_created (next_aid d) info fname content (fs d))"
    "fs_wf (being_created (next_aid d) info fname content (fs d))"
proof -
  note I = db_invD [OF inv] and a = next_aid [OF inv n]
  note new = a(4) [of "[]", simplified] a(4) [of "[x]" for x, simplified] a(4) [of "[x, y]" for x y, simplified]
  show "healthy (being_created (next_aid d) info fname content (fs d))" using I(2) by (simp add: being_created_def)
  show "fs_wf (being_created (next_aid d) info fname content (fs d))"
    unfolding being_created_def using I(3,4) new
    by (intro fs_wf_put) (simp_all add: asset_path_def valid_aid_paths [OF a(1)])
qed

text \<open>On a healthy disk everything up to the transfer succeeds; the transfer decides.\<close>

lemma create_new_auction_steps:
  assumes inv: "db_inv d" and n: "auc_count d < 999" and fname: "is_valid_fname fname" and now: "now \<noteq> - 1"
  shows "create_new_auction uid name fname sv ta fsize now m caps c d =
     (case as_recv_asset_file m caps fsize c of
        Inl f \<Rightarrow> Inl f
      | Inr (rc, content, c') \<Rightarrow>
          let d1 = d\<lparr>fs := being_created (next_aid d) (start_info uid name fname sv ta now) fname content (fs d),
                     auc_count := auc_count d + 1\<rparr>
          in if rc \<noteq> 0 then Inr (- 1, c', rollback_auction_dir_creation d1)
             else case sys_creat [''USERS'', fmt_ws 6 uid, ''HOSTED'', next_aid d @ ''.txt''] (fs d1) of
                    Inl _ \<Rightarrow> Inr (- 1, c', rollback_auction_dir_creation d1)
                  | Inr s \<Rightarrow> Inr (auc_count d + 1, c', d1\<lparr>fs := s\<rparr>))"
proof -
  note I = db_invD [OF inv] and a = next_aid [OF inv n]
  note p = valid_aid_paths [OF a(1)]
  note new = a(4) [of "[]", simplified] a(4) [of "[x]" for x, simplified] a(4) [of "[x, y]" for x y, simplified]
  let ?info = "start_info uid name fname sv ta now"
  let ?s3 = "fs_put [''AUCTIONS'', next_aid d, ''ASSET''] Dir (fs_put [''AUCTIONS'', next_aid d, ''BIDS''] Dir
      (fs_put [''AUCTIONS'', next_aid d] Dir (fs d)))"
  have dir: "auc_dir (auc_count d + 1) = [''AUCTIONS'', next_aid d]" by (simp add: auc_dir_def next_aid_def)
  have cd: "create_auction_dir d = (auc_count d + 1, d\<lparr>fs := ?s3, auc_count := auc_count d + 1\<rparr>)"
    using create_auction_dir_new [OF I(2,10) n I(4)] a(4) by (simp add: dir)
  have c1: "sys_creat (start_path (next_aid d)) ?s3 = Inr (fs_put (start_path (next_aid d)) (File []) ?s3)"
    using I(2) new by (intro sys_creat_new) (simp_all add: p)
  have c2: "sys_fputs (start_path (next_aid d)) ?info (fs_put (start_path (next_aid d)) (File []) ?s3)
      = Inr (fs_put (start_path (next_aid d)) (File ?info) ?s3)"
    using I(2) new by (subst sys_fputs_eq) (simp_all add: p)
  have f: "take FNAME_LEN fname = fname" using fname by (simp add: is_valid_fname_iff constants)
  let ?s4 = "fs_put (start_path (next_aid d)) (File ?info) ?s3"
  have c3: "sys_creat (asset_path (next_aid d) fname) ?s4 = Inr (fs_put (asset_path (next_aid d) fname) (File []) ?s4)"
    using I(2) new by (intro sys_creat_new) (simp_all add: p asset_path_def)
  have ap: "auc_dir (auc_count d + 1) @ [''ASSET'', take FNAME_LEN fname] = asset_path (next_aid d) fname"
    by (simp add: dir asset_path_def f)
  have caps: "asset_caps caps (fs_put (asset_path (next_aid d) fname) (File []) ?s4) = caps"
    using I(2) by (simp add: asset_caps_def healthy_def)
  have put: "fs_put (asset_path (next_aid d) fname) (File (overwrite content (fs_get (fs_put (asset_path (next_aid d) fname)
        (File []) ?s4) (asset_path (next_aid d) fname)))) (fs_put (asset_path (next_aid d) fname) (File []) ?s4)
      = being_created (next_aid d) ?info fname content (fs d)" for content
    by (simp add: overwrite_def being_created_def asset_path_def)
  have pos: "\<not> auc_count d + 1 < 0" using I(10) by simp
  have nx: "fmt_0d 3 (auc_count d + 1) = next_aid d" by (simp add: next_aid_def)
  have pr: "auc_count (d\<lparr>fs := s, auc_count := k\<rparr>) = k" "fs (d\<lparr>fs := s, auc_count := k\<rparr>) = s"
    "d\<lparr>fs := s, auc_count := k\<rparr>\<lparr>fs := s'\<rparr> = d\<lparr>fs := s', auc_count := k\<rparr>" for s s' k
    by simp_all
  show ?thesis
    unfolding create_new_auction_def
    by (simp only: cd prod.case Let_def pos if_False pr nx c1 c2 c3 sum.case now ap caps put)
qed

section \<open>Success\<close>

lemma exists_next:
  assumes "db_inv d" "auc_count d < 999" "is_valid_aid b" "auc_count d' = auc_count d + 1"
  shows "exists_auction b d' \<longleftrightarrow> exists_auction b d \<or> b = next_aid d"
proof -
  note a = next_aid [OF assms(1,2)]
  have "atoi b = auc_count d + 1 \<longleftrightarrow> b = next_aid d"
    using a(2) fmt_0d_atoi_aid [OF assms(3)] by (auto simp: next_aid_def)
  then show ?thesis using assms(4) db_invD(10) [OF assms(1)] by (auto simp: exists_auction_def Let_def)
qed

lemma users_count [simp]:
  "users_inv (d\<lparr>fs := s, auc_count := k\<rparr>) = users_inv (d\<lparr>fs := s\<rparr>)"
  "user_view (d\<lparr>fs := s, auc_count := k\<rparr>) = user_view (d\<lparr>fs := s\<rparr>)"
  by (simp add: users_inv_def) (intro ext user_view_cong; simp)

lemma create_success:
  assumes inv: "db_inv d" and n: "auc_count d < 999" and ok: "start_ok uid name fname sv ta now"
    and reg: "user_view d uid = Some r"
    and recv: "as_recv_asset_file m caps fsize c = Inr (0, asset, c')"
  shows "\<exists>d'. create_new_auction uid name fname sv ta fsize now m caps c d = Inr (auc_count d + 1, c', d')
     \<and> db_inv d' \<and> user_view d' = user_view d \<and> auc_count d' = auc_count d + 1
     \<and> start_of (fs d') (next_aid d) uid name fname sv ta now
     \<and> fs_get (fs d') (asset_path (next_aid d) fname) = Some (File asset)
     \<and> fs_get (fs d') (hosted_path uid (next_aid d)) \<noteq> None
     \<and> bid_set (fs d') (next_aid d) = {} \<and> fs_get (fs d') (end_path (next_aid d)) = None
     \<and> (\<forall>q. take 2 q \<noteq> [''AUCTIONS'', next_aid d] \<longrightarrow> q \<noteq> hosted_path uid (next_aid d) \<longrightarrow>
            fs_get (fs d') q = fs_get (fs d) q)"
proof -
  note I = db_invD [OF inv] and a = next_aid [OF inv n]
  note p = valid_aid_paths [OF a(1)]
  let ?a = "next_aid d"
  let ?info = "start_info uid name fname sv ta now"
  let ?s = "being_created ?a ?info fname asset (fs d)"
  note wf = being_created_ok [OF inv n, of ?info fname asset]
  have uid: "is_valid_uid uid" and fname: "is_valid_fname fname" and now: "now \<noteq> - 1"
    using ok by (auto simp: start_ok_def)
  obtain pw l where v: "user_view d uid = Some (pw, l)" using reg by (cases r) auto
  have g: "fs_get ?s q = (if q = asset_path ?a fname then Some (File asset) else if q = start_path ?a then Some (File ?info)
      else if q = [''AUCTIONS'', ?a, ''ASSET''] \<or> q = [''AUCTIONS'', ?a, ''BIDS''] \<or> q = [''AUCTIONS'', ?a] then Some Dir
      else fs_get (fs d) q)" for q
    using being_created_get [OF a(1)] .
  have h: "hosted_path uid ?a = [''USERS'', uid, ''HOSTED'', ?a @ ''.txt'']" by (simp add: hosted_path_def)
  have hd: "fs_get ?s [''USERS'', uid, ''HOSTED''] = Some Dir" "fs_get ?s (hosted_path uid ?a) \<noteq> Some Dir"
    using user_view_SomeD(6) [OF I(1) uid v] I(5) by (simp_all add: g h p asset_path_def)
  obtain s where s: "sys_creat (hosted_path uid ?a) ?s = Inr s" "healthy s" "fs_wf s"
    "\<And>q. fs_get s q = (if q = hosted_path uid ?a \<and> fs_get ?s (hosted_path uid ?a) = None then Some (File []) else fs_get ?s q)"
    using sys_creat_spec [OF wf, of "hosted_path uid ?a"] hd by (auto simp: h)
  let ?d = "d\<lparr>fs := s, auc_count := auc_count d + 1\<rparr>"
  have r: "create_new_auction uid name fname sv ta fsize now m caps c d = Inr (auc_count d + 1, c', ?d)"
    using create_new_auction_steps [OF inv n fname now] recv s(1) valid_uid_paths(2) [OF uid]
    by (simp add: h Let_def)
  have sg: "fs_get s q = fs_get ?s q" if "q \<noteq> hosted_path uid ?a" for q using that by (simp add: s(4))
  have other: "fs_get s q = fs_get (fs d) q" if "take 2 q \<noteq> [''AUCTIONS'', ?a]" "q \<noteq> hosted_path uid ?a" for q
    using that by (auto simp: sg g p asset_path_def)
  have new: "fs_get s ([''AUCTIONS'', ?a] @ q) = fs_get ?s ([''AUCTIONS'', ?a] @ q)" for q
    by (intro sg) (simp add: h)
  have st: "start_of s ?a uid name fname sv ta now"
    using ok new [of "[''START_'' @ ?a @ ''.txt'']"] by (simp add: start_of_def p g asset_path_def)
  have as: "fs_get s (asset_path ?a fname) = Some (File asset)"
    using new [of "[''ASSET'', fname]"] by (simp add: g asset_path_def)
  have nobid: "fs_get s (bids_dir ?a @ [x]) = None" for x
    using new [of "[''BIDS'', x]"] a(4) [of "[''BIDS'', x]"] by (simp add: g p asset_path_def)
  have noend: "fs_get s (end_path ?a) = None"
    using new [of "[''END_'' @ ?a @ ''.txt'']"] a(4) [of "[''END_'' @ ?a @ ''.txt'']"] by (simp add: g p asset_path_def)
  have dirs: "fs_get s [''AUCTIONS'', ?a] = Some Dir" "fs_get s (bids_dir ?a) = Some Dir"
    using new [of "[]"] new [of "[''BIDS'']"] by (simp_all add: g p asset_path_def)
  have "bids_ok s ?a" "end_ok s ?a" using nobid noend dirs by (simp_all add: bids_ok_def end_ok_def)
  then have aok: "auction_ok s ?a" using st as unfolding auction_ok_def by blast
  have us: "users_inv (d\<lparr>fs := s\<rparr>) \<and> user_view (d\<lparr>fs := s\<rparr>) = user_view d"
    using I(1) s(2,3) by (intro users_inv_short other) (auto simp: h dest: take_2_hd)
  have "users_inv ?d" "user_view ?d = user_view d"
    using us by simp_all
  moreover have "db_inv ?d"
  proof (rule db_invI)
    show "users_inv ?d" by fact
    show "fs_get (fs ?d) [''USERS'', u, x, y] \<noteq> Some Dir" for u x y
    proof (cases "[''USERS'', u, x, y] = hosted_path uid ?a")
      case True
      then show ?thesis using hd(2) by (auto simp: s(4))
    next
      case False
      then show ?thesis using other [of "[''USERS'', u, x, y]"] I(5) by simp
    qed
    show "fs_get (fs ?d) [''AUCTIONS''] = Some Dir" using I(4) other [of "[''AUCTIONS'']"] by (simp add: h)
    fix b
    assume b: "is_valid_aid b"
    have ex: "exists_auction b ?d \<longleftrightarrow> exists_auction b d \<or> b = ?a" using exists_next [OF inv n b] by simp
    have ob: "fs_get s [''AUCTIONS'', b] = fs_get (fs d) [''AUCTIONS'', b]" "auction_ok s b = auction_ok (fs d) b"
      if "b \<noteq> ?a" using that by (auto intro!: auction_ok_cong b other simp: h)
    show "fs_get (fs ?d) [''AUCTIONS'', b] = Some Dir \<and> auction_ok (fs ?d) b" if "exists_auction b ?d"
      using that ex ob dirs aok I(6,7) [OF b] by (cases "b = ?a") auto
    show "fs_get (fs ?d) [''AUCTIONS'', b] = None" if "\<not> exists_auction b ?d"
      using that ex ob I(8) [OF b] by auto
  next
    show "is_valid_aid x" if "fs_get (fs ?d) [''AUCTIONS'', x] \<noteq> None" for x
      using that other [of "[''AUCTIONS'', x]"] I(9) [of x] a(1) by (cases "x = ?a") (auto simp: h)
  qed (use I(10) n in simp_all)
  moreover have "bid_set s ?a = {}" using nobid by (simp add: bid_set_def bid_path_def)
  moreover have "fs_get s (hosted_path uid ?a) \<noteq> None" by (simp add: s(4))
  ultimately show ?thesis using r st as noend other by (intro exI [of _ ?d]) simp
qed

section \<open>Failure\<close>

lemma db_inv_cong:
  assumes inv: "db_inv d" and h: "healthy (fs e)" "fs_wf (fs e)" and c: "auc_count e = auc_count d"
    and same: "fs_get (fs e) = fs_get (fs d)"
  shows "db_inv e" "user_view e = user_view d"
proof -
  note I = db_invD [OF inv]
  have ex: "exists_auction a e = exists_auction a d" for a using c by (simp add: exists_auction_def)
  have uok: "user_ok (fs e) u = user_ok (fs d) u" for u by (intro user_ok_cong) (simp_all add: same)
  have aok: "auction_ok (fs e) a = auction_ok (fs d) a" for a by (simp add: auction_ok_def bids_ok_def start_of_def end_ok_def same)
  have "users_inv e" using I(1) h uok by (simp add: users_inv_def same)
  then show "db_inv e"
  proof (rule db_invI)
    show "is_valid_aid x" if "fs_get (fs e) [''AUCTIONS'', x] \<noteq> None" for x
      using that unfolding same by (rule I(9))
    fix a
    assume a: "is_valid_aid a"
    show "fs_get (fs e) [''AUCTIONS'', a] = Some Dir \<and> auction_ok (fs e) a" if "exists_auction a e"
      using that I(6,7) [OF a] unfolding same ex aok by blast
    show "fs_get (fs e) [''AUCTIONS'', a] = None" if "\<not> exists_auction a e"
      using that I(8) [OF a] unfolding same ex by blast
  qed (use I(4,5,10,11) in \<open>simp_all only: same c not_False_eq_True\<close>)
  show "user_view e = user_view d" by (intro ext user_view_cong) (simp_all add: same)
qed

lemma create_failure:
  assumes inv: "db_inv d" and n: "auc_count d < 999" and fname: "is_valid_fname fname" and now: "now \<noteq> - 1"
    and recv: "as_recv_asset_file m caps fsize c = Inr (rc, content, c')" "rc \<noteq> 0"
  shows "\<exists>d'. create_new_auction uid name fname sv ta fsize now m caps c d = Inr (- 1, c', d')
     \<and> db_inv d' \<and> user_view d' = user_view d \<and> auc_count d' = auc_count d \<and> fs_get (fs d') = fs_get (fs d)"
proof -
  note I = db_invD [OF inv] and a = next_aid [OF inv n]
  note p = valid_aid_paths [OF a(1)]
  let ?a = "next_aid d"
  let ?info = "start_info uid name fname sv ta now"
  let ?s = "being_created ?a ?info fname content (fs d)"
  note wf = being_created_ok [OF inv n, of ?info fname content]
  let ?d1 = "d\<lparr>fs := ?s, auc_count := auc_count d + 1\<rparr>"
  have dir: "[''AUCTIONS'', ?a] = auc_dir (auc_count ?d1)" by (simp add: auc_dir_def next_aid_def)
  have none: "fs_get (fs d) [''AUCTIONS'', ?a] = None" "fs_get (fs d) [''AUCTIONS'', ?a, x] = None"
    "fs_get (fs d) [''AUCTIONS'', ?a, x, y] = None" for x y
    using a(4) [of "[]"] a(4) [of "[x]"] a(4) [of "[x, y]"] by simp_all
  have g: "fs_get ?s q = (if q = asset_path ?a fname then Some (File content) else if q = start_path ?a then Some (File ?info)
      else if q = [''AUCTIONS'', ?a, ''ASSET''] \<or> q = [''AUCTIONS'', ?a, ''BIDS''] \<or> q = [''AUCTIONS'', ?a] then Some Dir
      else fs_get (fs d) q)" for q
    using being_created_get [OF a(1)] .
  have nh: "\<not> hidden fname" "\<not> hidden (''START_'' @ ?a @ ''.txt'')"
    using fname by (cases fname; simp add: hidden_def is_valid_fname_iff)+
  have "\<exists>s. rollback_auction_dir_creation ?d1 = ?d1\<lparr>fs := s, auc_count := auc_count ?d1 - 1\<rparr> \<and> healthy s \<and> fs_wf s
     \<and> (\<forall>q. fs_get s q = (if take 2 q = [''AUCTIONS'', ?a] then None else fs_get (fs ?d1) q))"
    by (rule rollback_spec [OF _ _ dir]) (use wf nh in \<open>auto simp: g none p asset_path_def split: if_splits\<close>)
  then obtain s where s: "rollback_auction_dir_creation ?d1 = d\<lparr>fs := s, auc_count := auc_count d\<rparr>" "healthy s" "fs_wf s"
     "\<And>q. fs_get s q = (if take 2 q = [''AUCTIONS'', ?a] then None else fs_get ?s q)"
    by auto
  have "fs_get s q = fs_get (fs d) q" for q
  proof (cases "take 2 q = [''AUCTIONS'', ?a]")
    case True
    then have "fs_get (fs d) q = None" using below_none_take [OF I(3) none(1), of q] by (simp add: numeral_2_eq_2)
    with True show ?thesis by (simp add: s(4))
  next
    case False
    then have "fs_get ?s q = fs_get (fs d) q" by (auto simp: g p asset_path_def)
    with False show ?thesis by (simp add: s(4))
  qed
  then have same: "fs_get s = fs_get (fs d)" by (rule ext)
  have r: "create_new_auction uid name fname sv ta fsize now m caps c d = Inr (- 1, c', d\<lparr>fs := s, auc_count := auc_count d\<rparr>)"
    using create_new_auction_steps [OF inv n fname now] recv s(1) by (simp add: Let_def)
  show ?thesis
    using r same db_inv_cong [OF inv, of "d\<lparr>fs := s, auc_count := auc_count d\<rparr>"] s(2,3)
    by (intro exI [of _ "d\<lparr>fs := s, auc_count := auc_count d\<rparr>"]) simp
qed

section \<open>An example\<close>

text \<open>Two users and one auction of the first, created on the empty database.\<close>

lemma create_sound:
  assumes d: "sound d" and n: "auc_count d < 999" and ok: "start_ok uid name fname sv ta now" and t: "now + ta < 2 ^ 31"
    and reg: "user_view d uid = Some r" and recv: "as_recv_asset_file m caps fsize c = Inr (0, asset, c')"
  shows "\<exists>d'. create_new_auction uid name fname sv ta fsize now m caps c d = Inr (auc_count d + 1, c', d')
     \<and> sound d' \<and> user_view d' = user_view d \<and> auc_count d' = auc_count d + 1
     \<and> start_of (fs d') (next_aid d) uid name fname sv ta now
     \<and> fs_get (fs d') (asset_path (next_aid d) fname) = Some (File asset)
     \<and> bid_set (fs d') (next_aid d) = {} \<and> fs_get (fs d') (end_path (next_aid d)) = None"
proof -
  have inv: "db_inv d" "clock_ok d" using d by (simp_all add: sound_def)
  obtain d' where d': "create_new_auction uid name fname sv ta fsize now m caps c d = Inr (auc_count d + 1, c', d')"
    "db_inv d'" "user_view d' = user_view d" "auc_count d' = auc_count d + 1"
    "start_of (fs d') (next_aid d) uid name fname sv ta now"
    "fs_get (fs d') (asset_path (next_aid d) fname) = Some (File asset)"
    "bid_set (fs d') (next_aid d) = {}" "fs_get (fs d') (end_path (next_aid d)) = None"
    "\<And>q. take 2 q \<noteq> [''AUCTIONS'', next_aid d] \<Longrightarrow> q \<noteq> hosted_path uid (next_aid d) \<Longrightarrow>
       fs_get (fs d') q = fs_get (fs d) q"
    using create_success [OF inv(1) n ok reg recv] by blast
  have "clock_ok d'" unfolding clock_ok_def
  proof (intro allI impI)
    fix a
    assume a: "is_valid_aid a" "exists_auction a d'"
    show "fst (auction_times (fs d') a) + snd (auction_times (fs d') a) < 2 ^ 31"
    proof (cases "a = next_aid d")
      case True
      then show ?thesis using auction_times_start [OF d'(5)] t by simp
    next
      case False
      then have "fs_get (fs d') (start_path a) = fs_get (fs d) (start_path a)"
        by (intro d'(9)) (auto simp: valid_aid_paths [OF a(1)] hosted_path_def)
      then have "auction_times (fs d') a = auction_times (fs d) a" by (simp add: auction_times_def)
      then show ?thesis using False inv(2) exists_next [OF inv(1) n a(1) d'(4)] a by (simp add: clock_ok_def)
    qed
  qed
  then show ?thesis using d' unfolding sound_def by blast
qed

lemma example_fields:
  "is_valid_uid ''123456''" "is_valid_uid ''654321''" "is_valid_passwd ''password''" "is_valid_passwd ''PASSWORD''"
  "is_valid_aid ''001''" "start_ok ''123456'' ''lamp'' ''lamp.jpg'' 10 3600 1700000000"
proof -
  show "is_valid_uid ''123456''" "is_valid_uid ''654321''" "is_valid_passwd ''password''" "is_valid_passwd ''PASSWORD''"
    "is_valid_aid ''001''"
    by (simp_all add: is_valid_uid_iff is_valid_passwd_iff is_valid_aid_iff isdigit_def isalnum_def isalpha_def)
  then show "start_ok ''123456'' ''lamp'' ''lamp.jpg'' 10 3600 1700000000"
    by (simp add: start_ok_def clean_word_def is_valid_name_iff is_valid_name_char_def isalnum_def isalpha_def
        is_valid_fname_iff is_valid_path_char_def)
qed

lemma example_asset:
  "as_recv_asset_file (\<lambda>_. NUL) [] 4 (idle_conn\<lparr>rx := [''data'', [LF]]\<rparr>) = Inr (0, ''data'', idle_conn)"
  by (simp add: as_recv_asset_file_def recv_asset_loop.simps recv_def idle_conn_def BUFF_SZ_def Let_def
      recv_last_block_def mem_store_def write_block.simps mem_slice_def transfer_def upt_conv_Cons)

definition two_users :: db where
  "two_users = snd (register_user ''654321'' ''PASSWORD'' (snd (register_user ''123456'' ''password'' empty_db)))"

definition lamp_db :: db where
  "lamp_db = (case create_new_auction ''123456'' ''lamp'' ''lamp.jpg'' 10 3600 4 1700000000 (\<lambda>_. NUL) []
       (idle_conn\<lparr>rx := [''data'', [LF]]\<rparr>) two_users of
     Inl _ \<Rightarrow> two_users
   | Inr (_, _, d) \<Rightarrow> d)"

lemma two_users:
  "sound two_users" "auc_count two_users = 0" "user_view two_users ''123456'' = Some (''password'', True)"
  "user_view two_users ''654321'' = Some (''PASSWORD'', True)"
proof -
  note f = example_fields
  obtain d1 where d1: "register_user ''123456'' ''password'' empty_db = (0, d1)" "sound d1"
    "user_view d1 = (user_view empty_db)(''123456'' \<mapsto> (''password'', True))"
    using account_ops_sound(3) [OF empty_db_sound f(1,3) empty_db_inv(2)] by blast
  have "user_view d1 ''654321'' = None" using d1(3) empty_db_inv(2) by simp
  then obtain d2 where d2: "register_user ''654321'' ''PASSWORD'' d1 = (0, d2)" "sound d2"
    "user_view d2 = (user_view d1)(''654321'' \<mapsto> (''PASSWORD'', True))"
    using account_ops_sound(3) [OF d1(2) f(2,4)] by blast
  have eq: "two_users = d2" using d1(1) d2(1) by (simp add: two_users_def)
  show "sound two_users" "user_view two_users ''123456'' = Some (''password'', True)"
    "user_view two_users ''654321'' = Some (''PASSWORD'', True)"
    using d1(3) d2(2,3) by (simp_all add: eq)
  show "auc_count two_users = 0" by (simp add: two_users_def account_op_count, simp add: empty_db_def)
qed

lemma next_aid_two_users: "next_aid two_users = ''001''"
proof -
  have "fmt_0d 3 1 = ''001''" by code_simp
  then show ?thesis by (simp add: next_aid_def two_users(2))
qed

lemma lamp_db:
  "sound lamp_db" "exists_auction ''001'' lamp_db" "auc_count lamp_db = 1"
  "start_of (fs lamp_db) ''001'' ''123456'' ''lamp'' ''lamp.jpg'' 10 3600 1700000000"
  "fs_get (fs lamp_db) (asset_path ''001'' ''lamp.jpg'') = Some (File ''data'')"
  "user_view lamp_db ''123456'' = Some (''password'', True)" "user_view lamp_db ''654321'' = Some (''PASSWORD'', True)"
  "bid_set (fs lamp_db) ''001'' = {}" "fs_get (fs lamp_db) (end_path ''001'') = None"
proof -
  note n = two_users(2) and a = next_aid_two_users
  obtain d where d: "create_new_auction ''123456'' ''lamp'' ''lamp.jpg'' 10 3600 4 1700000000 (\<lambda>_. NUL) []
       (idle_conn\<lparr>rx := [''data'', [LF]]\<rparr>) two_users = Inr (1, idle_conn, d)"
     "sound d" "user_view d = user_view two_users" "auc_count d = 1"
     "start_of (fs d) ''001'' ''123456'' ''lamp'' ''lamp.jpg'' 10 3600 1700000000"
     "fs_get (fs d) (asset_path ''001'' ''lamp.jpg'') = Some (File ''data'')"
     "bid_set (fs d) ''001'' = {}" "fs_get (fs d) (end_path ''001'') = None"
    using create_sound [OF two_users(1) _ example_fields(6) _ two_users(3) example_asset] n a by auto
  have eq: "lamp_db = d" using d(1) by (simp add: lamp_db_def)
  show "sound lamp_db" "auc_count lamp_db = 1" "bid_set (fs lamp_db) ''001'' = {}"
    "start_of (fs lamp_db) ''001'' ''123456'' ''lamp'' ''lamp.jpg'' 10 3600 1700000000"
    "fs_get (fs lamp_db) (asset_path ''001'' ''lamp.jpg'') = Some (File ''data'')"
    "fs_get (fs lamp_db) (end_path ''001'') = None"
    by (simp_all only: eq d)
  show "exists_auction ''001'' lamp_db"
    using d(4) by (simp add: eq exists_auction_def atoi_def strtol10_def isspace_def isdigit_def digit_val_def c_int_id)
  show "user_view lamp_db ''123456'' = Some (''password'', True)" "user_view lamp_db ''654321'' = Some (''PASSWORD'', True)"
    by (simp_all add: eq d(3) two_users)
qed

end
