(* ===== verification/AuctionLists.thy ===== *)
theory AuctionLists
  imports AuctionCreation
begin

text \<open>
  The two lists whose order matters: the auctions of \<open>LST\<close>, and the bids of an auction in
  \<open>get_auction_bidders_list\<close>, with the record of its end.
\<close>

section \<open>Sorted names\<close>

lemma sort_image:
  fixes f :: "int \<Rightarrow> string"
  assumes "finite S" "distinct xs" "set xs = f ` S"
    and mono: "\<And>v w. v \<in> S \<Longrightarrow> w \<in> S \<Longrightarrow> v < w \<Longrightarrow> f v < f w"
  shows "sort xs = map f (sorted_list_of_set S)"
proof (rule sorted_distinct_set_unique)
  let ?L = "sorted_list_of_set S"
  have L: "set ?L = S" "sorted ?L" "distinct ?L" using assms(1) by simp_all
  have le: "v \<in> S \<Longrightarrow> w \<in> S \<Longrightarrow> v \<le> w \<Longrightarrow> f v \<le> f w" for v w
    using mono [of v w] by (cases "v = w") auto
  show "sorted (map f ?L)" using L le by (auto simp: sorted_map intro: sorted_wrt_mono_rel [of _ "(\<le>)"])
  have "inj_on f S" using mono by (metis inj_onI linorder_neqE order_less_irrefl)
  then show "distinct (map f ?L)" using L by (simp add: distinct_map)
  show "set (sort xs) = set (map f ?L)" using assms(3) L by simp
qed (use assms(2) in simp_all)

lemma visible_names:
  assumes "\<forall>x \<in> set xs. \<not> hidden x"
  shows "filter (\<lambda>x. \<not> hidden x) (''.'' # ''..'' # xs) = xs"
  using assms by (simp add: hidden_def)

section \<open>The list of auctions\<close>

definition auction_word :: "fsys \<Rightarrow> int \<Rightarrow> string" where
  "auction_word s n = '' '' @ fmt_0d 3 n @ (if fs_get s (end_path (fmt_0d 3 n)) = None then '' 1'' else '' 0'')"

lemma exists_auction_range:
  "is_valid_aid a \<Longrightarrow> exists_auction a d \<longleftrightarrow> (\<exists>n. a = fmt_0d 3 n \<and> 1 \<le> n \<and> n \<le> auc_count d \<and> n \<le> 999)"
proof -
  assume a: "is_valid_aid a"
  have "atoi a = n \<Longrightarrow> a = fmt_0d 3 n" for n using fmt_0d_atoi_aid [OF a] by auto
  moreover have "1 \<le> n \<Longrightarrow> n \<le> 999 \<Longrightarrow> atoi (fmt_0d 3 n) = n" for n by (simp add: atoi_fmt_0d)
  ultimately show ?thesis using valid_aid_atoi [OF a] by (force simp: exists_auction_def Let_def)
qed

lemma set_auction_names:
  assumes inv: "db_inv d"
  shows "set (fs_names [''AUCTIONS''] (fs d)) = fmt_0d 3 ` {1..auc_count d}"
proof (rule set_eqI)
  fix x
  note I = db_invD [OF inv]
  have "x \<in> set (fs_names [''AUCTIONS''] (fs d)) \<longleftrightarrow> is_valid_aid x \<and> exists_auction x d"
    using I(6,8) [of x] I(9) [of x] unfolding set_fs_names append_Cons append_Nil by (metis option.distinct(1))
  moreover have "1 \<le> n \<Longrightarrow> n \<le> auc_count d \<Longrightarrow> is_valid_aid (fmt_0d 3 n)" for n
    using I(11) by (simp add: fmt_0d_valid_aid)
  ultimately show "x \<in> set (fs_names [''AUCTIONS''] (fs d)) \<longleftrightarrow> x \<in> fmt_0d 3 ` {1..auc_count d}"
    using exists_auction_range [of x d] I(11) by auto
qed

lemma auctions_list_spec:
  assumes inv: "db_inv d"
  shows "get_auctions_list d = Some (concat (map (auction_word (fs d)) [1..auc_count d]) @ [LF])"
proof -
  note I = db_invD [OF inv]
  let ?names = "fs_names [''AUCTIONS''] (fs d)"
  have in_names: "x \<in> set ?names \<longleftrightarrow> is_valid_aid x \<and> exists_auction x d" for x
    using I(6,8) [of x] I(9) [of x] unfolding set_fs_names append_Cons append_Nil by (metis option.distinct(1))
  have set: "set ?names = fmt_0d 3 ` {1..auc_count d}" using set_auction_names [OF inv] .
  have gt: "\<forall>x \<in> set ?names. ''..'' < x"
  proof
    fix x
    assume "x \<in> set ?names"
    then have "is_valid_aid x" by (simp add: in_names)
    then obtain c cs where c: "x = c # cs" "isdigit c" by (cases x) (auto simp: is_valid_aid_iff)
    then have "CHR ''.'' < c" by (simp add: isdigit_def less_char_def del: less_char_simp)
    then show "''..'' < x" using c by simp
  qed
  have "sort ?names = map (fmt_0d 3) (sorted_list_of_set {1..auc_count d})"
    using I(3,11) by (intro sort_image set) (auto simp: distinct_fs_names fmt_0d_less)
  then have srt: "sort ?names = map (fmt_0d 3) [1..auc_count d]" by simp
  have vis: "filter (\<lambda>x. \<not> hidden x) (''.'' # ''..'' # sort ?names) = sort ?names"
    using in_names valid_aid_not_hidden by (intro visible_names) auto
  have scan: "sys_scandir [''AUCTIONS''] (fs d) = Some (''.'' # ''..'' # sort ?names)"
    by (simp only: sys_scandir_def sys_readdir_healthy [OF I(2,4)] option.map sort_dots [OF gt])
  have word: "auc_status (fs d) (fmt_0d 3 n) = auction_word (fs d) n" if "n \<in> {1..auc_count d}" for n
  proof -
    have "is_valid_aid (fmt_0d 3 n)" using that I(11) by (simp add: fmt_0d_valid_aid)
    then show ?thesis using sys_can_read_healthy [OF I(2)]
      by (simp add: auc_status_def auction_word_def valid_aid_paths(2,6))
  qed
  have "map (auc_status (fs d)) (sort ?names) = map (auction_word (fs d)) [1..auc_count d]"
    unfolding srt by (simp add: word)
  then show ?thesis using scan vis by (simp only: get_auctions_list_def option.case)
qed

section \<open>The bids of an auction\<close>

definition bid_text :: "int \<Rightarrow> string \<Rightarrow> string" where
  "bid_text v c = '' B '' @ take 6 c @ '' '' @ fmt_d v @ butlast (drop 6 c)"

definition bid_line :: "fsys \<Rightarrow> string \<Rightarrow> int \<Rightarrow> string" where
  "bid_line s a v = (case fs_get s (bid_path a v) of Some (File c) \<Rightarrow> bid_text v c | _ \<Rightarrow> [])"

definition end_text :: "fsys \<Rightarrow> string \<Rightarrow> string" where
  "end_text s a =
     (case fs_get s (end_path a) of Some (File c) \<Rightarrow> '' E '' @ (if last c = LF then butlast c else c) | _ \<Rightarrow> [])"

definition last_50 :: "fsys \<Rightarrow> string \<Rightarrow> int list" where
  "last_50 s a = (let L = sorted_list_of_set (bid_set s a) in drop (length L - 50) L)"

lemma clean_fmt_d_any: "clean_word (fmt_d i)"
proof (cases "i < 0")
  case True
  then have "fmt_d i = CHR ''-'' # fmt_d (- i)" by (simp add: fmt_d_def)
  then show ?thesis using clean_fmt_d [of "- i"] True by (auto simp: clean_word_def)
next
  case False
  then show ?thesis by (simp add: clean_fmt_d)
qed

lemma fmt_d_secs_length: "secs_ok x \<Longrightarrow> length (fmt_d x) \<le> 13"
proof (cases "x < 0")
  case True
  assume "secs_ok x"
  then have "length (fmt_d (- x)) \<le> 12" using True by (intro fmt_d_length_le) (auto simp: secs_ok_def)
  then show ?thesis using True by (simp add: fmt_d_def)
next
  case False
  assume "secs_ok x"
  then have "length (fmt_d x) \<le> 12" using False by (intro fmt_d_length_le) (auto simp: secs_ok_def)
  then show ?thesis by simp
qed

lemma bid_info_words:
  "is_valid_uid u \<Longrightarrow> bid_info u t x =
     u @ SP # date_word (gmtime t) @ SP # time_word (gmtime t) @ SP # fmt_d x @ [LF]"
  by (simp add: bid_info_def datetime_str_def valid_uid_paths)

lemma bid_info_fgets:
  assumes u: "is_valid_uid u" and t: "time_ok t" and x: "secs_ok x" and f: "fs_get s p = Some (File (bid_info u t x))"
  shows "sys_fgets 128 p s = Some (bid_info u t x)"
proof -
  let ?b = "u @ SP # date_word (gmtime t) @ SP # time_word (gmtime t) @ SP # fmt_d x"
  have tm: "tm_ok (gmtime t)" using t gmtime_ok by (simp add: time_ok_def)
  have c: "clean_word u" "clean_word (date_word (gmtime t))" "clean_word (time_word (gmtime t))" "clean_word (fmt_d x)"
    using u tm clean_valid clean_date clean_time clean_fmt_d_any by auto
  have b: "bid_info u t x = ?b @ [LF]" using u by (simp add: bid_info_words)
  have lf: "LF \<notin> set ?b" and nul: "NUL \<notin> set (?b @ [LF])" using c by (simp_all add: clean_word_def)
  have len: "length ?b + 1 < 128"
    using u date_word_clean [OF tm] time_word_clean [OF tm] fmt_d_secs_length [OF x] by (simp add: is_valid_uid_iff)
  show ?thesis using f first_line_lf [OF lf len] nul unfolding b by (simp add: sys_fgets_def cstr_no_nul)
qed

lemma bid_entry_spec:
  assumes u: "is_valid_uid u" and t: "time_ok t" and x: "secs_ok x" and v: "1 \<le> v" "v \<le> 999999"
  shows "bid_entry (fmt_0d 6 v @ ''.txt'') (bid_info u t x) = Inr (Some (bid_text v (bid_info u t x)))"
proof -
  have tm: "tm_ok (gmtime t)" using t gmtime_ok by (simp add: time_ok_def)
  have c: "clean_word u" "clean_word (date_word (gmtime t))" "clean_word (time_word (gmtime t))" "clean_word (fmt_d x)"
    using u tm clean_valid clean_date clean_time clean_fmt_d_any by auto
  have lv: "length (fmt_d v) \<le> 6" using v by (intro fmt_d_length_le) auto
  have u6: "take 6 u = u" "length u = 6" using u valid_uid_paths [OF u] by (simp_all add: is_valid_uid_iff)
  have e: "bid_text v (bid_info u t x) = '' B '' @ u @ '' '' @ fmt_d v @ '' '' @ date_word (gmtime t) @ '' ''
      @ time_word (gmtime t) @ '' '' @ fmt_d x"
    using u u6 by (simp add: bid_text_def bid_info_words butlast_append)
  have "length (bid_text v (bid_info u t x)) < 128"
    using u6 date_word_clean [OF tm] time_word_clean [OF tm] fmt_d_secs_length [OF x] lv by (simp add: e)
  then show ?thesis
    using u v c tm u6 scan_bid_value_name [of v]
    unfolding e by (simp add: bid_entry_def bid_info_words strtok_word strtok_line date_time_words_valid Let_def)
qed

lemma bid_entries_spec:
  assumes h: "healthy s" and a: "is_valid_aid a" and ok: "bids_ok s a" and vs: "set vs \<subseteq> bid_set s a"
  shows "bid_entries a s stale (map (\<lambda>v. fmt_0d 6 v @ ''.txt'') vs) = Inr (concat (map (bid_line s a) vs))"
  using vs
proof (induction vs arbitrary: stale)
  case Nil
  then show ?case by simp
next
  case (Cons v vs)
  then have v: "1 \<le> v" "v \<le> 999999" "fs_get s (bid_path a v) \<noteq> None" by (auto simp: bid_set_def)
  obtain w c where wc: "fmt_0d 6 v @ ''.txt'' = fmt_0d 6 w @ ''.txt''" "fs_get s (bid_path a v) = Some (File c)"
    "bid_record_ok c" using ok v(3) unfolding bids_ok_def bid_path_def by blast
  then obtain u t x where u: "is_valid_uid u" "time_ok t" "secs_ok x" "c = bid_info u t x"
    unfolding bid_record_ok_def by blast
  have p: "[''AUCTIONS'', take 3 a, ''BIDS'', take 10 (fmt_0d 6 v @ ''.txt'')] = bid_path a v"
    using v by (simp add: valid_aid_paths [OF a] fmt_0d_length)
  have "sys_can_read (bid_path a v) s" "sys_fgets 128 (bid_path a v) s = Some c"
    using h wc(2) u bid_info_fgets [of u t x s "bid_path a v"] by (simp_all add: sys_can_read_healthy)
  moreover have "bid_entry (fmt_0d 6 v @ ''.txt'') c = Inr (Some (bid_line s a v))"
    using bid_entry_spec [OF u(1-3) v(1,2)] wc(2) u(4) by (simp add: bid_line_def)
  ultimately show ?case
    using Cons.IH [of "Some (after_strtok c)"] Cons.prems p by (simp add: Let_def)
qed

lemma end_entry_spec:
  assumes h: "healthy s" and a: "is_valid_aid a" and ok: "end_ok s a"
  shows "end_entry a s = Inr (end_text s a)"
proof (cases "fs_get s (end_path a)")
  case None
  then show ?thesis using h by (simp add: end_entry_def end_text_def valid_aid_paths(6) [OF a] sys_can_read_healthy)
next
  case (Some n)
  then obtain c where c: "fs_get s (end_path a) = Some (File c)" "end_record_ok c"
    using ok by (auto simp: end_ok_def split: node.splits)
  then obtain t x where t: "time_ok t" "secs_ok x" and ce: "c = end_info t x \<or> c = end_info t x @ [LF]"
    unfolding end_record_ok_def by blast
  have tm: "tm_ok (gmtime t)" using t gmtime_ok by (simp add: time_ok_def)
  let ?d = "date_word (gmtime t)"
  let ?m = "time_word (gmtime t)"
  have w: "clean_word ?d" "clean_word ?m" "clean_word (fmt_d x)" using tm clean_date clean_time clean_fmt_d_any by auto
  have e: "end_info t x = ?d @ SP # ?m @ SP # fmt_d x" by (simp add: end_info_def datetime_str_def)
  have lf: "LF \<notin> set (end_info t x)" "NUL \<notin> set (end_info t x)" using w by (simp_all add: e clean_word_def)
  have len: "length (end_info t x) + 1 < 100"
    using date_word_clean [OF tm] time_word_clean [OF tm] fmt_d_secs_length [OF t(2)] by (simp add: e)
  have ne: "end_info t x \<noteq> []" by (simp add: e)
  have "last (end_info t x) \<in> set (end_info t x)" using ne by (rule last_in_set)
  then have last: "last (end_info t x) \<noteq> LF" using lf(1) by auto
  have "sys_fgets 128 (end_path a) s = Some c"
    using ce c(1) first_line_all [of "end_info t x" 128] first_line_lf [of "end_info t x" 128] lf len ne
    by (auto simp: sys_fgets_def cstr_no_nul)
  moreover have "end_text s a = '' E '' @ end_info t x"
    using ce c(1) last by (auto simp: end_text_def)
  moreover have "strtok [LF] (if c = end_info t x then fmt_d x else fmt_d x @ [LF]) = (Some (fmt_d x), [])"
    using w(3) strtok_line strtok_line_end by auto
  ultimately show ?thesis
    using h c(1) ce w tm len strtok_line [OF w(3)] strtok_line_end [OF w(3)]
    by (auto simp: end_entry_def valid_aid_paths(6) [OF a] sys_can_read_healthy e strtok_word date_time_words_valid Let_def)
qed

lemma bidders_list_spec:
  assumes h: "healthy (fs d)" "fs_wf (fs d)" and a: "is_valid_aid a" and ok: "auction_ok (fs d) a"
  shows "get_auction_bidders_list a d =
     Inr (Some (concat (map (bid_line (fs d) a) (last_50 (fs d) a)) @ end_text (fs d) a @ [LF]))"
proof -
  let ?L = "sorted_list_of_set (bid_set (fs d) a)"
  let ?f = "\<lambda>v. fmt_0d 6 v @ ''.txt''"
  let ?names = "fs_names (bids_dir a) (fs d)"
  have bok: "bids_ok (fs d) a" "end_ok (fs d) a" using ok by (simp_all add: auction_ok_def)
  have set: "set ?names = ?f ` bid_set (fs d) a" using bid_names [OF bok(1)] .
  have gt: "\<forall>x \<in> set ?names. ''..'' < x" unfolding set by (auto simp: bid_set_def intro: dots_first)
  have srt: "sort ?names = map ?f ?L"
    using h set by (intro sort_image finite_bid_set) (auto simp: distinct_fs_names bid_set_def bid_name_less)
  have dir: "[''AUCTIONS'', take 3 a, ''BIDS''] = bids_dir a" by (simp add: valid_aid_paths [OF a])
  have scan: "sys_scandir (bids_dir a) (fs d) = Some (''.'' # ''..'' # map ?f ?L)"
    using bok(1) sort_dots [OF gt] srt
    by (simp only: sys_scandir_def sys_readdir_healthy [OF h(1)] bids_ok_def option.map)
  have drop: "drop (if length (''.'' # ''..'' # map ?f ?L) > 52 then length (''.'' # ''..'' # map ?f ?L) - 50 else 2)
      (''.'' # ''..'' # map ?f ?L) = map ?f (last_50 (fs d) a)"
  proof -
    have "(if length (''.'' # ''..'' # map ?f ?L) > 52 then length (''.'' # ''..'' # map ?f ?L) - 50 else 2)
        = Suc (Suc (length ?L - 50))" by auto
    then show ?thesis by (simp only: drop_Suc_Cons last_50_def Let_def drop_map)
  qed
  have sub: "set (last_50 (fs d) a) \<subseteq> bid_set (fs d) a"
    using finite_bid_set [of "fs d" a] set_drop_subset [of _ ?L] by (auto simp: last_50_def Let_def)
  show ?thesis
    using bid_entries_spec [OF h(1) a bok(1) sub] end_entry_spec [OF h(1) a bok(2)]
    unfolding get_auction_bidders_list_def dir scan option.case Let_def drop by simp
qed

end
