(* ===== verification/UdpAuctions.thy ===== *)
theory UdpAuctions
  imports UdpServer AuctionLists
begin

text \<open>
  The UDP commands on auctions, from the datagram to the reply: \<open>LST\<close> and \<open>SRC\<close> on every
  well-formed database, and the requests that crash the server.
\<close>

section \<open>The list of auctions\<close>

lemma udp_round_list:
  assumes "handle_list now [] d = udp_reply msg d'"
  shows "udp_round now (''LST'' @ [LF]) d = Inr (msg, d')"
  using assms by (simp add: udp_round_def handle_udp_command_def get_udp_handler_fn_def udp_command_table_def
    run_udp_handler_def udp_reply_def)

lemma length_concat_pos: "ws \<noteq> [] \<Longrightarrow> \<forall>w \<in> set ws. w \<noteq> [] \<Longrightarrow> concat ws \<noteq> []"
  by (cases ws) auto

lemma list_round:
  assumes inv: "db_inv d" and clock: "clock_ok d"
  shows "\<exists>d'. update_database now d = Inr (0, d') \<and> db_inv d' \<and> auc_count d' = auc_count d
     \<and> udp_round now (''LST'' @ [LF]) d =
         Inr (if auc_count d = 0 then ''RLS NOK'' @ [LF]
              else ''RLS OK'' @ concat (map (auction_word (fs d')) [1..auc_count d]) @ [LF], d')"
proof -
  obtain d' where d': "update_database now d = Inr (0, d')" "db_inv d'" "auc_count d' = auc_count d"
    using update_effect [OF inv clock, of now] by blast
  let ?ws = "map (auction_word (fs d')) [1..auc_count d]"
  have l: "get_auctions_list d' = Some (concat ?ws @ [LF])"
    using auctions_list_spec [OF d'(2)] d'(3) by simp
  have "handle_list now [] d = udp_reply (if auc_count d = 0 then ''RLS NOK'' @ [LF]
              else ''RLS OK'' @ concat ?ws @ [LF]) d'"
  proof (cases "auc_count d = 0")
    case True
    then show ?thesis using d'(1) l by (simp add: handle_list_def)
  next
    case False
    then have "1 \<le> auc_count d" using db_invD(10) [OF inv] by simp
    then have "?ws \<noteq> []" by simp
    moreover have "\<forall>w \<in> set ?ws. w \<noteq> []" by (simp add: auction_word_def)
    ultimately have "length (concat ?ws @ [LF]) \<noteq> 1" using length_concat_pos by force
    then show ?thesis using d'(1) l False by (simp add: handle_list_def)
  qed
  then show ?thesis using d' udp_round_list by blast
qed

text \<open>
  C21. \<open>LST\<close> on a well-formed database first ends the auctions whose time is over and then lists every
  auction exactly once, in the order of the identifiers, with the status 0 exactly for the ended ones;
  it answers \<open>RLS NOK\<close> exactly when there is none.
\<close>

theorem list_reply:
  assumes inv: "db_inv d" and clock: "clock_ok d"
  shows "\<exists>d'. update_database now d = Inr (0, d') \<and> db_inv d' \<and> auc_count d' = auc_count d
     \<and> udp_round now (''LST'' @ [LF]) d =
         Inr (if auc_count d = 0 then ''RLS NOK'' @ [LF]
              else ''RLS OK'' @ concat (map (auction_word (fs d')) [1..auc_count d]) @ [LF], d')"
  using assms by (rule list_round)

text \<open>The effect of \<open>update_database\<close> on the example: nothing within the hour, the end afterwards.\<close>

lemma lamp_times: "auction_times (fs lamp_db) ''001'' = (1700000000, 3600)"
  using auction_times_start [OF lamp_db(4)] .

lemma lamp_inv: "db_inv lamp_db" "clock_ok lamp_db"
  using lamp_db(1) by (simp_all add: sound_def)

lemma lamp_word: "fmt_0d 3 1 = ''001''"
  by code_simp

lemma lamp_update:
  assumes "update_database now lamp_db = Inr (0, d')"
  shows "fs_get (fs d') (end_path ''001'') =
           (if 1700003600 \<le> now then Some (File (expiry_record (fs lamp_db) ''001'')) else None)"
    "bid_set (fs d') ''001'' = {}" "auc_count d' = 1"
proof -
  obtain e where e: "update_database now lamp_db = Inr (0, e)" "auc_count e = auc_count lamp_db"
    "\<And>a. is_valid_aid a \<Longrightarrow> fs_get (fs e) (end_path a) =
          (if exists_auction a lamp_db \<and> fs_get (fs lamp_db) (end_path a) = None \<and> expired now (fs lamp_db) a
           then Some (File (expiry_record (fs lamp_db) a)) else fs_get (fs lamp_db) (end_path a))"
    "\<And>q. (\<forall>a. is_valid_aid a \<longrightarrow> q \<noteq> end_path a) \<Longrightarrow> fs_get (fs e) q = fs_get (fs lamp_db) q"
    using update_effect [OF lamp_inv, of now] by blast
  have eq: "e = d'" using e(1) assms by simp
  have x: "expired now (fs lamp_db) ''001'' \<longleftrightarrow> 1700003600 \<le> now" by (simp add: expired_def lamp_times)
  show "fs_get (fs d') (end_path ''001'') =
           (if 1700003600 \<le> now then Some (File (expiry_record (fs lamp_db) ''001'')) else None)"
    using e(3) [OF example_fields(5)] x lamp_db(2,9) by (simp add: eq)
  have "bid_path ''001'' v \<noteq> end_path a" for v a by (simp add: auc_paths)
  then show "bid_set (fs d') ''001'' = {}" using e(4) lamp_db(8) by (simp add: eq bid_set_def)
  show "auc_count d' = 1" using e(2) lamp_db(3) by (simp add: eq)
qed

theorem list_reply_witness:
  "(\<exists>d'. udp_round 1700000001 (''LST'' @ [LF]) lamp_db = Inr (''RLS OK 001 1'' @ [LF], d'))
   \<and> (\<exists>d'. udp_round 1700003600 (''LST'' @ [LF]) lamp_db = Inr (''RLS OK 001 0'' @ [LF], d'))
   \<and> (\<exists>d'. udp_round 1700000001 (''LST'' @ [LF]) empty_db = Inr (''RLS NOK'' @ [LF], d'))"
proof (intro conjI)
  have one: "[1..1] = [1 :: int]" by simp
  show "\<exists>d'. udp_round 1700000001 (''LST'' @ [LF]) lamp_db = Inr (''RLS OK 001 1'' @ [LF], d')"
    using list_reply [OF lamp_inv, of 1700000001] lamp_update [of 1700000001]
    by (auto simp: lamp_db(3) one auction_word_def lamp_word)
  show "\<exists>d'. udp_round 1700003600 (''LST'' @ [LF]) lamp_db = Inr (''RLS OK 001 0'' @ [LF], d')"
    using list_reply [OF lamp_inv, of 1700003600] lamp_update [of 1700003600]
    by (auto simp: lamp_db(3) one auction_word_def lamp_word)
  have "db_inv empty_db" "clock_ok empty_db" "auc_count empty_db = 0"
    using empty_db_sound by (simp_all add: sound_def, simp add: empty_db_def)
  then show "\<exists>d'. udp_round 1700000001 (''LST'' @ [LF]) empty_db = Inr (''RLS NOK'' @ [LF], d')"
    using list_reply [of empty_db 1700000001] by auto
qed

section \<open>The record of an auction\<close>

lemma record_head_start:
  assumes "start_ok uid name fname sv ta t"
  shows "record_head (start_info uid name fname sv ta t) =
     Inr (Some (''RRC OK '' @ uid @ '' '' @ name @ '' '' @ fname @ '' '' @ fmt_d sv @ '' '' @ datetime_str t
            @ '' '' @ fmt_d ta))"
proof -
  note w = start_okD [OF assms] and tok = start_info_tokens [OF assms]
  have "is_valid_start_value (fmt_d sv)" "is_valid_time_active (fmt_d ta)"
    using assms by (simp_all add: start_ok_def fmt_d_valid_start_value fmt_d_valid_time_active)
  moreover have "is_valid_uid uid" "is_valid_name name" "is_valid_fname fname" using assms by (simp_all add: start_ok_def)
  ultimately have "record_head (start_info uid name fname sv ta t) =
     Inr (Some (''RRC OK '' @ uid @ '' '' @ name @ '' '' @ fname @ '' '' @ fmt_d sv @ '' '' @ date_word (gmtime t)
            @ '' '' @ time_word (gmtime t) @ '' '' @ fmt_d ta))"
    by (simp only: record_head_def tok prod.case option.case simp_thms if_False bind_ok_simps
        strtok_line [OF w(8)] date_time_words_valid [OF w(9)])
  then show ?thesis by (simp add: datetime_str_def)
qed

definition record_reply :: "fsys \<Rightarrow> string \<Rightarrow> string \<Rightarrow> string \<Rightarrow> string \<Rightarrow> int \<Rightarrow> int \<Rightarrow> int \<Rightarrow> string" where
  "record_reply s a uid name fname sv ta t =
     ''RRC OK '' @ uid @ '' '' @ name @ '' '' @ fname @ '' '' @ fmt_d sv @ '' '' @ datetime_str t @ '' '' @ fmt_d ta
       @ concat (map (bid_line s a) (last_50 s a)) @ end_text s a @ [LF]"

lemma aid_request:
  assumes "is_valid_aid a"
  shows "strtok [LF] (a @ [LF]) = (Some a, [])" "length a \<le> 15" "NUL \<notin> set a"
  using valid_aid_clean [OF assms] assms strtok_line [of a]
  by (auto simp: is_valid_aid_iff clean_word_def)

lemma handle_show_record_known:
  assumes inv: "db_inv d" and clock: "clock_ok d" and a: "is_valid_aid a" "exists_auction a d"
    and st: "start_of (fs d) a uid name fname sv ta t" and tok: "strtok [LF] input = (Some a, r)"
    and d': "update_database now d = Inr (0, d')"
  shows "handle_show_record now input d =
     Inr (0, record_reply (fs d') a uid name fname sv ta t @ [LF], length (record_reply (fs d') a uid name fname sv ta t), d')"
proof -
  obtain e where e: "update_database now d = Inr (0, e)" "db_inv e" "auc_count e = auc_count d"
    "\<And>q. (\<forall>a. is_valid_aid a \<longrightarrow> q \<noteq> end_path a) \<Longrightarrow> fs_get (fs e) q = fs_get (fs d) q"
    using update_effect [OF inv clock, of now] by blast
  have eq: "e = d'" using e(1) d' by simp
  note I' = db_invD [OF e(2) [unfolded eq]]
  have "start_path a \<noteq> end_path b" for b by (simp add: auc_paths)
  then have st': "start_of (fs d') a uid name fname sv ta t"
    using st e(4) [of "start_path a"] by (simp add: start_of_def eq)
  have ok: "start_ok uid name fname sv ta t" using st' by (simp add: start_of_def)
  have ex': "exists_auction a d'" using a(2) e(3) by (simp add: exists_auction_def eq)
  have info: "get_auction_info a 128 d' = Some (start_info uid name fname sv ta t)"
    using start_line [OF st' I'(2), of 128] by (simp add: get_auction_info_def)
  note bl = bidders_list_spec [OF I'(2,3) a(1) I'(7) [OF a(1) ex']]
  let ?head = "''RRC OK '' @ uid @ '' '' @ name @ '' '' @ fname @ '' '' @ fmt_d sv @ '' '' @ datetime_str t
            @ '' '' @ fmt_d ta"
  let ?text = "concat (map (bid_line (fs d') a) (last_50 (fs d') a)) @ end_text (fs d') a @ [LF]"
  have h: "handle_show_record now input d = Inr (0, ?head @ ?text @ [LF], length ?head + length ?text, d')"
    using a tok d' info record_head_start [OF ok] bl
    by (simp only: handle_show_record_def prod.case option.case bind_ok_simps if_False if_True not_True_eq_False
      not_False_eq_True)
  have r: "record_reply (fs d') a uid name fname sv ta t = ?head @ ?text" by (simp only: record_reply_def append_assoc)
  show ?thesis unfolding h r by simp
qed

lemma handle_show_record_unknown:
  assumes "strtok [LF] input = (Some a, r)" "is_valid_aid a" "\<not> exists_auction a d"
  shows "handle_show_record now input d = udp_reply (''RRC NOK'' @ [LF]) d"
  using assms by (simp add: handle_show_record_def)

lemma sent_bytes_prefix [simp]: "sent_bytes (x @ y) (length x) = x"
  by (simp add: sent_bytes_def)

text \<open>
  C20. \<open>SRC\<close> on a well-formed database: for an unknown auction the reply is \<open>RRC NOK\<close>; for a known one
  the reply gives the seller, the asset, the file name, the start value, the start time and the duration
  as they were recorded at creation, then the last fifty bids in increasing order of value, each with its
  bidder and time, then the end if the auction has ended. No fault is reached.
\<close>

theorem show_record_reply:
  assumes inv: "db_inv d" and clock: "clock_ok d" and a: "is_valid_aid a"
    and st: "exists_auction a d \<Longrightarrow> start_of (fs d) a uid name fname sv ta t"
  shows "\<exists>d'. update_database now d = Inr (0, d') \<and> db_inv d'
     \<and> udp_round now (''SRC '' @ a @ [LF]) d =
         Inr (if exists_auction a d then (record_reply (fs d') a uid name fname sv ta t, d')
              else (''RRC NOK'' @ [LF], d))"
proof -
  obtain d' where d': "update_database now d = Inr (0, d')" "db_inv d'"
    using update_effect [OF inv clock, of now] by blast
  note req = aid_request [OF a]
  have "udp_round now (''SRC '' @ a @ [LF]) d =
         Inr (if exists_auction a d then (record_reply (fs d') a uid name fname sv ta t, d')
              else (''RRC NOK'' @ [LF], d))"
  proof (cases "exists_auction a d")
    case False
    then show ?thesis
      using handle_show_record_unknown [OF req(1) a False, of now] req udp_round_handler [of a "''SRC ''" H_show_record now d]
      by (simp add: udp_command_table_def run_udp_handler_def)
  next
    case True
    have "cstr (''SRC '' @ a @ [LF]) = ''SRC '' @ a @ [LF]" using req(3) by (intro cstr_no_nul) auto
    then have "udp_round now (''SRC '' @ a @ [LF]) d
        = Inr (record_reply (fs d') a uid name fname sv ta t, d')"
      using handle_show_record_known [OF inv clock a True st [OF True] req(1) d'(1)] req(2)
      by (simp add: udp_round_def handle_udp_command_def get_udp_handler_fn_def udp_command_table_def
          run_udp_handler_def nth_append)
    then show ?thesis using True by (simp only: if_True)
  qed
  then show ?thesis using d' by blast
qed

theorem show_record_reply_witness:
  "(\<exists>d'. udp_round 1700000001 (''SRC 001'' @ [LF]) lamp_db =
           Inr (''RRC OK 123456 lamp lamp.jpg 10 2023-11-14 22:13:20 3600'' @ [LF], d'))
   \<and> udp_round 1700000001 (''SRC 002'' @ [LF]) lamp_db = Inr (''RRC NOK'' @ [LF], lamp_db)"
proof
  note num = atoi_def strtol10_def isspace_def isdigit_def digit_val_def c_int_id
  have fmt: "fmt_d 10 = ''10''" "fmt_d 3600 = ''3600''" "datetime_str 1700000000 = ''2023-11-14 22:13:20''"
    by code_simp+
  obtain d' where d': "update_database 1700000001 lamp_db = Inr (0, d')"
    "udp_round 1700000001 (''SRC '' @ ''001'' @ [LF]) lamp_db =
       Inr (record_reply (fs d') ''001'' ''123456'' ''lamp'' ''lamp.jpg'' 10 3600 1700000000, d')"
    using show_record_reply [OF lamp_inv example_fields(5) lamp_db(4), of 1700000001] lamp_db(2) by auto
  have "record_reply (fs d') ''001'' ''123456'' ''lamp'' ''lamp.jpg'' 10 3600 1700000000
      = ''RRC OK 123456 lamp lamp.jpg 10 2023-11-14 22:13:20 3600'' @ [LF]"
    using lamp_update [OF d'(1)] by (simp add: record_reply_def fmt last_50_def end_text_def)
  then show "\<exists>d'. udp_round 1700000001 (''SRC 001'' @ [LF]) lamp_db =
           Inr (''RRC OK 123456 lamp lamp.jpg 10 2023-11-14 22:13:20 3600'' @ [LF], d')"
    using d'(2) by simp
  have no: "\<not> exists_auction ''002'' lamp_db" by (simp add: exists_auction_def lamp_db(3) num)
  have "is_valid_aid ''002''" by (simp add: is_valid_aid_iff isdigit_def)
  then show "udp_round 1700000001 (''SRC 002'' @ [LF]) lamp_db = Inr (''RRC NOK'' @ [LF], lamp_db)"
    using show_record_reply [OF lamp_inv, of "''002''" "''''" "''''" "''''" 0 0 0 1700000001] no by auto
qed

end
