(* ===== verification/AuctionLifecycle.thy ===== *)
theory AuctionLifecycle
  imports AuctionLists
begin

text \<open>
  The life of an auction, as properties of the operations of \<open>database.c\<close> on every sound database:
  creation with the download of the asset, bids, the end by the owner or by the clock, and the
  restart of the server. The last section holds two ways in which the code leaves this invariant.
\<close>

section \<open>Creation\<close>

lemma create_step:
  assumes d: "sound d" and n: "auc_count d < 999" and ok: "start_ok uid name fname sv ta now" and t: "now + ta < 2 ^ 31"
    and reg: "user_view d uid = Some r" and recv: "as_recv_asset_file m caps fsize c = Inr (rc, asset, c')"
  shows "\<exists>k d'. create_new_auction uid name fname sv ta fsize now m caps c d = Inr (k, c', d')
     \<and> sound d' \<and> user_view d' = user_view d
     \<and> (if rc = 0 then k = auc_count d + 1 \<and> auc_count d' = k
           \<and> start_of (fs d') (fmt_0d 3 k) uid name fname sv ta now
           \<and> fs_get (fs d') (asset_path (fmt_0d 3 k) fname) = Some (File asset)
           \<and> bid_set (fs d') (fmt_0d 3 k) = {} \<and> \<not> is_auction_finished (fmt_0d 3 k) d'
        else k = - 1 \<and> auc_count d' = auc_count d \<and> fs_get (fs d') = fs_get (fs d))"
proof (cases "rc = 0")
  case True
  obtain d' where d': "create_new_auction uid name fname sv ta fsize now m caps c d = Inr (auc_count d + 1, c', d')"
     "sound d'" "user_view d' = user_view d" "auc_count d' = auc_count d + 1"
     "start_of (fs d') (next_aid d) uid name fname sv ta now"
     "fs_get (fs d') (asset_path (next_aid d) fname) = Some (File asset)"
     "bid_set (fs d') (next_aid d) = {}" "fs_get (fs d') (end_path (next_aid d)) = None"
    using create_sound [OF d n ok t reg recv [unfolded True]] by blast
  have "\<not> is_auction_finished (next_aid d) d'"
    using d'(8) by (simp add: is_auction_finished_def sys_can_read_def)
  then show ?thesis using d' True
    by (intro exI [of _ "auc_count d + 1"] exI [of _ d']) (simp add: next_aid_def [symmetric])
next
  case False
  have inv: "db_inv d" "clock_ok d" using d by (simp_all add: sound_def)
  have f: "is_valid_fname fname" "now \<noteq> - 1" using ok by (auto simp: start_ok_def)
  obtain d' where d': "create_new_auction uid name fname sv ta fsize now m caps c d = Inr (- 1, c', d')"
     "db_inv d'" "user_view d' = user_view d" "auc_count d' = auc_count d" "fs_get (fs d') = fs_get (fs d)"
    using create_failure [OF inv(1) n f recv False] by blast
  have "clock_ok d' = clock_ok d" using d' by (intro clock_ok_cong) simp_all
  then show ?thesis using d' False inv(2) by (intro exI [of _ "- 1"] exI [of _ d']) (simp add: sound_def)
qed

lemma create_full:
  assumes "auc_count d = 999"
  shows "create_new_auction uid name fname sv ta fsize now m caps c d = Inr (- 1, c, d)"
  using assms by (simp add: create_new_auction_def create_auction_dir_def)

text \<open>
  C18. On a sound database, whose disk works, \<open>create_new_auction\<close> creates the whole auction or nothing. With
  999 auctions it returns \<open>-1\<close> and changes nothing. Otherwise, if the asset arrives completely, the auction
  gets the next identifier, its record, its asset and no bids; if the download fails in any way the call
  returns \<open>-1\<close> and the rollback leaves every file and the counter as they were. Accounts never change, and the
  database is sound after both. The fields are those the validators let through, with a non-empty name and a
  clean file name, and the auction ends before 2038. Failures of the disk are not covered: a \<open>mkdir\<close> that the
  system refuses is not undone, as the last section of \<open>UdpSafety\<close> shows.
\<close>

theorem create_auction_transaction:
  assumes d: "sound d" and ok: "start_ok uid name fname sv ta now" and t: "now + ta < 2 ^ 31"
    and reg: "user_view d uid = Some r" and recv: "as_recv_asset_file m caps fsize c = Inr (rc, asset, c')"
  shows "if auc_count d = 999 then create_new_auction uid name fname sv ta fsize now m caps c d = Inr (- 1, c, d)
     else \<exists>k d'. create_new_auction uid name fname sv ta fsize now m caps c d = Inr (k, c', d')
     \<and> sound d' \<and> user_view d' = user_view d
     \<and> (if rc = 0 then k = auc_count d + 1 \<and> auc_count d' = k
           \<and> start_of (fs d') (fmt_0d 3 k) uid name fname sv ta now
           \<and> fs_get (fs d') (asset_path (fmt_0d 3 k) fname) = Some (File asset)
           \<and> bid_set (fs d') (fmt_0d 3 k) = {} \<and> \<not> is_auction_finished (fmt_0d 3 k) d'
        else k = - 1 \<and> auc_count d' = auc_count d \<and> fs_get (fs d') = fs_get (fs d))"
proof (cases "auc_count d = 999")
  case True
  then show ?thesis by (simp add: create_full)
next
  case False
  then have n: "auc_count d < 999" using d db_invD(11) [of d] by (simp add: sound_def)
  show ?thesis unfolding if_not_P [OF False] by (rule create_step [OF d n ok t reg recv])
qed

lemma cut_asset:
  "as_recv_asset_file (\<lambda>_. NUL) [] 4 (idle_conn\<lparr>rx := [''da'']\<rparr>) = Inr (ERR_TCP_READ_CLOSED, ''da'', idle_conn)"
  by (simp add: as_recv_asset_file_def recv_asset_loop.simps recv_def idle_conn_def BUFF_SZ_def Let_def
      recv_last_block_def mem_store_def write_block.simps mem_slice_def transfer_def upt_conv_Cons)

theorem create_auction_transaction_witness:
  "(\<exists>d'. create_new_auction ''123456'' ''lamp'' ''lamp.jpg'' 10 3600 4 1700000000 (\<lambda>_. NUL) []
         (idle_conn\<lparr>rx := [''data'', [LF]]\<rparr>) two_users = Inr (1, idle_conn, d') \<and> auc_count d' = 1)
   \<and> (\<exists>d'. create_new_auction ''123456'' ''lamp'' ''lamp.jpg'' 10 3600 4 1700000000 (\<lambda>_. NUL) []
         (idle_conn\<lparr>rx := [''da'']\<rparr>) two_users = Inr (- 1, idle_conn, d') \<and> auc_count d' = 0)"
proof
  have n: "auc_count two_users \<noteq> 999" by (simp add: two_users)
  note create = create_auction_transaction [OF two_users(1) example_fields(6) _ two_users(3), unfolded if_not_P [OF n]]
  show "\<exists>d'. create_new_auction ''123456'' ''lamp'' ''lamp.jpg'' 10 3600 4 1700000000 (\<lambda>_. NUL) []
         (idle_conn\<lparr>rx := [''data'', [LF]]\<rparr>) two_users = Inr (1, idle_conn, d') \<and> auc_count d' = 1"
    using create [OF _ example_asset] by (auto simp: two_users)
  show "\<exists>d'. create_new_auction ''123456'' ''lamp'' ''lamp.jpg'' 10 3600 4 1700000000 (\<lambda>_. NUL) []
         (idle_conn\<lparr>rx := [''da'']\<rparr>) two_users = Inr (- 1, idle_conn, d') \<and> auc_count d' = 0"
    using create [OF _ cut_asset] by (auto simp: two_users ERR_TCP_READ_CLOSED_def)
qed

section \<open>Bids\<close>

lemma bid_step:
  assumes d: "sound d" and a: "is_valid_aid a" "exists_auction a d" and u: "is_valid_uid u" "user_view d u = Some r"
    and st: "start_of (fs d) a uid name fname sv ta t" and v: "1 \<le> v" "v \<le> 999999" and now: "time_ok now"
  shows "\<exists>d'. bid now a u v d = (0, d') \<and> sound d' \<and> user_view d' = user_view d
     \<and> bid_set (fs d') a = insert v (bid_set (fs d) a)
     \<and> get_last_bid a d' = max v (get_last_bid a d)
     \<and> fs_get (fs d') (bid_path a v) = Some (File (bid_info u now (now - t)))
     \<and> (\<forall>q. q \<noteq> bid_path a v \<longrightarrow> q \<noteq> bidded_path u a \<longrightarrow> fs_get (fs d') q = fs_get (fs d) q)"
proof -
  have inv: "db_inv d" "clock_ok d" using d by (simp_all add: sound_def)
  obtain d' where d': "bid now a u v d = (0, d')" "db_inv d'" "user_view d' = user_view d" "auc_count d' = auc_count d"
     "bid_set (fs d') a = insert v (bid_set (fs d) a)"
     "fs_get (fs d') (bid_path a v) = Some (File (bid_info u now (now - t)))"
     "\<forall>q. q \<noteq> bid_path a v \<longrightarrow> q \<noteq> bidded_path u a \<longrightarrow> fs_get (fs d') q = fs_get (fs d) q"
    using bid_effect [OF inv(1) a u st v now] by blast
  have s: "sound d'"
  proof -
    have "start_path b \<noteq> bid_path a v" "start_path b \<noteq> bidded_path u a" for b
      by (simp_all add: auc_paths bidded_path_def)
    then have "clock_ok d' = clock_ok d" using d'(4,7) by (intro clock_ok_cong) auto
    then show ?thesis using d'(2) inv(2) by (simp add: sound_def)
  qed
  have ex': "exists_auction a d'" using a(2) d'(4) by (simp add: exists_auction_def)
  have ok: "bids_ok (fs d) a" "bids_ok (fs d') a"
    using db_invD(7) [OF inv(1) a] db_invD(7) [OF d'(2) a(1) ex'] by (simp_all add: auction_ok_def)
  have last: "get_last_bid a d = (if bid_set (fs d) a = {} then 0 else Max (bid_set (fs d) a))"
    "get_last_bid a d' = Max (insert v (bid_set (fs d) a))"
    using get_last_bid_Max [OF db_invD(2) [OF inv(1)] ok(1)] get_last_bid_Max [OF db_invD(2) [OF d'(2)] ok(2)] d'(5)
    by simp_all
  have "get_last_bid a d' = max v (get_last_bid a d)"
    using v finite_bid_set [of "fs d" a] by (simp add: last Max_insert)
  then show ?thesis using d' s by (intro exI [of _ d'] conjI)
qed

text \<open>
  A bid that is written becomes one more value of the auction, with the bidder and the time in its
  record, and \<open>get_last_bid\<close> returns the greatest value of the auction afterwards; nothing but the
  bid's file and the bidder's entry changes. Two bids of one value share a file: the later replaces the earlier.
\<close>

theorem bid_recorded:
  assumes d: "sound d" and a: "is_valid_aid a" "exists_auction a d" and u: "is_valid_uid u" "user_view d u = Some r"
    and st: "start_of (fs d) a uid name fname sv ta t" and v: "1 \<le> v" "v \<le> 999999" and now: "time_ok now"
  shows "\<exists>d'. bid now a u v d = (0, d') \<and> sound d' \<and> user_view d' = user_view d
     \<and> bid_set (fs d') a = insert v (bid_set (fs d) a)
     \<and> get_last_bid a d' = max v (get_last_bid a d)
     \<and> fs_get (fs d') (bid_path a v) = Some (File (bid_info u now (now - t)))
     \<and> (\<forall>q. q \<noteq> bid_path a v \<longrightarrow> q \<noteq> bidded_path u a \<longrightarrow> fs_get (fs d') q = fs_get (fs d) q)"
  using assms by (rule bid_step)

theorem bid_recorded_witness:
  "\<exists>d'. bid 1700000100 ''001'' ''654321'' 25 lamp_db = (0, d') \<and> get_last_bid ''001'' d' = 25
     \<and> fs_get (fs d') (bid_path ''001'' 25) = Some (File (''654321 2023-11-14 22:15:00 100'' @ [LF]))"
proof -
  have t: "time_ok 1700000100" by (simp add: time_ok_def)
  have rec: "bid_info ''654321'' 1700000100 100 = ''654321 2023-11-14 22:15:00 100'' @ [LF]" by code_simp
  have inv: "db_inv lamp_db" using lamp_db(1) by (simp add: sound_def)
  have "bids_ok (fs lamp_db) ''001''"
    using db_invD(7) [OF inv example_fields(5) lamp_db(2)] by (simp add: auction_ok_def)
  then have "get_last_bid ''001'' lamp_db = 0"
    using get_last_bid_Max [OF db_invD(2) [OF inv]] lamp_db(8) by simp
  then show ?thesis
    using bid_recorded [OF lamp_db(1) example_fields(5) lamp_db(2) example_fields(2) lamp_db(7,4) _ _ t, of 25] rec
    by auto
qed

section \<open>The end of an auction\<close>

text \<open>
  C25. \<open>update_database\<close> ends exactly the auctions whose duration is over and that have not ended: each of
  them gets an \<open>END\<close> record with the time it was due (not the time of the call), and no other file changes.
\<close>

theorem update_ends_expired:
  assumes d: "sound d"
  shows "\<exists>d'. update_database now d = Inr (0, d') \<and> sound d' \<and> user_view d' = user_view d
     \<and> (\<forall>a uid name fname sv ta t. is_valid_aid a \<longrightarrow> exists_auction a d \<longrightarrow> start_of (fs d) a uid name fname sv ta t \<longrightarrow>
          is_auction_finished a d' = (is_auction_finished a d \<or> t + ta \<le> now)
          \<and> (\<not> is_auction_finished a d \<longrightarrow> t + ta \<le> now \<longrightarrow>
               fs_get (fs d') (end_path a) = Some (File (end_info (t + ta) ta @ [LF]))))
     \<and> (\<forall>q. (\<forall>a. is_valid_aid a \<longrightarrow> q \<noteq> end_path a) \<longrightarrow> fs_get (fs d') q = fs_get (fs d) q)"
proof -
  obtain d' where d': "update_database now d = Inr (0, d')" "sound d'" "user_view d' = user_view d"
    "\<And>a. is_valid_aid a \<Longrightarrow> fs_get (fs d') (end_path a) =
          (if exists_auction a d \<and> fs_get (fs d) (end_path a) = None \<and> expired now (fs d) a
           then Some (File (expiry_record (fs d) a)) else fs_get (fs d) (end_path a))"
    "\<forall>q. (\<forall>a. is_valid_aid a \<longrightarrow> q \<noteq> end_path a) \<longrightarrow> fs_get (fs d') q = fs_get (fs d) q"
    using sound_update [OF d, of now] by blast
  have h: "healthy (fs d)" "healthy (fs d')" using d d'(2) db_invD(2) by (simp_all add: sound_def)
  have "is_auction_finished a d' = (is_auction_finished a d \<or> t + ta \<le> now)
          \<and> (\<not> is_auction_finished a d \<longrightarrow> t + ta \<le> now \<longrightarrow>
               fs_get (fs d') (end_path a) = Some (File (end_info (t + ta) ta @ [LF])))"
    if a: "is_valid_aid a" "exists_auction a d" and st: "start_of (fs d) a uid name fname sv ta t"
    for a uid name fname sv ta t
    using a d'(4) [OF a(1)] auction_times_start [OF st]
    by (simp add: is_auction_finished_def sys_can_read_healthy h expired_def expiry_record_def)
  then show ?thesis using d' by blast
qed

theorem update_ends_expired_witness:
  "\<exists>d'. update_database 1700010000 lamp_db = Inr (0, d') \<and> is_auction_finished ''001'' d' \<and> \<not> is_auction_finished ''001'' lamp_db
     \<and> fs_get (fs d') (end_path ''001'') = Some (File (''2023-11-14 23:13:20 3600'' @ [LF]))"
proof -
  have rec: "end_info 1700003600 3600 = ''2023-11-14 23:13:20 3600''" by code_simp
  have no: "\<not> is_auction_finished ''001'' lamp_db" using lamp_db(9) by (simp add: is_auction_finished_def sys_can_read_def)
  obtain d' where d': "update_database 1700010000 lamp_db = Inr (0, d')"
    "is_auction_finished ''001'' d' = (is_auction_finished ''001'' lamp_db \<or> 1700000000 + 3600 \<le> (1700010000 :: int))
      \<and> (\<not> is_auction_finished ''001'' lamp_db \<longrightarrow> 1700000000 + 3600 \<le> (1700010000 :: int) \<longrightarrow>
           fs_get (fs d') (end_path ''001'') = Some (File (end_info (1700000000 + 3600) 3600 @ [LF])))"
    using update_ends_expired [OF lamp_db(1), of 1700010000] example_fields(5) lamp_db(2,4) by blast
  then show ?thesis using no rec by simp
qed

text \<open>
  \<open>close_auction\<close> ends an auction at the moment of the call: the \<open>END\<close> record holds that time and
  the seconds since the start, and no other file changes.
\<close>

theorem close_records_end:
  assumes d: "sound d" and a: "is_valid_aid a" "exists_auction a d"
    and st: "start_of (fs d) a uid name fname sv ta t" and now: "time_ok now"
  shows "\<exists>d'. close_auction now a d = (0, d') \<and> sound d' \<and> user_view d' = user_view d
     \<and> is_auction_finished a d' \<and> fs_get (fs d') (end_path a) = Some (File (end_info now (now - t)))
     \<and> (\<forall>q. q \<noteq> end_path a \<longrightarrow> fs_get (fs d') q = fs_get (fs d) q)"
proof -
  have inv: "db_inv d" "clock_ok d" using d by (simp_all add: sound_def)
  obtain d' where d': "close_auction now a d = (0, d')" "db_inv d'" "user_view d' = user_view d" "auc_count d' = auc_count d"
     "fs_get (fs d') (end_path a) = Some (File (end_info now (now - t)))"
     "\<forall>q. q \<noteq> end_path a \<longrightarrow> fs_get (fs d') q = fs_get (fs d) q"
    using close_effect [OF inv(1) a st now] by blast
  have "start_path b \<noteq> end_path a" for b by (simp add: auc_paths)
  then have "clock_ok d' = clock_ok d" using d'(4,6) by (intro clock_ok_cong) auto
  then have "sound d'" using d'(2) inv(2) by (simp add: sound_def)
  moreover have "is_auction_finished a d'"
    using d'(5) db_invD(2) [OF d'(2)] by (simp add: is_auction_finished_def sys_can_read_healthy)
  ultimately show ?thesis using d' by blast
qed

theorem close_records_end_witness:
  "\<exists>d'. close_auction 1700000100 ''001'' lamp_db = (0, d') \<and> is_auction_finished ''001'' d'
     \<and> fs_get (fs d') (end_path ''001'') = Some (File ''2023-11-14 22:15:00 100'')"
proof -
  have rec: "end_info 1700000100 100 = ''2023-11-14 22:15:00 100''" by code_simp
  have t: "time_ok 1700000100" by (simp add: time_ok_def)
  show ?thesis using close_records_end [OF lamp_db(1) example_fields(5) lamp_db(2,4) t] rec by auto
qed

section \<open>Restart\<close>

text \<open>The server's working directory when \<open>ASDIR\<close> holds the database.\<close>

definition working_dir :: "fsys \<Rightarrow> fsys" where
  "working_dir s = s\<lparr>nodes := ([DB_ROOT], Dir) # map (\<lambda>(p, n). (DB_ROOT # p, n)) (nodes s)\<rparr>"

lemma chdir_working_dir:
  assumes "healthy s" "fs_wf s"
  shows "sys_chdir DB_ROOT (working_dir s) = Inr s"
proof -
  have ne: "[] \<notin> fst ` set (nodes s)" using assms(2) by (simp add: fs_wf_def fs_keys_def)
  have filt: "[(tl p, n). (p, n) \<leftarrow> map (\<lambda>(p, n). (DB_ROOT # p, n)) xs, p \<noteq> [] \<and> hd p = DB_ROOT \<and> tl p \<noteq> []] = xs"
    if "[] \<notin> fst ` set xs" for xs :: "(path \<times> node) list"
    using that by (induction xs) auto
  have "[(tl p, n). (p, n) \<leftarrow> nodes (working_dir s), p \<noteq> [] \<and> hd p = DB_ROOT \<and> tl p \<noteq> []] = nodes s"
    using filt [of "nodes s"] ne by (simp add: working_dir_def)
  moreover have "fs_get (working_dir s) [DB_ROOT] = Some Dir" by (simp add: working_dir_def fs_get_def)
  moreover have "denied s = []" using assms(1) by (simp add: healthy_def)
  moreover have "denied (working_dir s) = denied s" by (simp add: working_dir_def)
  ultimately show ?thesis by (simp add: sys_chdir_def) (simp add: working_dir_def)
qed

lemma restart_state:
  assumes "sound d"
  shows "init_database (working_dir (fs d)) = Some (0, d)"
proof -
  have inv: "db_inv d" using assms by (simp add: sound_def)
  note I = db_invD [OF inv]
  let ?names = "fs_names [''AUCTIONS''] (fs d)"
  have in_names: "x \<in> set ?names \<longleftrightarrow> is_valid_aid x \<and> exists_auction x d" for x
    using I(6,8) [of x] I(9) [of x] unfolding set_fs_names append_Cons append_Nil by (metis option.distinct(1))
  have "filter (\<lambda>x. \<not> hidden x) (''.'' # ''..'' # ?names) = ?names"
    using in_names valid_aid_not_hidden by (intro visible_names) auto
  moreover have "length ?names = nat (auc_count d)"
  proof -
    have "set ?names = fmt_0d 3 ` {1..auc_count d}" using set_auction_names [OF inv] .
    moreover have "inj_on (fmt_0d 3) {1..auc_count d}"
      using I(11) by (intro inj_on_inverseI [of _ atoi]) (simp add: atoi_fmt_0d)
    ultimately have "card (set ?names) = nat (auc_count d)" by (simp add: card_image)
    then show ?thesis using distinct_fs_names [OF I(3)] by (simp add: distinct_card)
  qed
  ultimately have load: "load_db_state \<lparr>fs = fs d, auc_count = 0\<rparr> = (0, d)"
    using sys_readdir_healthy [OF I(2,4)] I(10) by (simp add: load_db_state_def)
  have old: "fs_get s p \<noteq> None \<Longrightarrow> mkdir_if_absent p s = Some s" for s p
    by (simp add: mkdir_if_absent_def sys_mkdir_old)
  have "fs_get (fs d) [''USERS''] = Some Dir" using I(1) by (simp add: users_inv_def)
  moreover have "fs_get (working_dir (fs d)) [DB_ROOT] \<noteq> None" by (simp add: working_dir_def fs_get_def)
  ultimately show ?thesis
    using chdir_working_dir [OF I(2,3)] I(4) load by (simp add: init_database_def old)
qed

text \<open>
  C26. A restart restores the state: \<open>init_database\<close> on a directory that holds a sound database leaves
  every file alone and counts the auctions back to the value of \<open>auc_count\<close> before the stop.
\<close>

theorem restart_restores_database:
  assumes "sound d"
  shows "init_database (working_dir (fs d)) = Some (0, d)"
  using assms by (rule restart_state)

theorem restart_restores_database_witness:
  "init_database (working_dir (fs lamp_db)) = Some (0, lamp_db) \<and> auc_count lamp_db = 1"
  using restart_restores_database [OF lamp_db(1)] lamp_db(3) by simp

section \<open>Where the code leaves the invariant\<close>

text \<open>
  C37. From 2038 on auctions end as soon as they are created: \<open>update_database\<close> keeps the start time in
  an \<open>int\<close>, which wraps to a time before 1970, so the first update after the creation writes an
  \<open>END\<close> record with a date of more than a century ago, whatever the duration.
\<close>

theorem update_after_2038:
  assumes d: "db_inv d" and a: "is_valid_aid a" "exists_auction a d" and st: "start_of (fs d) a uid name fname sv ta t"
    and t: "2 ^ 31 \<le> t" "t < 2 ^ 32" "t \<le> now" and open_: "\<not> is_auction_finished a d"
  shows "\<exists>s. update_auction now a (fs d) = Inr s
     \<and> fs_get s (end_path a) = Some (File (end_info (t - 2 ^ 32 + ta) ta @ [LF]))"
proof -
  note I = db_invD [OF d] and p = valid_aid_paths [OF a(1)]
  have h: "healthy (fs d)" "fs_wf (fs d)" using I by blast+
  have ok: "start_ok uid name fname sv ta t" using st by (simp add: start_of_def)
  have none: "fs_get (fs d) (end_path a) = None"
    using open_ h by (simp add: is_auction_finished_def sys_can_read_healthy)
  have "(word_of_int (t - 2 ^ 32) :: 32 word) = word_of_int t" by transfer (simp add: take_bit_eq_mod)
  then have "c_int t = c_int (t - 2 ^ 32)" by (simp only: c_int_def)
  also have "\<dots> = t - 2 ^ 32" using t by (intro c_int_id) simp_all
  finally have c1: "c_int t = t - 2 ^ 32" .
  have c2: "c_int (t - 2 ^ 32 + ta) = t - 2 ^ 32 + ta" using ok t by (intro c_int_id) (auto simp: start_ok_def)
  have at: "atoi (fmt_d ta) = ta" using ok by (intro atoi_fmt_d) (auto simp: start_ok_def)
  have al: "atol (fmt_d t @ [LF]) = t" using ok by (intro atol_fmt_d) (auto simp: start_ok_def)
  have vt: "is_valid_time_active (fmt_d ta)" using ok by (simp add: start_ok_def fmt_d_valid_time_active)
  have due: "\<not> now - (t - 2 ^ 32) < ta" using ok t by (auto simp: start_ok_def)
  have e: "end_path a \<noteq> []" "butlast (end_path a) = [''AUCTIONS'', a]" "[''AUCTIONS'', a] \<noteq> end_path a"
    by (simp_all add: p)
  have creat: "sys_creat (end_path a) (fs d) = Inr (fs_put (end_path a) (File []) (fs d))"
    using h none I(6) [OF a] e by (intro sys_creat_new) simp_all
  have put: "sys_fputs (end_path a) c (fs_put (end_path a) (File []) (fs d)) = Inr (fs_put (end_path a) (File c) (fs d))" for c
    using h I(6) [OF a] e by (subst sys_fputs_eq) simp_all
  have "update_auction now a (fs d) = Inr (fs_put (end_path a) (File (end_info (t - 2 ^ 32 + ta) ta @ [LF])) (fs d))"
    using start_line [OF st h(1), of 128] start_info_tokens [OF ok] valid_aid_not_hidden [OF a(1)]
      strtok_last_word [OF start_okD(8) [OF ok]] h none creat put due c1 c2 at al vt
    by (simp add: update_auction_def p(4,6) sys_can_read_healthy Let_def)
  then show ?thesis using e by simp
qed

theorem update_after_2038_witness:
  "\<exists>d c s. create_new_auction ''123456'' ''lamp'' ''lamp.jpg'' 10 3600 4 2147483648 (\<lambda>_. NUL) []
         (idle_conn\<lparr>rx := [''data'', [LF]]\<rparr>) two_users = Inr (1, c, d)
     \<and> \<not> is_auction_finished ''001'' d \<and> update_auction 2147483648 ''001'' (fs d) = Inr s
     \<and> fs_get s (end_path ''001'') = Some (File (''1901-12-13 21:45:52 3600'' @ [LF]))"
proof -
  have rec: "end_info (2147483648 - 2 ^ 32 + 3600) 3600 = ''1901-12-13 21:45:52 3600''" by code_simp
  have ok: "start_ok ''123456'' ''lamp'' ''lamp.jpg'' 10 3600 2147483648"
    using example_fields(6) by (simp add: start_ok_def)
  have inv: "db_inv two_users" using two_users(1) by (simp add: sound_def)
  obtain d where d: "create_new_auction ''123456'' ''lamp'' ''lamp.jpg'' 10 3600 4 2147483648 (\<lambda>_. NUL) []
         (idle_conn\<lparr>rx := [''data'', [LF]]\<rparr>) two_users = Inr (1, idle_conn, d)" "db_inv d" "auc_count d = 1"
     "start_of (fs d) ''001'' ''123456'' ''lamp'' ''lamp.jpg'' 10 3600 2147483648"
     "fs_get (fs d) (end_path ''001'') = None"
    using create_success [OF inv _ ok two_users(3) example_asset] next_aid_two_users two_users(2) by auto
  have ex: "exists_auction ''001'' d"
    using d(3) by (simp add: exists_auction_def atoi_def strtol10_def isspace_def isdigit_def digit_val_def c_int_id)
  have "\<not> is_auction_finished ''001'' d" using d(5) by (simp add: is_auction_finished_def sys_can_read_def)
  then show ?thesis
    using update_after_2038 [OF d(2) example_fields(5) ex d(4), of 2147483648] d(1) rec by auto
qed

end
