(* ===== verification/AuctionHouse.thy ===== *)
theory AuctionHouse
  imports AuctionLifecycle
begin

text \<open>
  The abstract auction house: what the database means, without its files. An auction is its owner, its
  start value, its deadline, whether it has ended, and the set of bids. \<open>auction_view\<close> reads this state off
  the file tree, and every database operation on auctions is one update of it.
\<close>

record auction =
  owner :: string
  start_value :: int
  deadline :: int
  ended :: bool
  bids :: "int set"

definition auction_view :: "db \<Rightarrow> string \<Rightarrow> auction option" where
  "auction_view d a =
     (if is_valid_aid a \<and> exists_auction a d then
        (case fs_get (fs d) (start_path a) of
           Some (File l) \<Rightarrow>
             Some \<lparr>owner = the (fst (strtok [SP] l)),
                   start_value = atoi (the (fst (strtok [SP] (strtok_n 3 [SP] l)))),
                   deadline = fst (auction_times (fs d) a) + snd (auction_times (fs d) a),
                   ended = (fs_get (fs d) (end_path a) \<noteq> None),
                   bids = bid_set (fs d) a\<rparr>
         | _ \<Rightarrow> None)
      else None)"

lemma auction_view_start:
  assumes "is_valid_aid a" "exists_auction a d" "start_of (fs d) a uid name fname sv ta t"
  shows "auction_view d a = Some \<lparr>owner = uid, start_value = sv, deadline = t + ta,
     ended = (fs_get (fs d) (end_path a) \<noteq> None), bids = bid_set (fs d) a\<rparr>"
proof -
  have ok: "start_ok uid name fname sv ta t" using assms(3) by (simp add: start_of_def)
  have sv: "atoi (fmt_d sv) = sv" using ok by (intro atoi_fmt_d) (auto simp: start_ok_def)
  have l: "fs_get (fs d) (start_path a) = Some (File (start_info uid name fname sv ta t))"
    using assms(3) by (simp add: start_of_def)
  show ?thesis
    using assms(1,2) auction_times_start [OF assms(3)]
    by (simp only: auction_view_def l option.case node.case start_info_tokens [OF ok] fst_conv snd_conv option.sel sv
      simp_thms if_True)
qed

lemma auction_viewE:
  assumes d: "sound d" and a: "is_valid_aid a" "exists_auction a d"
  obtains uid name fname sv ta t c where "start_of (fs d) a uid name fname sv ta t"
    "fs_get (fs d) (asset_path a fname) = Some (File c)"
    "auction_view d a = Some \<lparr>owner = uid, start_value = sv, deadline = t + ta,
       ended = (fs_get (fs d) (end_path a) \<noteq> None), bids = bid_set (fs d) a\<rparr>"
proof -
  have "auction_ok (fs d) a" using db_invD(7) d a by (simp add: sound_def)
  then obtain uid name fname sv ta t c where "start_of (fs d) a uid name fname sv ta t"
    "fs_get (fs d) (asset_path a fname) = Some (File c)" by (rule auction_okE)
  then show ?thesis using that auction_view_start [OF a] by blast
qed

lemma auction_view_None: "\<not> (is_valid_aid a \<and> exists_auction a d) \<Longrightarrow> auction_view d a = None"
  unfolding auction_view_def by (rule if_not_P)

lemma auction_view_exists: "sound d \<Longrightarrow> is_valid_aid a \<Longrightarrow> auction_view d a = None \<longleftrightarrow> \<not> exists_auction a d"
  by (metis auction_viewE auction_view_None option.distinct(1))

lemma auction_view_cong:
  assumes "exists_auction a e = exists_auction a d"
    and "is_valid_aid a \<Longrightarrow> fs_get (fs e) (start_path a) = fs_get (fs d) (start_path a)"
    and "is_valid_aid a \<Longrightarrow> (fs_get (fs e) (end_path a) = None) = (fs_get (fs d) (end_path a) = None)"
    and "is_valid_aid a \<Longrightarrow> bid_set (fs e) a = bid_set (fs d) a"
  shows "auction_view e a = auction_view d a"
proof (cases "is_valid_aid a")
  case True
  then show ?thesis using assms by (simp add: auction_view_def auction_times_def split: option.split node.split)
qed (simp add: auction_view_None)

section \<open>The operations on the abstract state\<close>

type_synonym house = "string \<Rightarrow> auction option"

definition expire :: "int \<Rightarrow> house \<Rightarrow> house" where
  "expire now h = (\<lambda>a. map_option (\<lambda>r. r\<lparr>ended := ended r \<or> deadline r \<le> now\<rparr>) (h a))"

definition change :: "string \<Rightarrow> (auction \<Rightarrow> auction) \<Rightarrow> house \<Rightarrow> house" where
  "change a f h = h(a := map_option f (h a))"

text \<open>The record of creation and the asset of every auction stay as they are.\<close>

definition keeps_records :: "db \<Rightarrow> db \<Rightarrow> bool" where
  "keeps_records d d' \<longleftrightarrow> (\<forall>a. auction_view d a \<noteq> None \<longrightarrow> fs_get (fs d') (start_path a) = fs_get (fs d) (start_path a)
     \<and> (\<forall>f. fs_get (fs d') (asset_path a f) = fs_get (fs d) (asset_path a f)))"

lemma keeps_records_refl [simp]: "keeps_records d d"
  by (simp add: keeps_records_def)

lemma keeps_records_fs:
  "(\<And>a. fs_get (fs d') (start_path a) = fs_get (fs d) (start_path a)) \<Longrightarrow>
   (\<And>a f. fs_get (fs d') (asset_path a f) = fs_get (fs d) (asset_path a f)) \<Longrightarrow> keeps_records d d'"
  by (simp add: keeps_records_def)

lemma update_view:
  assumes d: "sound d" and u: "update_database now d = Inr (0, d')"
  shows "sound d'" "user_view d' = user_view d" "auction_view d' = expire now (auction_view d)"
    "auc_count d' = auc_count d" "\<And>q. (\<forall>a. is_valid_aid a \<longrightarrow> q \<noteq> end_path a) \<Longrightarrow> fs_get (fs d') q = fs_get (fs d) q"
proof -
  obtain e where e: "update_database now d = Inr (0, e)" "sound e" "user_view e = user_view d" "auc_count e = auc_count d"
    "\<And>a. is_valid_aid a \<Longrightarrow> fs_get (fs e) (end_path a) =
          (if exists_auction a d \<and> fs_get (fs d) (end_path a) = None \<and> expired now (fs d) a
           then Some (File (expiry_record (fs d) a)) else fs_get (fs d) (end_path a))"
    "\<And>q. (\<forall>a. is_valid_aid a \<longrightarrow> q \<noteq> end_path a) \<Longrightarrow> fs_get (fs e) q = fs_get (fs d) q"
    using sound_update [OF d, of now] by blast
  have eq: "d' = e" using u e(1) by simp
  show "sound d'" "user_view d' = user_view d" "auc_count d' = auc_count d"
    "\<And>q. (\<forall>a. is_valid_aid a \<longrightarrow> q \<noteq> end_path a) \<Longrightarrow> fs_get (fs d') q = fs_get (fs d) q"
    using e by (simp_all add: eq)
  show "auction_view d' = expire now (auction_view d)"
  proof (rule ext)
    fix a
    show "auction_view d' a = expire now (auction_view d) a"
    proof (cases "is_valid_aid a \<and> exists_auction a d")
      case False
      then have "\<not> (is_valid_aid a \<and> exists_auction a d')" using e(4) by (simp add: exists_auction_def eq)
      then show ?thesis using False by (simp add: auction_view_None expire_def)
    next
      case True
      then obtain uid name fname sv ta t c where st: "start_of (fs d) a uid name fname sv ta t"
        and v: "auction_view d a = Some \<lparr>owner = uid, start_value = sv, deadline = t + ta,
           ended = (fs_get (fs d) (end_path a) \<noteq> None), bids = bid_set (fs d) a\<rparr>"
        using auction_viewE [OF d] by metis
      have p: "start_path a \<noteq> end_path b" "bid_path a w \<noteq> end_path b" for b w by (simp_all add: auc_paths)
      have st': "start_of (fs d') a uid name fname sv ta t" using st e(6) p by (simp add: start_of_def eq)
      have "bid_set (fs d') a = bid_set (fs d) a" using e(6) p by (simp add: bid_set_def eq)
      moreover have "exists_auction a d'" using True e(4) by (simp add: exists_auction_def eq)
      moreover have "fs_get (fs d') (end_path a) \<noteq> None \<longleftrightarrow> fs_get (fs d) (end_path a) \<noteq> None \<or> t + ta \<le> now"
        using e(5) True auction_times_start [OF st] by (auto simp: eq expired_def)
      ultimately show ?thesis using auction_view_start [of a d'] True st' v by (simp add: expire_def)
    qed
  qed
qed

lemma bid_view:
  assumes d: "sound d" and a: "is_valid_aid a" "exists_auction a d" and u: "is_valid_uid u" "user_view d u = Some r"
    and v: "1 \<le> v" "v \<le> 999999" and now: "time_ok now"
  shows "\<exists>d'. bid now a u v d = (0, d') \<and> sound d' \<and> user_view d' = user_view d
     \<and> auction_view d' = change a (\<lambda>x. x\<lparr>bids := insert v (bids x)\<rparr>) (auction_view d) \<and> keeps_records d d'"
proof -
  obtain uid name fname sv ta t c where st: "start_of (fs d) a uid name fname sv ta t"
    and w: "auction_view d a = Some \<lparr>owner = uid, start_value = sv, deadline = t + ta,
           ended = (fs_get (fs d) (end_path a) \<noteq> None), bids = bid_set (fs d) a\<rparr>"
    using auction_viewE [OF d a] by metis
  have inv: "db_inv d" "clock_ok d" using d by (simp_all add: sound_def)
  obtain d' where d': "bid now a u v d = (0, d')" "db_inv d'" "user_view d' = user_view d" "auc_count d' = auc_count d"
     "bid_set (fs d') a = insert v (bid_set (fs d) a)"
     "\<forall>q. q \<noteq> bid_path a v \<longrightarrow> q \<noteq> bidded_path u a \<longrightarrow> fs_get (fs d') q = fs_get (fs d) q"
    using bid_effect [OF inv(1) a u st v now] by blast
  have p: "start_path b \<noteq> bid_path a v" "start_path b \<noteq> bidded_path u a" "end_path b \<noteq> bid_path a v"
     "end_path b \<noteq> bidded_path u a" "bid_path b x \<noteq> bidded_path u a" for b x
    by (simp_all add: auc_paths bidded_path_def)
  have q: "fs_get (fs d') (start_path b) = fs_get (fs d) (start_path b)" "fs_get (fs d') (end_path b) = fs_get (fs d) (end_path b)" for b
    using d'(6) p by simp_all
  have "clock_ok d' = clock_ok d" using d'(4) q by (intro clock_ok_cong)
  then have "sound d'" using d'(2) inv(2) by (simp add: sound_def)
  moreover have "auction_view d' b = change a (\<lambda>x. x\<lparr>bids := insert v (bids x)\<rparr>) (auction_view d) b" for b
  proof (cases "b = a")
    case True
    have "exists_auction a d'" using a(2) d'(4) by (simp add: exists_auction_def)
    moreover have "start_of (fs d') a uid name fname sv ta t" using st q by (simp add: start_of_def)
    ultimately show ?thesis using True auction_view_start [OF a(1)] w q d'(5) by (simp add: change_def)
  next
    case False
    have "bid_set (fs d') b = bid_set (fs d) b" if "is_valid_aid b"
    proof -
      have "bid_path b x \<noteq> bid_path a v" for x using False that a(1) by (auto simp: valid_aid_paths)
      then show ?thesis using d'(6) p by (simp add: bid_set_def)
    qed
    then have "auction_view d' b = auction_view d b" using d'(4) q by (intro auction_view_cong) (simp_all add: exists_auction_def)
    then show ?thesis using False by (simp add: change_def)
  qed
  moreover have "keeps_records d d'" using d'(6) q by (intro keeps_records_fs) (auto simp: bidded_path_def auc_paths asset_path_def)
  ultimately show ?thesis using d'(1,3) by blast
qed

lemma close_view:
  assumes d: "sound d" and a: "is_valid_aid a" "exists_auction a d" and now: "time_ok now"
  shows "\<exists>d'. close_auction now a d = (0, d') \<and> sound d' \<and> user_view d' = user_view d
     \<and> auction_view d' = change a (\<lambda>x. x\<lparr>ended := True\<rparr>) (auction_view d) \<and> keeps_records d d'"
proof -
  obtain uid name fname sv ta t c where st: "start_of (fs d) a uid name fname sv ta t"
    and w: "auction_view d a = Some \<lparr>owner = uid, start_value = sv, deadline = t + ta,
           ended = (fs_get (fs d) (end_path a) \<noteq> None), bids = bid_set (fs d) a\<rparr>"
    using auction_viewE [OF d a] by metis
  have inv: "db_inv d" "clock_ok d" using d by (simp_all add: sound_def)
  obtain d' where d': "close_auction now a d = (0, d')" "db_inv d'" "user_view d' = user_view d" "auc_count d' = auc_count d"
     "fs_get (fs d') (end_path a) = Some (File (end_info now (now - t)))"
     "\<forall>q. q \<noteq> end_path a \<longrightarrow> fs_get (fs d') q = fs_get (fs d) q"
    using close_effect [OF inv(1) a st now] by blast
  have p: "start_path b \<noteq> end_path a" "bid_path b x \<noteq> end_path a" for b x by (simp_all add: auc_paths)
  have q: "fs_get (fs d') (start_path b) = fs_get (fs d) (start_path b)" "bid_set (fs d') b = bid_set (fs d) b" for b
    using d'(6) p by (simp_all add: bid_set_def)
  have "clock_ok d' = clock_ok d" using d'(4) q by (intro clock_ok_cong)
  then have "sound d'" using d'(2) inv(2) by (simp add: sound_def)
  moreover have "auction_view d' b = change a (\<lambda>x. x\<lparr>ended := True\<rparr>) (auction_view d) b" for b
  proof (cases "b = a")
    case True
    have "exists_auction a d'" using a(2) d'(4) by (simp add: exists_auction_def)
    moreover have "start_of (fs d') a uid name fname sv ta t" using st q by (simp add: start_of_def)
    ultimately show ?thesis using True auction_view_start [OF a(1)] w q d'(5) by (simp add: change_def)
  next
    case False
    then have "is_valid_aid b \<Longrightarrow> fs_get (fs d') (end_path b) = fs_get (fs d) (end_path b)"
      using d'(6) end_path_inj [OF a(1), of b] by simp
    then have "auction_view d' b = auction_view d b" using d'(4) q by (intro auction_view_cong) (simp_all add: exists_auction_def)
    then show ?thesis using False by (simp add: change_def)
  qed
  moreover have "keeps_records d d'" using d'(6) q by (intro keeps_records_fs) (auto simp: auc_paths asset_path_def)
  ultimately show ?thesis using d'(1,3) by blast
qed

lemma create_view:
  assumes d: "sound d" and n: "auc_count d < 999" and ok: "start_ok uid name fname sv ta now" and t: "now + ta < 2 ^ 31"
    and reg: "user_view d uid = Some r" and recv: "as_recv_asset_file m caps fsize c = Inr (0, asset, c')"
  shows "\<exists>d'. create_new_auction uid name fname sv ta fsize now m caps c d = Inr (auc_count d + 1, c', d')
     \<and> sound d' \<and> user_view d' = user_view d \<and> fs_get (fs d') (asset_path (next_aid d) fname) = Some (File asset)
     \<and> auction_view d' = (auction_view d)(next_aid d \<mapsto>
          \<lparr>owner = uid, start_value = sv, deadline = now + ta, ended = False, bids = {}\<rparr>)
     \<and> start_of (fs d') (next_aid d) uid name fname sv ta now \<and> keeps_records d d'"
proof -
  have inv: "db_inv d" using d by (simp add: sound_def)
  obtain e where e: "create_new_auction uid name fname sv ta fsize now m caps c d = Inr (auc_count d + 1, c', e)" "sound e"
    using create_sound [OF d n ok t reg recv] by blast
  obtain d' where d': "create_new_auction uid name fname sv ta fsize now m caps c d = Inr (auc_count d + 1, c', d')"
    "user_view d' = user_view d" "auc_count d' = auc_count d + 1" "start_of (fs d') (next_aid d) uid name fname sv ta now"
    "fs_get (fs d') (asset_path (next_aid d) fname) = Some (File asset)"
    "bid_set (fs d') (next_aid d) = {}" "fs_get (fs d') (end_path (next_aid d)) = None"
    "\<And>q. take 2 q \<noteq> [''AUCTIONS'', next_aid d] \<Longrightarrow> q \<noteq> hosted_path uid (next_aid d) \<Longrightarrow>
       fs_get (fs d') q = fs_get (fs d) q"
    using create_success [OF inv n ok reg recv] by blast
  have eq: "e = d'" using e(1) d'(1) by simp
  note nx = next_aid(1,3) [OF inv n] and ex = exists_next [OF inv n _ d'(3)]
  have "auction_view d' b = ((auction_view d)(next_aid d \<mapsto>
          \<lparr>owner = uid, start_value = sv, deadline = now + ta, ended = False, bids = {}\<rparr>)) b" for b
  proof (cases "b = next_aid d")
    case True
    have "exists_auction (next_aid d) d'" using ex nx by blast
    then show ?thesis using auction_view_start [OF nx(1) _ d'(4)] d'(6,7) True by simp
  next
    case False
    show ?thesis
    proof (cases "is_valid_aid b")
      case True
      note p = valid_aid_paths [OF True]
      have same: "fs_get (fs d') q = fs_get (fs d) q" if "take 2 q = [''AUCTIONS'', b]" for q
        using that False by (intro d'(8)) (auto simp: hosted_path_def)
      have "exists_auction b d' = exists_auction b d" using ex [OF True] False by blast
      then have "auction_view d' b = auction_view d b"
        using same by (intro auction_view_cong) (simp_all add: bid_set_def p)
      then show ?thesis using False by simp
    qed (use False in \<open>simp add: auction_view_None\<close>)
  qed
  moreover have "keeps_records d d'"
    unfolding keeps_records_def
  proof (intro allI impI)
    fix b assume b: "auction_view d b \<noteq> None"
    then have "is_valid_aid b \<and> exists_auction b d" using auction_view_None [of b d] by (rule contrapos_np)
    then have v: "is_valid_aid b" "b \<noteq> next_aid d" using nx(2) by auto
    have "fs_get (fs d') q = fs_get (fs d) q" if "take 2 q = [''AUCTIONS'', b]" for q
      using that v(2) by (intro d'(8)) (auto simp: hosted_path_def)
    then show "fs_get (fs d') (start_path b) = fs_get (fs d) (start_path b)
        \<and> (\<forall>f. fs_get (fs d') (asset_path b f) = fs_get (fs d) (asset_path b f))"
      by (simp add: asset_path_def valid_aid_paths [OF v(1)])
  qed
  ultimately show ?thesis using d' e(2) unfolding eq by blast
qed

section \<open>How auctions evolve\<close>

text \<open>
  What no operation may violate: an auction keeps its owner, its start value, its deadline and its bids; once
  ended it stays ended and gets no more bids; no auction disappears.
\<close>

definition evolves :: "house \<Rightarrow> house \<Rightarrow> bool" where
  "evolves h h' \<longleftrightarrow> (\<forall>a x. h a = Some x \<longrightarrow>
     (\<exists>y. h' a = Some y \<and> owner y = owner x \<and> start_value y = start_value x \<and> deadline y = deadline x
        \<and> bids x \<subseteq> bids y \<and> (ended x \<longrightarrow> ended y \<and> bids y = bids x)))"

lemma evolves_refl [simp]: "evolves h h"
  by (simp add: evolves_def)

lemma evolves_trans: "evolves h h1 \<Longrightarrow> evolves h1 h2 \<Longrightarrow> evolves h h2"
proof (unfold evolves_def, intro allI impI, goal_cases)
  case (1 a x)
  then obtain y where y: "h1 a = Some y" "owner y = owner x" "start_value y = start_value x" "deadline y = deadline x"
    "bids x \<subseteq> bids y" "ended x \<longrightarrow> ended y \<and> bids y = bids x" by blast
  obtain z where "h2 a = Some z" "owner z = owner y" "start_value z = start_value y" "deadline z = deadline y"
    "bids y \<subseteq> bids z" "ended y \<longrightarrow> ended z \<and> bids z = bids y" using 1(2) y(1) by blast
  with y show ?case by auto
qed

lemma evolves_expire: "evolves h (expire now h)"
  by (simp add: evolves_def expire_def)

lemma evolves_change:
  assumes "\<And>x. h a = Some x \<Longrightarrow> owner (f x) = owner x \<and> start_value (f x) = start_value x \<and> deadline (f x) = deadline x
        \<and> bids x \<subseteq> bids (f x) \<and> (ended x \<longrightarrow> ended (f x) \<and> bids (f x) = bids x)"
  shows "evolves h (change a f h)"
  using assms by (simp add: evolves_def change_def)

lemma evolves_new: "h a = None \<Longrightarrow> evolves h (h(a \<mapsto> x))"
  by (simp add: evolves_def)

lemma keeps_records_trans:
  assumes "keeps_records d d1" "keeps_records d1 d2" "evolves (auction_view d) (auction_view d1)"
  shows "keeps_records d d2"
  unfolding keeps_records_def
proof (intro allI impI)
  fix a assume a: "auction_view d a \<noteq> None"
  then have "auction_view d1 a \<noteq> None" using assms(3) unfolding evolves_def by (metis not_None_eq)
  then show "fs_get (fs d2) (start_path a) = fs_get (fs d) (start_path a)
      \<and> (\<forall>f. fs_get (fs d2) (asset_path a f) = fs_get (fs d) (asset_path a f))"
    using a assms(1,2) by (simp add: keeps_records_def)
qed

definition step_ok :: "db \<Rightarrow> db \<Rightarrow> bool" where
  "step_ok d d' \<longleftrightarrow> sound d' \<and> evolves (auction_view d) (auction_view d') \<and> keeps_records d d'"

lemma step_ok_same: "sound d \<Longrightarrow> step_ok d d"
  by (simp add: step_ok_def)

lemma step_ok_trans: "step_ok d d1 \<Longrightarrow> step_ok d1 d2 \<Longrightarrow> step_ok d d2"
  by (auto simp: step_ok_def intro: evolves_trans keeps_records_trans)

lemma step_ok_update: "sound d \<Longrightarrow> update_database now d = Inr (0, d') \<Longrightarrow> step_ok d d'"
  using update_view [of d now d'] keeps_records_fs [of d' d]
  by (simp add: step_ok_def evolves_expire auc_paths asset_path_def)

lemma step_ok_view: "sound d' \<Longrightarrow> auction_view d' = auction_view d \<Longrightarrow> keeps_records d d' \<Longrightarrow> step_ok d d'"
  by (simp add: step_ok_def)

lemma account_ops_view:
  assumes "is_valid_uid u"
  shows "auction_view (snd (log_in_user u d)) = auction_view d" "auction_view (snd (log_out_user u d)) = auction_view d"
    "auction_view (snd (register_user u pw d)) = auction_view d" "auction_view (snd (unregister_user u d)) = auction_view d"
proof -
  have view: "auction_view e = auction_view d"
    if "auc_count e = auc_count d" "\<And>p. take 2 p \<noteq> [''USERS'', u] \<or> length p = 4 \<Longrightarrow> fs_get (fs e) p = fs_get (fs d) p" for e
  proof (rule ext, rule auction_view_cong)
    show "exists_auction a e = exists_auction a d" for a using that(1) by (simp add: exists_auction_def)
  qed (simp_all add: that(2) auc_paths bid_set_def)
  show "auction_view (snd (log_in_user u d)) = auction_view d"
    by (rule view [OF account_op_count(1) account_op_frame(1) [OF assms]])
  show "auction_view (snd (log_out_user u d)) = auction_view d"
    by (rule view [OF account_op_count(2) account_op_frame(2) [OF assms]])
  show "auction_view (snd (register_user u pw d)) = auction_view d"
    by (rule view [OF account_op_count(3) account_op_frame(3) [OF assms]])
  show "auction_view (snd (unregister_user u d)) = auction_view d"
    by (rule view [OF account_op_count(4) account_op_frame(4) [OF assms]])
qed

lemma account_ops_records:
  assumes "is_valid_uid u"
  shows "keeps_records d (snd (log_in_user u d))" "keeps_records d (snd (log_out_user u d))"
    "keeps_records d (snd (register_user u pw d))" "keeps_records d (snd (unregister_user u d))"
  using account_op_frame [OF assms] by (auto intro!: keeps_records_fs simp: auc_paths asset_path_def)

end
