(* ===== verification/UdpSafety.thy ===== *)
theory UdpSafety
  imports UdpAuctions AuctionHouse
begin

text \<open>
  What an arbitrary datagram can do to the server: on a sound database every datagram is answered and
  leaves a sound database, except the malformed \<open>SRC\<close>, which crashes it. The second part shows how one
  failed system call leads out of the sound databases and to the same crash.
\<close>

section \<open>The handlers on a sound database\<close>

definition answered :: "db \<Rightarrow> udp_result \<Rightarrow> bool" where
  "answered d r \<longleftrightarrow> (\<exists>err resp len d'. r = Inr (err, resp, len, d') \<and> 0 \<le> err \<and> err \<le> 5 \<and> step_ok d d')"

lemma answered_reply [simp]: "answered d (udp_reply msg d') = step_ok d d'"
  by (auto simp: answered_def udp_reply_def)

lemma answered_fail [simp]: "0 \<le> err \<Longrightarrow> err \<le> 5 \<Longrightarrow> answered d (udp_fail err d') = step_ok d d'"
  by (auto simp: answered_def udp_fail_def)

lemma account_steps_sound:
  assumes d: "sound d" and u: "is_valid_uid u"
  shows "log_in_user u d = (rc, d') \<Longrightarrow> exists_user u d \<Longrightarrow> sound d'"
    and "register_user u pw d = (rc, d') \<Longrightarrow> \<not> exists_user u d \<Longrightarrow> is_valid_passwd pw \<Longrightarrow> sound d'"
    and "log_out_user u d = (rc, d') \<Longrightarrow> is_user_logged_in u d \<Longrightarrow> sound d'"
    and "unregister_user u d = (rc, d') \<Longrightarrow> is_user_logged_in u d \<Longrightarrow> sound d'"
proof -
  note inv = sound_users_inv [OF d] and ops = account_ops_sound [OF d u]
  note views = us.exists_view [OF inv u] us.logged_view [OF inv u]
  show "sound d'" if A: "log_in_user u d = (rc, d')" "exists_user u d"
  proof -
    obtain pw l where "user_view d u = Some (pw, l)" using A(2) views(1) by auto
    from ops(1) [OF this] show ?thesis using A(1) by auto
  qed
  show "sound d'" if A: "register_user u pw d = (rc, d')" "\<not> exists_user u d" "is_valid_passwd pw"
  proof -
    have "user_view d u = None" using A(2) views(1) by (cases "user_view d u") auto
    from ops(3) [OF A(3) this] show ?thesis using A(1) by auto
  qed
  show "sound d'" if A: "log_out_user u d = (rc, d')" "is_user_logged_in u d"
  proof -
    obtain pw where "user_view d u = Some (pw, True)" using A(2) views(2) by auto
    from ops(2) [OF this] show ?thesis using A(1) by auto
  qed
  show "sound d'" if A: "unregister_user u d = (rc, d')" "is_user_logged_in u d"
  proof -
    obtain pw where "user_view d u = Some (pw, True)" using A(2) views(2) by auto
    from ops(4) [OF this] show ?thesis using A(1) by auto
  qed
qed

lemma account_steps_ok:
  assumes d: "sound d" and u: "is_valid_uid u"
  shows "log_in_user u d = (rc, d') \<Longrightarrow> exists_user u d \<Longrightarrow> step_ok d d'"
    and "register_user u pw d = (rc, d') \<Longrightarrow> \<not> exists_user u d \<Longrightarrow> is_valid_passwd pw \<Longrightarrow> step_ok d d'"
    and "log_out_user u d = (rc, d') \<Longrightarrow> is_user_logged_in u d \<Longrightarrow> step_ok d d'"
    and "unregister_user u d = (rc, d') \<Longrightarrow> is_user_logged_in u d \<Longrightarrow> step_ok d d'"
  using account_steps_sound [OF d u] account_ops_view [OF u, where d = d] account_ops_view(3) [OF u, where pw = pw and d = d]
    account_ops_records [OF u, where d = d] account_ops_records(3) [OF u, where pw = pw and d = d]
  by (metis snd_conv step_ok_view)+

lemma account_handlers_answered:
  assumes d: "sound d"
  shows "answered d (handle_login input d)" "answered d (handle_logout input d)" "answered d (handle_unregister input d)"
  using step_ok_same [OF d] account_steps_ok [OF d]
  unfolding handle_login_def handle_logout_def handle_unregister_def
  by (auto simp: udp_err_defs split: option.split prod.split)

lemma list_handlers_answered:
  assumes d: "sound d"
  shows "answered d (handle_my_auctions now input d)" "answered d (handle_my_bids now input d)"
    "answered d (handle_list now input d)"
proof -
  obtain d' where d': "update_database now d = Inr (0, d')" "sound d'" using sound_update [OF d] by blast
  note s = step_ok_same [OF d] step_ok_update [OF d d'(1)]
  show "answered d (handle_my_auctions now input d)" "answered d (handle_my_bids now input d)"
    using s d'(1) unfolding handle_my_auctions_def handle_my_bids_def
    by (auto simp: udp_err_defs split: option.split prod.split)
  show "answered d (handle_list now input d)"
    using s d' auctions_list_spec [of d'] by (simp add: handle_list_def sound_def)
qed

lemma show_record_answered:
  assumes d: "sound d"
  shows "case strtok [LF] input of
      (None, _) \<Rightarrow> handle_show_record now input d = udp_fail ERR_SRC d
    | (Some a, _) \<Rightarrow> if is_valid_aid a then answered d (handle_show_record now input d)
                    else handle_show_record now input d = udp_fail ERR_SRC d"
proof -
  have inv: "db_inv d" "clock_ok d" using d by (simp_all add: sound_def)
  obtain d' where d': "update_database now d = Inr (0, d')" "sound d'" using sound_update [OF d] by blast
  have "answered d (handle_show_record now input d)" if tok: "strtok [LF] input = (Some a, r)" and a: "is_valid_aid a" for a r
  proof (cases "exists_auction a d")
    case True
    have "auction_ok (fs d) a" using db_invD(7) [OF inv(1) a True] .
    then obtain uid name fname sv ta t c where st: "start_of (fs d) a uid name fname sv ta t" by (rule auction_okE)
    show ?thesis using handle_show_record_known [OF inv a True st tok d'(1)] step_ok_update [OF d d'(1)] by (simp add: answered_def)
  next
    case False
    then show ?thesis using handle_show_record_unknown [OF tok a False, of now] step_ok_same [OF d] by simp
  qed
  then show ?thesis by (auto simp: handle_show_record_def split: option.split prod.split)
qed

definition malformed_show_record :: "string \<Rightarrow> bool" where
  "malformed_show_record dg \<longleftrightarrow> dg \<noteq> [] \<and> length dg \<le> 20 \<and> last dg = LF \<and> take 4 (cstr dg) = ''SRC ''
     \<and> (case fst (strtok [LF] (drop 4 (cstr dg))) of None \<Rightarrow> True | Some a \<Rightarrow> \<not> is_valid_aid a)"

lemma error_msg_known: "1 \<le> err \<Longrightarrow> err \<le> 5 \<Longrightarrow> get_udp_error_msg err \<noteq> None"
  by (simp add: get_udp_error_msg_def udp_errors_table_def)

lemma drop_min_length [simp]: "drop (min (length xs) n) xs = drop n xs"
  by (simp add: min_def)

lemma handle_udp_command_answered:
  assumes "get_udp_handler_fn (take 4 request) = Some h"
    "answered d (run_udp_handler h now (drop 4 request) d)"
  shows "\<exists>resp len d'. handle_udp_command now request d = Inr (0, resp, len, d') \<and> step_ok d d'"
proof -
  obtain err resp len d' where r: "run_udp_handler h now (drop 4 request) d = Inr (err, resp, len, d')"
    "0 \<le> err" "err \<le> 5" "step_ok d d'"
    using assms(2) by (auto simp: answered_def)
  show ?thesis
  proof (cases "err = 0")
    case True
    then show ?thesis using r assms(1) by (simp add: handle_udp_command_def Let_def)
  next
    case False
    then obtain msg where "get_udp_error_msg err = Some msg" using error_msg_known [of err] r(2,3) by auto
    then show ?thesis using False r assms(1) by (simp add: handle_udp_command_def Let_def)
  qed
qed

lemma strtok_fst: "strtok d s = (fst (strtok d s), snd (strtok d s))"
  by simp

lemma handle_udp_command_total:
  assumes d: "sound d"
  shows "if take 4 request = ''SRC '' \<and> (case fst (strtok [LF] (drop 4 request)) of None \<Rightarrow> True | Some a \<Rightarrow> \<not> is_valid_aid a)
         then handle_udp_command now request d = Inl NullDeref
         else \<exists>err resp len d'. handle_udp_command now request d = Inr (err, resp, len, d') \<and> step_ok d d'"
proof (cases "take 4 request = ''SRC ''")
  case True
  then have h: "get_udp_handler_fn (take 4 request) = Some H_show_record"
    by (simp only: True) (simp add: get_udp_handler_fn_def udp_command_table_def)
  have crash: "handle_udp_command now request d = Inl NullDeref"
    if "handle_show_record now (drop 4 request) d = udp_fail ERR_SRC d"
    using that h by (simp add: handle_udp_command_def Let_def run_udp_handler_def udp_fail_def ERR_SRC_def
      get_udp_error_msg_def udp_errors_table_def)
  note ans = show_record_answered [OF d, where input = "drop 4 request" and now = now]
  show ?thesis
  proof (cases "fst (strtok [LF] (drop 4 request))")
    case None
    then have "handle_show_record now (drop 4 request) d = udp_fail ERR_SRC d"
      using ans by (simp add: split_beta)
    then show ?thesis using None True crash by simp
  next
    case (Some a)
    then have "if is_valid_aid a then answered d (handle_show_record now (drop 4 request) d)
               else handle_show_record now (drop 4 request) d = udp_fail ERR_SRC d"
      using ans by (simp add: split_beta)
    then show ?thesis
      using Some True crash handle_udp_command_answered [OF h, where now = now and d = d]
      by (auto simp: run_udp_handler_def split: if_splits)
  qed
next
  case False
  show ?thesis
  proof (cases "get_udp_handler_fn (take 4 request)")
    case None
    then show ?thesis using False step_ok_same [OF d] by (simp add: handle_udp_command_def Let_def udp_fail_def)
  next
    case (Some h)
    have "h \<noteq> H_show_record"
      using Some False by (auto simp: get_udp_handler_fn_def udp_command_table_def split: if_splits)
    then have "answered d (run_udp_handler h now (drop 4 request) d)"
      using account_handlers_answered [OF d] list_handlers_answered [OF d]
      by (cases h) (simp_all add: run_udp_handler_def)
    from handle_udp_command_answered [OF Some this] show ?thesis using False by auto
  qed
qed

section \<open>Every datagram\<close>

lemma udp_round_step:
  assumes "sound d"
  shows "if malformed_show_record dg then udp_round now dg d = Inl NullDeref
         else \<exists>reply d'. udp_round now dg d = Inr (reply, d') \<and> step_ok d d'"
proof (cases "dg \<noteq> [] \<and> length dg \<le> 20 \<and> last dg = LF")
  case True
  then have "dg ! (length dg - 1) = LF" by (metis last_conv_nth)
  with True have "udp_round now dg d = bind_ok (handle_udp_command now (cstr dg) d) (\<lambda>(err, response, response_len, d').
             if err \<noteq> 0 then Inr (''ERR'' @ [LF], d') else Inr (sent_bytes response response_len, d'))"
    by (simp add: udp_round_def)
  then show ?thesis
    using handle_udp_command_total [OF assms, of "cstr dg" now] True
    by (auto simp: malformed_show_record_def)
next
  case False
  then have "udp_round now dg d = Inr (''ERR'' @ [LF], d)"
    using last_conv_nth [of dg] by (auto simp: udp_round_def)
  then show ?thesis using False step_ok_same [OF assms] by (auto simp: malformed_show_record_def)
qed

text \<open>
  C27. On a sound database exactly one kind of datagram harms the server: a malformed \<open>SRC\<close> (no word
  after the command, or one that is no auction identifier) dereferences the null error message. Every
  other datagram, of any length and content, gets a reply, and the database stays sound.
\<close>

theorem udp_round_total:
  assumes "sound d"
  shows "if malformed_show_record dg then udp_round now dg d = Inl NullDeref
         else \<exists>reply d'. udp_round now dg d = Inr (reply, d') \<and> sound d'"
  using udp_round_step [OF assms, of dg now] by (auto simp: step_ok_def)

lemma witness_datagrams:
  "malformed_show_record (''SRC'' @ [SP, LF])" "\<not> malformed_show_record (''SRC 001'' @ [LF, LF])"
  "\<not> malformed_show_record (''XYZ'' @ [NUL, LF])"
  by (simp_all add: malformed_show_record_def cstr_def strtok_def is_valid_aid_iff isdigit_def)

theorem udp_round_total_witness:
  "udp_round 0 (''SRC'' @ [SP, LF]) lamp_db = Inl NullDeref
   \<and> (\<exists>reply d'. udp_round 0 (''SRC 001'' @ [LF, LF]) lamp_db = Inr (reply, d') \<and> sound d')
   \<and> (\<exists>reply d'. udp_round 0 (''XYZ'' @ [NUL, LF]) lamp_db = Inr (reply, d') \<and> sound d')"
  using udp_round_total [OF lamp_db(1), of "''SRC'' @ [SP, LF]" 0]
    udp_round_total [OF lamp_db(1), of "''SRC 001'' @ [LF, LF]" 0]
    udp_round_total [OF lamp_db(1), of "''XYZ'' @ [NUL, LF]" 0] witness_datagrams
  by (simp only: if_True if_False simp_thms)

section \<open>A failed system call\<close>

text \<open>
  C36. The counter is not rolled back when a directory cannot be made. If the operating system refuses the
  directory of a new auction once, \<open>create_new_auction\<close> returns \<open>-1\<close> but leaves \<open>auc_count\<close> raised: the
  server takes the auction for an existing one, and a well-formed \<open>SRC\<close> for it crashes the server, even
  when the disk works again.
\<close>

theorem failed_mkdir_phantom:
  assumes d: "sound d" and n: "auc_count d < 999"
  shows "create_new_auction uid name fname sv ta fsize now m caps c (d\<lparr>fs := (fs d)\<lparr>denied := [auc_dir (auc_count d + 1)]\<rparr>\<rparr>)
       = Inr (- 1, c, d\<lparr>fs := (fs d)\<lparr>denied := [auc_dir (auc_count d + 1)]\<rparr>, auc_count := auc_count d + 1\<rparr>)
     \<and> udp_round now' (''SRC '' @ next_aid d @ [LF]) (d\<lparr>auc_count := auc_count d + 1\<rparr>) = Inl NullDeref"
proof
  have inv: "db_inv d" using d by (simp add: sound_def)
  note I = db_invD [OF inv] and a = next_aid [OF inv n]
  let ?d = "d\<lparr>fs := (fs d)\<lparr>denied := [auc_dir (auc_count d + 1)]\<rparr>\<rparr>"
  have dir: "auc_dir (auc_count d + 1) = [''AUCTIONS'', next_aid d]" by (simp add: auc_dir_def next_aid_def)
  have get: "fs_get (fs ?d) q = fs_get (fs d) q" for q by (simp add: fs_get_def)
  have "fs_get (fs d) [''AUCTIONS'', next_aid d] = None" using a(4) [of "[]"] by simp
  then have no: "fs_get (fs ?d) (auc_dir (auc_count d + 1)) = None" unfolding get by (simp only: dir)
  then have "mkdir_if_absent (auc_dir (auc_count d + 1)) (fs ?d) = None"
    by (simp add: mkdir_if_absent_def sys_mkdir_def)
  then have "create_auction_dir ?d = (- 1, ?d\<lparr>auc_count := auc_count d + 1\<rparr>)"
    using n by (simp add: create_auction_dir_def Let_def)
  then show "create_new_auction uid name fname sv ta fsize now m caps c ?d
       = Inr (- 1, c, d\<lparr>fs := (fs d)\<lparr>denied := [auc_dir (auc_count d + 1)]\<rparr>, auc_count := auc_count d + 1\<rparr>)"
    by (simp add: create_new_auction_def)
  let ?e = "d\<lparr>auc_count := auc_count d + 1\<rparr>"
  obtain d' where d': "update_database now' d = Inr (0, d')" "sound d'" "auc_count d' = auc_count d"
    using sound_update [OF d] by blast
  have "\<exists>d''. update_database now' ?e = Inr (0, d'') \<and> fs d'' = fs d'"
    using d'(1) by (auto simp: update_database_def bind_ok_def split: option.splits sum.splits)
  then obtain d'' where d'': "update_database now' ?e = Inr (0, d'')" "fs d'' = fs d'" by blast
  have inv': "db_inv d'" using d'(2) by (simp add: sound_def)
  have na: "next_aid d' = next_aid d" using d'(3) by (simp add: next_aid_def)
  have "fs_get (fs d') (start_path (next_aid d)) = None"
    using next_aid(4) [OF inv', of "[''START_'' @ next_aid d @ ''.txt'']"] d'(3) n
    by (simp add: na valid_aid_paths [OF a(1)])
  then have info: "get_auction_info (next_aid d) 128 d'' = None"
    by (simp add: get_auction_info_def sys_can_read_def d''(2))
  have "exists_auction (next_aid d) ?e" using a(2) I(10) by (simp add: exists_auction_def)
  then have "handle_show_record now' (next_aid d @ [LF]) ?e = udp_fail ERR_SRC d''"
    using aid_request [OF a(1)] a(1) d''(1) info by (simp add: handle_show_record_def)
  then show "udp_round now' (''SRC '' @ next_aid d @ [LF]) ?e = Inl NullDeref"
    using udp_round_error [of "next_aid d" "''SRC ''" H_show_record now' ?e ERR_SRC d''] aid_request [OF a(1)]
    by (simp add: udp_command_table_def run_udp_handler_def ERR_SRC_def get_udp_error_msg_def udp_errors_table_def)
qed

theorem failed_mkdir_phantom_witness:
  "udp_round 1700000001 (''SRC 001'' @ [LF]) (two_users\<lparr>auc_count := 1\<rparr>) = Inl NullDeref"
  using failed_mkdir_phantom [OF two_users(1), where now' = 1700000001] next_aid_two_users two_users(2) by simp

end
