(* ===== verification/TcpServer.thy ===== *)
theory TcpServer
  imports DbReports
begin

text \<open>
  \<open>server/tcp.c\<close> and \<open>server/tcp_command_table.c\<close>. A handler works on the client's connection and
  the database; its result is 0 when it has talked to the client itself, and an error code when the
  command is malformed. Between two database calls other threads may run: each handler is
  translated as the sequence of its calls.
\<close>

type_synonym tcp_result = "(int \<times> conn \<times> db) outcome"

definition OPA_BAD_ARGS :: int where "OPA_BAD_ARGS = 1"
definition CLS_BAD_ARGS :: int where "CLS_BAD_ARGS = 2"
definition SAS_BAD_ARGS :: int where "SAS_BAD_ARGS = 3"
definition BID_BAD_ARGS :: int where "BID_BAD_ARGS = 4"

lemmas tcp_err_defs = OPA_BAD_ARGS_def CLS_BAD_ARGS_def SAS_BAD_ARGS_def BID_BAD_ARGS_def

text \<open>\<open>send_tcp_message(s, strlen(s), fd)\<close> on a string, and a reply whose failure is only logged.\<close>

definition send_str :: "string \<Rightarrow> conn \<Rightarrow> (int \<times> conn) outcome" where
  "send_str s c = send_tcp_message (s @ [NUL]) (length s) c"

definition tcp_reply :: "string \<Rightarrow> conn \<Rightarrow> db \<Rightarrow> tcp_result" where
  "tcp_reply s c d = bind_ok (send_str s c) (\<lambda>(_, c'). Inr (0, c', d))"

section \<open>handle_open\<close>

definition is_valid_opa_arg :: "string \<Rightarrow> nat \<Rightarrow> bool" where
  "is_valid_opa_arg arg argno =
     (if argno = 0 then is_valid_name arg
      else if argno = 1 then is_valid_start_value arg
      else if argno = 2 then is_valid_time_active arg
      else if argno = 3 then is_valid_fname arg
      else if argno = 4 then is_valid_fsize arg
      else True)"

definition opa_args_len :: "nat list" where
  "opa_args_len = [ASSET_NAME_LEN, START_VALUE_LEN, TIME_ACTIVE_LEN, FNAME_LEN, FSIZE_STR_LEN]"

text \<open>\<open>argno == 5\<close> passes the test of the code and reads behind the table.\<close>

definition get_opa_arg_len :: "int \<Rightarrow> nat outcome" where
  "get_opa_arg_len argno =
     (if argno < 0 \<or> argno > 5 then Inr 0
      else if nat argno < length opa_args_len then Inr (opa_args_len ! nat argno)
      else Inl OutOfBounds)"

text \<open>
  The five arguments, read byte by byte: \<open>arg\<close> holds the bytes of the current argument. The
  result of \<open>recv\<close> decides between an argument list, \<open>OPA_BAD_ARGS\<close> and 0 (the client has closed
  the connection). A byte that ends the argument is compared before the length check counts it.
\<close>

function opa_args_loop :: "string \<Rightarrow> string list \<Rightarrow> conn \<Rightarrow> (int + string list) outcome \<times> conn" where
  "opa_args_loop arg args c =
     (if length args < 5 then
        (case recv 1 c of
           (Inl _, c') \<Rightarrow> (Inr (Inl OPA_BAD_ARGS), c')
         | (Inr bs, c') \<Rightarrow>
             if bs = [] then (Inr (Inl 0), c')
             else (case get_opa_arg_len (int (length args)) of
                     Inl f \<Rightarrow> (Inl f, c')
                   | Inr len \<Rightarrow>
                       if length arg > len then (Inr (Inl OPA_BAD_ARGS), c')
                       else if hd bs = SP then
                         (if \<not> is_valid_opa_arg (cstr arg) (length args) then (Inr (Inl OPA_BAD_ARGS), c')
                          else opa_args_loop [] (args @ [cstr arg]) c')
                       else opa_args_loop (arg @ [hd bs]) args c'))
      else (Inr (Inr args), c))"
  by pat_completeness auto
termination
proof (relation "measure (\<lambda>(arg, args, c). length (concat (rx c)))", goal_cases)
  case 1
  show ?case by simp
next
  case (2 arg args c x y b z)
  then have "length b + length (concat (rx y)) = length (concat (rx c))"
    using recv_consumes [of 1 c b y] by (metis length_append)
  with 2 show ?case by (auto simp flip: length_greater_0_conv)
next
  case (3 arg args c x y b z)
  then have "length b + length (concat (rx y)) = length (concat (rx c))"
    using recv_consumes [of 1 c b y] by (metis length_append)
  with 3 show ?case by (auto simp flip: length_greater_0_conv)
qed

declare opa_args_loop.simps [simp del]

definition handle_open :: "int \<Rightarrow> mem \<Rightarrow> cap list \<Rightarrow> conn \<Rightarrow> db \<Rightarrow> tcp_result" where
  "handle_open now m caps c d =
     bind_ok (read_tcp_stream (replicate 128 NUL) (UID_SIZE + 1 + PASSWORD_SIZE + 1) c) (\<lambda>(err, buff, c1).
     if err \<noteq> 0 then
       (if err = ERR_TCP_READ_CLOSED then Inr (0, c1, d) else Inr (OPA_BAD_ARGS, c1, d))
     else if buff ! (UID_SIZE + PASSWORD_SIZE + 1) \<noteq> SP then Inr (OPA_BAD_ARGS, c1, d)
     else case strtok [SP] (cstr buff) of
       (None, _) \<Rightarrow> Inr (OPA_BAD_ARGS, c1, d)
     | (Some uid, r) \<Rightarrow>
     if \<not> is_valid_uid uid then Inr (OPA_BAD_ARGS, c1, d)
     else case strtok [SP] r of
       (None, _) \<Rightarrow> Inr (OPA_BAD_ARGS, c1, d)
     | (Some passwd, _) \<Rightarrow>
     if \<not> is_valid_passwd passwd then Inr (OPA_BAD_ARGS, c1, d)
     else case opa_args_loop [] [] c1 of
       (Inl f, _) \<Rightarrow> Inl f
     | (Inr (Inl rc), c2) \<Rightarrow> Inr (rc, c2, d)
     | (Inr (Inr args), c2) \<Rightarrow>
     let name = args ! 0; sv = atoi (args ! 1); ta = atoi (args ! 2); fname = args ! 3; fsize = atol (args ! 4)
     in if sv = 999999 then Inr (OPA_BAD_ARGS, c2, d)
        else if fsize \<le> 0 \<or> fsize > 10000000 then Inr (OPA_BAD_ARGS, c2, d)
        else if \<not> exists_user uid d \<or> \<not> is_user_logged_in uid d then tcp_reply (''ROA NLG'' @ [LF]) c2 d
        else if is_authentic_user uid passwd d = 0 then tcp_reply (''ROA NLG'' @ [LF]) c2 d
        else bind_ok (create_new_auction uid name fname sv ta fsize now m caps c2 d) (\<lambda>(auction_id, c3, d').
          if auction_id = - 1 then tcp_reply (''ROA NOK'' @ [LF]) c3 d'
          else bind_ok (send_tcp_message (''ROA OK '' @ fmt_0d 3 auction_id @ [LF, NUL]) 11 c3) (\<lambda>(_, c4).
            Inr (0, c4, d'))))"

section \<open>handle_close\<close>

text \<open>The part of the handler after the arguments are validated.\<close>

definition close_checked :: "int \<Rightarrow> string \<Rightarrow> string \<Rightarrow> string \<Rightarrow> conn \<Rightarrow> db \<Rightarrow> tcp_result" where
  "close_checked now uid passwd aid c d =
     bind_ok (update_database now d) (\<lambda>(_, d1).
     if \<not> exists_user uid d1 \<or> \<not> is_user_logged_in uid d1 \<or> is_authentic_user uid passwd d1 = 0
     then tcp_reply (''RCL NLG'' @ [LF]) c d1
     else if \<not> exists_auction aid d1 then tcp_reply (''RCL EAU'' @ [LF]) c d1
     else case get_auction_info aid 256 d1 of
       None \<Rightarrow> tcp_reply (''RCL NOK'' @ [LF]) c d1
     | Some auction_info \<Rightarrow>
     (case fst (strtok [SP] auction_info) of
        None \<Rightarrow> Inl NullDeref
      | Some owner_uid \<Rightarrow>
     if owner_uid \<noteq> uid then tcp_reply (''RCL EOW'' @ [LF]) c d1
     else if is_auction_finished aid d1 then tcp_reply (''RCL END'' @ [LF]) c d1
     else case close_auction now aid d1 of
       (rc, d2) \<Rightarrow> if rc \<noteq> 0 then tcp_reply (''RCL NOK'' @ [LF]) c d2
                  else tcp_reply (''RCL OK'' @ [LF]) c d2))"

definition handle_close :: "int \<Rightarrow> conn \<Rightarrow> db \<Rightarrow> tcp_result" where
  "handle_close now c d =
     bind_ok (read_tcp_stream (replicate 128 NUL) (UID_SIZE + 1 + PASSWORD_SIZE + 1 + AID_SIZE + 1) c) (\<lambda>(err, buff, c1).
     if err \<noteq> 0 then
       (if err = ERR_TCP_READ_CLOSED then Inr (0, c1, d) else Inr (CLS_BAD_ARGS, c1, d))
     else if buff ! (UID_SIZE + PASSWORD_SIZE + AID_SIZE + 2) \<noteq> LF then Inr (CLS_BAD_ARGS, c1, d)
     else
     let (uid', r1) = strtok [SP] (cstr buff); (passwd', r2) = strtok [SP] r1; (aid', _) = strtok [LF] r2
     in case (uid', passwd', aid') of
       (Some uid, Some passwd, Some aid) \<Rightarrow>
         if \<not> is_valid_uid uid \<or> \<not> is_valid_passwd passwd \<or> \<not> is_valid_aid aid then Inr (CLS_BAD_ARGS, c1, d)
         else close_checked now uid passwd aid c1 d
     | _ \<Rightarrow> Inr (CLS_BAD_ARGS, c1, d))"

section \<open>handle_show_asset\<close>

text \<open>\<open>rcaps\<close> is how \<open>read\<close> answers on the asset file; the file name is the third word of the record.
  \<open>stat\<close> and \<open>open\<close> also succeed on a directory (of the usual 4096 bytes), whose \<open>read\<close> then fails.\<close>

definition stat_size :: "node \<Rightarrow> int" where
  "stat_size n = (case n of File content \<Rightarrow> int (length content) | Dir \<Rightarrow> 4096)"

definition asset_node :: "cap list \<Rightarrow> node \<Rightarrow> string \<times> cap list" where
  "asset_node rcaps n = (case n of File content \<Rightarrow> (content, rcaps) | Dir \<Rightarrow> ([], [Refuse EOTHER]))"

text \<open>The part of the handler that opens the asset file and sends it.\<close>

definition send_asset :: "cap list \<Rightarrow> path \<Rightarrow> string \<Rightarrow> string \<Rightarrow> conn \<Rightarrow> db \<Rightarrow> tcp_result" where
  "send_asset rcaps asset_path aid asset_fname c1 d =
     (if length (''AUCTIONS/'' @ aid @ ''/ASSET/'' @ asset_fname) \<ge> 128 then Inl OutOfBounds
      else case fs_get (fs d) asset_path of
        None \<Rightarrow> tcp_reply (''RSA NOK'' @ [LF]) c1 d
      | Some n \<Rightarrow>
          if \<not> sys_can_read asset_path (fs d) then tcp_reply (''RSA NOK'' @ [LF]) c1 d
          else
            let (content, answers) = asset_node rcaps n; st_size = stat_size n;
                resp_info = ''RSA OK '' @ asset_fname @ '' '' @ fmt_d st_size @ '' ''
            in if length resp_info \<ge> 128 then Inl OutOfBounds
               else bind_ok (send_str resp_info c1) (\<lambda>(rc, c2).
                 if rc \<noteq> 0 then Inr (0, c2, d)
                 else bind_ok (as_send_asset_file content answers st_size c2) (\<lambda>(_, c3).
                   Inr (0, c3, d))))"

definition handle_show_asset :: "cap list \<Rightarrow> conn \<Rightarrow> db \<Rightarrow> tcp_result" where
  "handle_show_asset rcaps c d =
     bind_ok (read_tcp_stream (replicate 8 NUL) (AID_SIZE + 1) c) (\<lambda>(err, buff, c1).
     if err \<noteq> 0 then
       (if err = ERR_TCP_READ_CLOSED then Inr (0, c1, d) else Inr (SAS_BAD_ARGS, c1, d))
     else if buff ! AID_SIZE \<noteq> LF then Inr (SAS_BAD_ARGS, c1, d)
     else case strtok [LF] (cstr buff) of
       (None, _) \<Rightarrow> Inr (SAS_BAD_ARGS, c1, d)
     | (Some aid, _) \<Rightarrow>
     if \<not> is_valid_aid aid then Inr (SAS_BAD_ARGS, c1, d)
     else if \<not> exists_auction aid d then tcp_reply (''RSA NOK'' @ [LF]) c1 d
     else case get_auction_info aid 256 d of
       None \<Rightarrow> tcp_reply (''RSA NOK'' @ [LF]) c1 d
     | Some auction_info \<Rightarrow>
     (case fst (strtok [SP] (strtok_n 2 [SP] auction_info)) of
        None \<Rightarrow> tcp_reply (''RSA NOK'' @ [LF]) c1 d
      | Some asset_fname \<Rightarrow> send_asset rcaps [''AUCTIONS'', aid, ''ASSET'', asset_fname] aid asset_fname c1 d))"

section \<open>handle_bid\<close>

text \<open>
  The digits of the value: at most six are read, leading zeros are skipped. The result is the
  value's text, or the code the handler returns.
\<close>

function bid_value_loop :: "string \<Rightarrow> conn \<Rightarrow> (int + string) \<times> conn" where
  "bid_value_loop value c =
     (if length value < MAX_BID_VALUE then
        (case recv 1 c of
           (Inl _, c') \<Rightarrow> (Inl BID_BAD_ARGS, c')
         | (Inr bs, c') \<Rightarrow>
             if bs = [] then (Inl 0, c')
             else if hd bs = LF then (Inr value, c')
             else if length value = 0 \<and> hd bs = CHR ''0'' then bid_value_loop value c'
             else if \<not> isdigit (hd bs) then (Inl BID_BAD_ARGS, c')
             else bid_value_loop (value @ [hd bs]) c')
      else (Inr value, c))"
  by pat_completeness auto
termination
proof (relation "measure (\<lambda>(value, c). length (concat (rx c)))", goal_cases)
  case 1
  show ?case by simp
next
  case (2 v c x y b)
  then have "length b + length (concat (rx y)) = length (concat (rx c))"
    using recv_consumes [of 1 c b y] by (metis length_append)
  with 2 show ?case by (auto simp flip: length_greater_0_conv)
next
  case (3 v c x y b)
  then have "length b + length (concat (rx y)) = length (concat (rx c))"
    using recv_consumes [of 1 c b y] by (metis length_append)
  with 3 show ?case by (auto simp flip: length_greater_0_conv)
qed

declare bid_value_loop.simps [simp del]

text \<open>
  The part of the handler after the arguments are validated: first the checks, which only read the
  database, then the call of \<open>bid\<close>. The database mutex is free between the two.
\<close>

datatype bid_decision = Bid_reply string | Bid_error | Bid_go

definition bid_checks :: "string \<Rightarrow> string \<Rightarrow> string \<Rightarrow> int \<Rightarrow> db \<Rightarrow> bid_decision outcome" where
  "bid_checks uid passwd aid bid_value d1 =
     (if \<not> exists_user uid d1 then Inr (Bid_reply ''NOK'')
      else if \<not> is_user_logged_in uid d1 \<or> is_authentic_user uid passwd d1 = 0 then Inr (Bid_reply ''NLG'')
      else if \<not> exists_auction aid d1 then Inr (Bid_reply ''ERR'')
      else case get_auction_info aid 256 d1 of
        None \<Rightarrow> Inr (Bid_reply ''NOK'')
      | Some auction_info \<Rightarrow>
      (case fst (strtok [SP] auction_info) of
         None \<Rightarrow> Inl NullDeref
       | Some owner_uid \<Rightarrow>
      if owner_uid = uid then Inr (Bid_reply ''ILG'')
      else if is_auction_finished aid d1 then Inr (Bid_reply ''NOK'')
      else case fst (strtok [SP] (strtok_n 3 [SP] auction_info)) of
         None \<Rightarrow> Inl NullDeref
       | Some starting_value \<Rightarrow>
      if \<not> is_valid_start_value starting_value then Inr Bid_error
      else
      let start_bid = atoi starting_value; last_bid = get_last_bid aid d1
      in if last_bid < 0 then Inr Bid_error
         else
         let last_bid' = (if last_bid = 0 then start_bid else last_bid)
         in if bid_value \<le> last_bid' then Inr (Bid_reply ''REF'') else Inr Bid_go))"

definition place_bid :: "int \<Rightarrow> string \<Rightarrow> string \<Rightarrow> string \<Rightarrow> int \<Rightarrow> conn \<Rightarrow> db \<Rightarrow> tcp_result" where
  "place_bid now uid passwd aid bid_value c d =
     bind_ok (update_database now d) (\<lambda>(_, d1).
     bind_ok (bid_checks uid passwd aid bid_value d1) (\<lambda>decision.
     case decision of
       Bid_reply status \<Rightarrow> tcp_reply (''RBD '' @ status @ [LF]) c d1
     | Bid_error \<Rightarrow> Inr (BID_BAD_ARGS, c, d1)
     | Bid_go \<Rightarrow>
         (case bid now aid uid bid_value d1 of
            (rc, d2) \<Rightarrow> if rc \<noteq> 0 then Inr (BID_BAD_ARGS, c, d2)
                       else tcp_reply (''RBD ACC'' @ [LF]) c d2)))"

definition handle_bid :: "int \<Rightarrow> conn \<Rightarrow> db \<Rightarrow> tcp_result" where
  "handle_bid now c d =
     bind_ok (read_tcp_stream (replicate 32 NUL) (UID_SIZE + 1 + PASSWORD_SIZE + 1 + AID_SIZE + 1) c) (\<lambda>(err, buff, c1).
     if err \<noteq> 0 then
       (if err = ERR_TCP_READ_CLOSED then Inr (0, c1, d) else Inr (BID_BAD_ARGS, c1, d))
     else case bid_value_loop [] c1 of
       (Inl rc, c2) \<Rightarrow> Inr (rc, c2, d)
     | (Inr value, c2) \<Rightarrow>
     let bid_value = atoi value;
         (uid', r1) = strtok [SP] (cstr buff); (passwd', r2) = strtok [SP] r1; (aid', _) = strtok [SP] r2
     in case (uid', passwd', aid') of
       (Some uid, Some passwd, Some aid) \<Rightarrow>
         if \<not> is_valid_uid uid \<or> \<not> is_valid_passwd passwd \<or> \<not> is_valid_aid aid then Inr (BID_BAD_ARGS, c2, d)
         else place_bid now uid passwd aid bid_value c2 d
     | _ \<Rightarrow> Inr (BID_BAD_ARGS, c2, d))"

section \<open>The command table and the connection\<close>

datatype tcp_handler = H_open | H_close | H_show_asset | H_bid

definition tcp_command_table :: "(string \<times> tcp_handler) list" where
  "tcp_command_table = [(''OPA '', H_open), (''CLS '', H_close), (''SAS '', H_show_asset), (''BID '', H_bid)]"

definition get_tcp_handler_fn :: "string \<Rightarrow> tcp_handler option" where
  "get_tcp_handler_fn cmd = map_of tcp_command_table cmd"

definition tcp_errors_table :: "string list" where
  "tcp_errors_table =
     [[], ''ROA ERR'' @ [LF], ''RCL ERR'' @ [LF], ''RSA ERR'' @ [LF], ''RBD ERR'' @ [LF]]"

definition get_tcp_error_msg :: "int \<Rightarrow> string option" where
  "get_tcp_error_msg errcode =
     (if errcode < 0 \<or> errcode \<ge> int (length tcp_errors_table) then None
      else Some (tcp_errors_table ! nat errcode))"

text \<open>The clock, the answers of \<open>write\<close> and \<open>read\<close> on the asset file, and the uninitialised buffer.\<close>

record env =
  clock :: int
  wcaps :: "cap list"
  rcaps :: "cap list"
  garbage :: mem

definition run_tcp_handler :: "tcp_handler \<Rightarrow> env \<Rightarrow> conn \<Rightarrow> db \<Rightarrow> tcp_result" where
  "run_tcp_handler h e c d =
     (case h of
        H_open \<Rightarrow> handle_open (clock e) (garbage e) (wcaps e) c d
      | H_close \<Rightarrow> handle_close (clock e) c d
      | H_show_asset \<Rightarrow> handle_show_asset (rcaps e) c d
      | H_bid \<Rightarrow> handle_bid (clock e) c d)"

definition handle_tcp_command :: "env \<Rightarrow> string \<Rightarrow> conn \<Rightarrow> db \<Rightarrow> tcp_result" where
  "handle_tcp_command e cmd c d =
     (case get_tcp_handler_fn cmd of
        None \<Rightarrow> Inr (- 1, c, d)
      | Some fn \<Rightarrow>
          bind_ok (run_tcp_handler fn e c d) (\<lambda>(handler_ret, c1, d1).
            if handler_ret \<noteq> 0 then
              (case get_tcp_error_msg handler_ret of
                 None \<Rightarrow> Inl NullDeref
               | Some err_msg \<Rightarrow> tcp_reply err_msg c1 d1)
            else Inr (0, c1, d1)))"

definition serve_tcp_connection :: "env \<Rightarrow> conn \<Rightarrow> db \<Rightarrow> tcp_result" where
  "serve_tcp_connection e c d =
     bind_ok (read_tcp_stream (replicate 8 NUL) 4 c) (\<lambda>(err, cmd_buffer, c1).
     if err \<noteq> 0 then tcp_reply (''ERR'' @ [LF]) c1 d
     else bind_ok (handle_tcp_command e (cstr cmd_buffer) c1 d) (\<lambda>(rc, c2, d1).
       if rc \<noteq> 0 then tcp_reply (''ERR'' @ [LF]) c2 d1 else Inr (0, c2, d1)))"

end
