(* ===== verification/TcpExchanges.thy ===== *)
theory TcpExchanges
  imports AuctionHouse TcpServer
begin

text \<open>
  The TCP commands as exchanges: what a client that sends one well-formed request reads back, and what the
  request does to the abstract auction house. \<open>bid_outcome\<close> and \<open>close_outcome\<close> say on the abstract state what
  \<open>server/tcp.c\<close> answers; \<open>statement_bid\<close> and \<open>statement_close\<close> say what the protocol of \<open>statement.pdf\<close> demands.
  The exchanges prove the first and where it differs from the second. Each request is handled alone here;
  the section on interleavings shows what two handlers at work on one auction can do. A handler takes the
  time once: \<open>update_database\<close> and the call after it read the clock separately in the code.
\<close>

section \<open>The replies on the abstract state\<close>

type_synonym accounts = "string \<Rightarrow> (string \<times> bool) option"

definition bid_outcome :: "accounts \<Rightarrow> house \<Rightarrow> string \<Rightarrow> string \<Rightarrow> string \<Rightarrow> int \<Rightarrow> string" where
  "bid_outcome us h uid pw aid v =
     (case us uid of
        None \<Rightarrow> ''NOK''
      | Some (pw', logged) \<Rightarrow>
          if \<not> logged \<or> pw' \<noteq> pw then ''NLG''
          else case h aid of
            None \<Rightarrow> ''ERR''
          | Some x \<Rightarrow>
              if owner x = uid then ''ILG''
              else if ended x then ''NOK''
              else if v \<le> (if bids x = {} then start_value x else Max (bids x)) then ''REF''
              else ''ACC'')"

definition close_outcome :: "accounts \<Rightarrow> house \<Rightarrow> string \<Rightarrow> string \<Rightarrow> string \<Rightarrow> string" where
  "close_outcome us h uid pw aid =
     (case us uid of
        None \<Rightarrow> ''NLG''
      | Some (pw', logged) \<Rightarrow>
          if \<not> logged \<or> pw' \<noteq> pw then ''NLG''
          else case h aid of
            None \<Rightarrow> ''EAU''
          | Some x \<Rightarrow> if owner x \<noteq> uid then ''EOW'' else if ended x then ''END'' else ''OK'')"

text \<open>
  The replies \<open>statement.pdf\<close> demands in 3.2(d) and 3.2(h), on the digits \<open>ws\<close> of a value without leading
  zeros. Where two of its sentences apply, the login is checked first and the owner before the end, as in
  the code. Values have at most six digits, and 3.1(n) calls the start value the minimum bid value.
\<close>

definition statement_bid :: "accounts \<Rightarrow> house \<Rightarrow> string \<Rightarrow> string \<Rightarrow> string \<Rightarrow> string \<Rightarrow> string" where
  "statement_bid us h uid pw aid ws =
     (if length ws > 6 then ''ERR''
      else if us uid \<noteq> Some (pw, True) then ''NLG''
      else case h aid of
        None \<Rightarrow> ''NOK''
      | Some x \<Rightarrow>
          if owner x = uid then ''ILG''
          else if ended x then ''NOK''
          else if bids x = {} then (if atoi ws < start_value x then ''REF'' else ''ACC'')
          else if atoi ws \<le> Max (bids x) then ''REF'' else ''ACC'')"

definition statement_close :: "accounts \<Rightarrow> house \<Rightarrow> string \<Rightarrow> string \<Rightarrow> string \<Rightarrow> string" where
  "statement_close us h uid pw aid =
     (case us uid of
        None \<Rightarrow> ''NOK''
      | Some (pw', logged) \<Rightarrow>
          if pw' \<noteq> pw then ''NOK''
          else if \<not> logged then ''NLG''
          else case h aid of
            None \<Rightarrow> ''EAU''
          | Some x \<Rightarrow> if owner x \<noteq> uid then ''EOW'' else if ended x then ''END'' else ''OK'')"

text \<open>Where the code answers otherwise.\<close>

definition bid_diverges :: "accounts \<Rightarrow> house \<Rightarrow> string \<Rightarrow> string \<Rightarrow> string \<Rightarrow> int \<Rightarrow> bool" where
  "bid_diverges us h uid pw aid v \<longleftrightarrow>
     us uid = None
     \<or> us uid = Some (pw, True) \<and> (case h aid of
          None \<Rightarrow> True
        | Some x \<Rightarrow> owner x \<noteq> uid \<and> \<not> ended x \<and> bids x = {} \<and> v = start_value x)"

lemma bid_outcome_statement:
  assumes "length ws \<le> 6"
  shows "bid_outcome us h uid pw aid (atoi (take 6 ws)) = statement_bid us h uid pw aid ws
     \<longleftrightarrow> \<not> bid_diverges us h uid pw aid (atoi (take 6 ws))"
  using assms by (auto simp: bid_outcome_def statement_bid_def bid_diverges_def split: option.splits if_splits)

lemma close_outcome_statement:
  "if \<exists>logged. us uid = Some (pw, logged) then close_outcome us h uid pw aid = statement_close us h uid pw aid
   else close_outcome us h uid pw aid = ''NLG'' \<and> statement_close us h uid pw aid = ''NOK''"
  by (auto simp: close_outcome_def statement_close_def split: option.splits)

section \<open>Replies\<close>

lemma tcp_reply_all: "tx_caps c = [] \<Longrightarrow> tcp_reply s c d = Inr (0, c\<lparr>tx := tx c @ s\<rparr>, d)"
  by (simp add: tcp_reply_def send_str_def send_tcp_message_all)

section \<open>Bids\<close>

lemma bid_checks_refine:
  fixes pw and v :: int
  assumes d: "sound d" and ids: "is_valid_uid uid" "is_valid_aid aid"
  defines "out \<equiv> bid_outcome (user_view d) (auction_view d) uid pw aid v"
  shows "bid_checks uid pw aid v d = Inr (if out = ''ACC'' then Bid_go else Bid_reply out)"
    and "out = ''ACC'' \<Longrightarrow> user_view d uid \<noteq> None \<and> exists_auction aid d \<and> 1 \<le> v"
proof -
  note inv = sound_users_inv [OF d]
  note vs = us.exists_view [OF inv ids(1)] us.logged_view [OF inv ids(1)] us.authentic_view [OF inv ids(1), of pw]
  have "bid_checks uid pw aid v d = Inr (if out = ''ACC'' then Bid_go else Bid_reply out)
     \<and> (out = ''ACC'' \<longrightarrow> user_view d uid \<noteq> None \<and> exists_auction aid d \<and> 1 \<le> v)"
  proof (cases "user_view d uid = Some (pw, True)")
    case False
    then have o: "out = (if user_view d uid = None then ''NOK'' else ''NLG'')"
      by (auto simp: out_def bid_outcome_def split: option.split)
    then show ?thesis using False vs by (auto simp: bid_checks_def)
  next
    case acc: True
    have gate: "exists_user uid d" "is_user_logged_in uid d" "is_authentic_user uid pw d \<noteq> 0"
      using vs acc by (auto simp: ex_bool_eq)
    show ?thesis
    proof (cases "exists_auction aid d")
      case False
      then have "out = ''ERR''" using auction_view_exists [OF d ids(2)] by (simp add: out_def bid_outcome_def acc)
      then show ?thesis using False gate by (simp add: bid_checks_def)
    next
      case True
      obtain own name fname sv ta t asset where st: "start_of (fs d) aid own name fname sv ta t"
        and x: "auction_view d aid = Some \<lparr>owner = own, start_value = sv, deadline = t + ta,
           ended = (fs_get (fs d) (end_path aid) \<noteq> None), bids = bid_set (fs d) aid\<rparr>"
        using auction_viewE [OF d ids(2) True] by metis
      have inv1: "db_inv d" using d by (simp add: sound_def)
      note I = db_invD [OF inv1]
      have ok: "start_ok own name fname sv ta t" using st by (simp add: start_of_def)
      have info: "get_auction_info aid 256 d = Some (start_info own name fname sv ta t)"
        using start_line [OF st I(2), of 256] by (simp add: get_auction_info_def)
      have fin: "is_auction_finished aid d \<longleftrightarrow> fs_get (fs d) (end_path aid) \<noteq> None"
        using I(2) by (simp add: is_auction_finished_def sys_can_read_healthy)
      have svv: "is_valid_start_value (fmt_d sv)" "atoi (fmt_d sv) = sv"
        using ok by (auto simp: start_ok_def fmt_d_valid_start_value intro!: atoi_fmt_d)
      have last: "get_last_bid aid d = (if bid_set (fs d) aid = {} then 0 else Max (bid_set (fs d) aid))"
        using get_last_bid_Max [OF I(2)] I(7) [OF ids(2) True] by (simp add: auction_ok_def)
      have pos: "1 \<le> Max (bid_set (fs d) aid)" if "bid_set (fs d) aid \<noteq> {}"
        using Max_in [OF finite_bid_set that] by (simp add: bid_set_def)
      let ?top = "if bid_set (fs d) aid = {} then sv else Max (bid_set (fs d) aid)"
      have top: "(if get_last_bid aid d = 0 then sv else get_last_bid aid d) = ?top" "\<not> get_last_bid aid d < 0"
        using pos by (cases "bid_set (fs d) aid = {}"; simp add: last)+
      have "bid_checks uid pw aid v d = Inr (if own = uid then Bid_reply ''ILG''
          else if fs_get (fs d) (end_path aid) \<noteq> None then Bid_reply ''NOK''
          else if v \<le> ?top then Bid_reply ''REF'' else Bid_go)"
        by (simp only: bid_checks_def gate True not_True_eq_False if_False simp_thms info option.case
          start_info_tokens [OF ok] fst_conv fin svv Let_def top if_distrib [of Inr])
      moreover have "out = (if own = uid then ''ILG'' else if fs_get (fs d) (end_path aid) \<noteq> None then ''NOK''
          else if v \<le> ?top then ''REF'' else ''ACC'')"
        by (simp add: out_def bid_outcome_def acc x)
      moreover have "0 \<le> sv" using ok by (simp add: start_ok_def)
      then have "1 \<le> v" if "\<not> v \<le> ?top" using that pos by (auto split: if_splits)
      ultimately show ?thesis using acc True by auto
    qed
  qed
  then show "bid_checks uid pw aid v d = Inr (if out = ''ACC'' then Bid_go else Bid_reply out)"
    "out = ''ACC'' \<Longrightarrow> user_view d uid \<noteq> None \<and> exists_auction aid d \<and> 1 \<le> v" by blast+
qed

lemma place_bid_refines:
  fixes pw
  assumes d: "sound d" and ids: "is_valid_uid uid" "is_valid_aid aid" and v: "v \<le> 999999"
    and now: "time_ok now" and caps: "tx_caps c = []"
  defines "h \<equiv> expire now (auction_view d)"
  defines "out \<equiv> bid_outcome (user_view d) h uid pw aid v"
  shows "\<exists>d'. place_bid now uid pw aid v c d = Inr (0, c\<lparr>tx := tx c @ ''RBD '' @ out @ [LF]\<rparr>, d')
     \<and> sound d' \<and> user_view d' = user_view d
     \<and> auction_view d' = (if out = ''ACC'' then change aid (\<lambda>x. x\<lparr>bids := insert v (bids x)\<rparr>) h else h)"
proof -
  obtain d1 where u: "update_database now d = Inr (0, d1)" using sound_update [OF d] by blast
  note d1 = update_view [OF d u]
  have o: "out = bid_outcome (user_view d1) (auction_view d1) uid pw aid v"
    by (simp only: out_def h_def d1(2,3))
  note chk = bid_checks_refine [OF d1(1) ids, of pw v, folded o]
  show ?thesis
  proof (cases "out = ''ACC''")
    case False
    then have "place_bid now uid pw aid v c d = tcp_reply (''RBD '' @ out @ [LF]) c d1"
      using u chk(1) by (simp add: place_bid_def)
    then show ?thesis using False d1 tcp_reply_all [OF caps] by (intro exI [of _ d1]) (simp add: h_def)
  next
    case True
    obtain d' where d': "bid now aid uid v d1 = (0, d')" "sound d'" "user_view d' = user_view d1"
      "auction_view d' = change aid (\<lambda>x. x\<lparr>bids := insert v (bids x)\<rparr>) (auction_view d1)"
      using bid_view [OF d1(1) ids(2) _ ids(1) _ _ v now] chk(2) [OF True] by auto
    then have "place_bid now uid pw aid v c d = tcp_reply (''RBD ACC'' @ [LF]) c d'"
      using u chk(1) True by (simp add: place_bid_def)
    then show ?thesis using True d' d1 tcp_reply_all [OF caps] by (intro exI [of _ d']) (simp add: h_def)
  qed
qed

section \<open>A request on the wire\<close>

text \<open>The whole request arrives in one segment, as \<open>read_tcp_stream\<close> needs it; more may follow.\<close>

lemma read_segment:
  assumes "rx c = (w @ x) # segs" "x \<noteq> []" "w \<noteq> []" "length w \<le> k"
  shows "read_tcp_stream (replicate k NUL) (length w) c = Inr (0, w @ replicate (k - length w) NUL, c\<lparr>rx := x # segs\<rparr>)"
  using read_tcp_stream_delivered [of c "w @ x" segs "length w" "replicate k NUL"] assms
  by (simp add: rx_drop_def)

lemma cstr_replicate: "NUL \<notin> set w \<Longrightarrow> cstr (w @ replicate k NUL) = w"
  by (induction w) (auto simp: cstr_def takeWhile_tail)

lemma serve_request:
  assumes "rx c = (w @ x) # segs" "x \<noteq> []" "length w = 4" "NUL \<notin> set w" "map_of tcp_command_table w = Some h"
    and "run_tcp_handler h e (c\<lparr>rx := x # segs\<rparr>) d = Inr (err, c', d')"
  shows "serve_tcp_connection e c d =
     (if err = 0 then Inr (0, c', d')
      else bind_ok (case get_tcp_error_msg err of None \<Rightarrow> Inl NullDeref | Some m \<Rightarrow> tcp_reply m c' d')
        (\<lambda>(rc, c2, d1). if rc \<noteq> 0 then tcp_reply (''ERR'' @ [LF]) c2 d1 else Inr (0, c2, d1)))"
proof -
  have "w \<noteq> []" using assms(3) by auto
  then have r: "read_tcp_stream (replicate 8 NUL) 4 c = Inr (0, w @ replicate 4 NUL, c\<lparr>rx := x # segs\<rparr>)"
    using read_segment [OF assms(1,2), of 8] assms(3) by simp
  show ?thesis
    using assms(4-6)
    by (simp add: serve_tcp_connection_def r cstr_replicate handle_tcp_command_def get_tcp_handler_fn_def)
qed

lemma recv_1: "rx c = (b # bs) # segs \<Longrightarrow> recv 1 c = (Inr [b], c\<lparr>rx := (if bs = [] then segs else bs # segs)\<rparr>)"
  by (simp add: recv_def)

lemma digit_not_LF: "isdigit b \<Longrightarrow> b \<noteq> LF"
  by (auto simp: isdigit_def)

text \<open>The value loop reads at most six digits.\<close>

lemma bid_value_loop_digits:
  assumes "\<forall>b \<in> set ws. isdigit b" "length vs < 6" "vs = [] \<longrightarrow> ws \<noteq> [] \<and> hd ws \<noteq> CHR ''0''" "rx c = (ws @ [LF]) # segs"
  shows "\<exists>r. bid_value_loop vs c = (Inr (take 6 (vs @ ws)), c\<lparr>rx := r\<rparr>)"
  using assms
proof (induction ws arbitrary: vs c)
  case Nil
  then have r: "recv 1 c = (Inr [LF], c\<lparr>rx := segs\<rparr>)" by (simp add: recv_def)
  show ?case using Nil r by (subst bid_value_loop.simps) (auto simp: MAX_BID_VALUE_def)
next
  case (Cons b ws)
  have r: "recv 1 c = (Inr [b], c\<lparr>rx := (ws @ [LF]) # segs\<rparr>)" using Cons.prems(4) by (simp add: recv_def)
  have step: "bid_value_loop vs c = bid_value_loop (vs @ [b]) (c\<lparr>rx := (ws @ [LF]) # segs\<rparr>)"
    using Cons.prems r digit_not_LF [of b] by (subst bid_value_loop.simps) (auto simp: MAX_BID_VALUE_def)
  show ?case
  proof (cases "length (vs @ [b]) < 6")
    case True
    have "\<exists>r. bid_value_loop (vs @ [b]) (c\<lparr>rx := (ws @ [LF]) # segs\<rparr>)
        = (Inr (take 6 ((vs @ [b]) @ ws)), c\<lparr>rx := (ws @ [LF]) # segs\<rparr>\<lparr>rx := r\<rparr>)"
      using Cons.prems(1) True by (intro Cons.IH) auto
    then show ?thesis using step by auto
  next
    case False
    then have l: "length vs = 5" using Cons.prems(2) by simp
    then show ?thesis using step by (subst (asm) (2) bid_value_loop.simps) (auto simp: MAX_BID_VALUE_def)
  qed
qed

lemma value_bounds:
  assumes "\<forall>b \<in> set ws. isdigit b"
  shows "0 \<le> atoi (take 6 ws)" "atoi (take 6 ws) \<le> 999999"
proof -
  have d: "\<And>b. b \<in> set (take 6 ws) \<Longrightarrow> isdigit b" using assms by (auto dest: in_set_takeD)
  show "0 \<le> atoi (take 6 ws)" using atoi_bounds(1) [OF d] by simp
  have "atoi (take 6 ws) < 10 ^ length (take 6 ws)" using d by (intro atoi_bounds(2)) auto
  also have "\<dots> \<le> (10 :: int) ^ 6" by (intro power_increasing) auto
  finally show "atoi (take 6 ws) \<le> 999999" by simp
qed

definition bid_request :: "string \<Rightarrow> string \<Rightarrow> string \<Rightarrow> string \<Rightarrow> string" where
  "bid_request uid pw aid ws = ''BID '' @ uid @ '' '' @ pw @ '' '' @ aid @ '' '' @ ws @ [LF]"

definition close_request :: "string \<Rightarrow> string \<Rightarrow> string \<Rightarrow> string" where
  "close_request uid pw aid = ''CLS '' @ uid @ '' '' @ pw @ '' '' @ aid @ [LF]"

lemma ids_clean:
  assumes "is_valid_uid uid" "is_valid_passwd pw" "is_valid_aid aid"
  shows "clean_word uid" "clean_word pw" "clean_word aid" "length uid = 6" "length pw = 8" "length aid = 3"
  using assms valid_uid_clean [OF assms(1)] valid_passwd_clean [OF assms(2)] valid_aid_clean [OF assms(3)]
  by (auto simp: clean_word_def is_valid_uid_iff is_valid_passwd_iff is_valid_aid_iff)

lemma clean_no_nul: "clean_word w \<Longrightarrow> NUL \<notin> set w"
  by (simp add: clean_word_def)

lemma strtok_word_end: "clean_word w \<Longrightarrow> strtok [SP] (w @ [SP]) = (Some w, [])"
  using strtok_word [of w "[]"] by simp

lemma bid_round:
  fixes e :: env
  assumes d: "sound d" and ids: "is_valid_uid uid" "is_valid_passwd pw" "is_valid_aid aid"
    and c: "rx c = [''BID '' @ uid @ '' '' @ pw @ '' '' @ aid @ '' '' @ tail]" "tail \<noteq> []" "tx_caps c = []"
    and loop: "bid_value_loop [] (c\<lparr>rx := [tail]\<rparr>) = (Inr ds, c\<lparr>rx := r\<rparr>)"
    and v: "atoi ds \<le> 999999" and now: "time_ok (clock e)"
  defines "h \<equiv> expire (clock e) (auction_view d)"
  defines "out \<equiv> bid_outcome (user_view d) h uid pw aid (atoi ds)"
  shows "\<exists>c' d'. serve_tcp_connection e c d = Inr (0, c', d') \<and> tx c' = tx c @ ''RBD '' @ out @ [LF]
     \<and> sound d' \<and> user_view d' = user_view d
     \<and> auction_view d' = (if out = ''ACC'' then change aid (\<lambda>x. x\<lparr>bids := insert (atoi ds) (bids x)\<rparr>) h else h)"
proof -
  note w = ids_clean [OF ids]
  let ?args = "uid @ '' '' @ pw @ '' '' @ aid @ '' ''"
  let ?c1 = "c\<lparr>rx := [?args @ tail]\<rparr>" and ?c2 = "c\<lparr>rx := [tail]\<rparr>"
  have read: "read_tcp_stream (replicate 32 NUL) 20 ?c1 = Inr (0, ?args @ replicate 12 NUL, ?c2)"
    using read_segment [of ?c1 ?args tail "[]" 32] w c(2) by simp
  have "NUL \<notin> set ?args" using w by (auto dest: clean_no_nul)
  then have args: "cstr (?args @ replicate 12 NUL) = ?args" by (rule cstr_replicate)
  have tok: "strtok [SP] ?args = (Some uid, pw @ SP # aid @ [SP])" "strtok [SP] (pw @ SP # aid @ [SP]) = (Some pw, aid @ [SP])"
    "strtok [SP] (aid @ [SP]) = (Some aid, [])"
    using w(1-3) by (simp_all add: strtok_word strtok_word_end)
  have sz: "UID_SIZE + 1 + PASSWORD_SIZE + 1 + AID_SIZE + 1 = 20" by (simp add: constants)
  obtain d' where d': "place_bid (clock e) uid pw aid (atoi ds) (c\<lparr>rx := r\<rparr>) d
      = Inr (0, c\<lparr>rx := r\<rparr>\<lparr>tx := tx c @ ''RBD '' @ out @ [LF]\<rparr>, d')" "sound d'" "user_view d' = user_view d"
    "auction_view d' = (if out = ''ACC'' then change aid (\<lambda>x. x\<lparr>bids := insert (atoi ds) (bids x)\<rparr>) h else h)"
    using place_bid_refines [OF d ids(1,3) v now, of "c\<lparr>rx := r\<rparr>" pw] c(3) unfolding h_def out_def by auto
  have "handle_bid (clock e) ?c1 d = Inr (0, c\<lparr>rx := r\<rparr>\<lparr>tx := tx c @ ''RBD '' @ out @ [LF]\<rparr>, d')"
    using d'(1) ids
    by (simp only: handle_bid_def sz read bind_ok_simps prod.case loop sum.case args tok Let_def option.case
      simp_thms if_False not_True_eq_False)
  then have "serve_tcp_connection e c d = Inr (0, c\<lparr>rx := r\<rparr>\<lparr>tx := tx c @ ''RBD '' @ out @ [LF]\<rparr>, d')"
    using serve_request [of c "''BID ''" "?args @ tail" "[]" H_bid e d] c(1)
    by (simp add: tcp_command_table_def run_tcp_handler_def)
  then show ?thesis using d' by auto
qed

text \<open>
  C6. \<open>BID\<close> as \<open>tcp.c\<close> answers it. For every request that arrives in one segment on a sound database, the reply
  is \<open>bid_outcome\<close> of the accounts and auctions at that time (after expiry), and the value is added to the
  bids of the auction exactly when the reply is \<open>ACC\<close>. The value is the number of the first six digits: a
  longer one is cut, not refused. For values of at most six digits the reply is the one \<open>statement.pdf\<close> demands
  except in exactly three cases (\<open>bid_diverges\<close>): an unknown user is answered \<open>NOK\<close> instead of \<open>NLG\<close>, an unknown
  auction \<open>ERR\<close> instead of \<open>NOK\<close>, and a first bid of exactly the start value \<open>REF\<close> instead of \<open>ACC\<close>.
\<close>

theorem bid_exchange:
  fixes e :: env
  assumes d: "sound d" and ids: "is_valid_uid uid" "is_valid_passwd pw" "is_valid_aid aid"
    and ws: "ws \<noteq> []" "\<forall>b \<in> set ws. isdigit b" "hd ws \<noteq> CHR ''0''"
    and c: "rx c = [bid_request uid pw aid ws]" "tx_caps c = []" and now: "time_ok (clock e)"
  defines "h \<equiv> expire (clock e) (auction_view d)" and "v \<equiv> atoi (take 6 ws)"
  defines "out \<equiv> bid_outcome (user_view d) h uid pw aid v"
  shows "\<exists>c' d'. serve_tcp_connection e c d = Inr (0, c', d') \<and> tx c' = tx c @ ''RBD '' @ out @ [LF]
     \<and> sound d' \<and> user_view d' = user_view d
     \<and> auction_view d' = (if out = ''ACC'' then change aid (\<lambda>x. x\<lparr>bids := insert v (bids x)\<rparr>) h else h)
     \<and> (length ws \<le> 6 \<longrightarrow> (out = statement_bid (user_view d) h uid pw aid ws \<longleftrightarrow> \<not> bid_diverges (user_view d) h uid pw aid v))"
proof -
  let ?c2 = "c\<lparr>rx := [ws @ [LF]]\<rparr>"
  have req: "rx c = [''BID '' @ uid @ '' '' @ pw @ '' '' @ aid @ '' '' @ (ws @ [LF])]" "ws @ [LF] \<noteq> []"
    using c(1) by (simp_all add: bid_request_def)
  obtain r where "bid_value_loop [] ?c2 = (Inr (take 6 ws), c\<lparr>rx := r\<rparr>)"
    using bid_value_loop_digits [of ws "[]" ?c2 "[]"] ws by auto
  note round = bid_round [OF d ids req c(2) this value_bounds(2) [OF ws(2)] now, folded v_def h_def, folded out_def]
  have "length ws \<le> 6 \<longrightarrow> (out = statement_bid (user_view d) h uid pw aid ws \<longleftrightarrow> \<not> bid_diverges (user_view d) h uid pw aid v)"
    unfolding out_def v_def using bid_outcome_statement by blast
  with round show ?thesis by (elim ex_forward) blast
qed

lemma lamp_view: "auction_view lamp_db ''001'' =
    Some \<lparr>owner = ''123456'', start_value = 10, deadline = 1700003600, ended = False, bids = {}\<rparr>"
  using auction_view_start [OF example_fields(5) lamp_db(2,4)] lamp_db(8,9) by simp

definition example_env :: env where
  "example_env = \<lparr>clock = 1700000100, wcaps = [], rcaps = [], garbage = \<lambda>_. NUL\<rparr>"

lemma example_clock: "clock example_env = 1700000100" "time_ok (clock example_env)"
  by (simp_all add: example_env_def time_ok_def)

lemma lamp_expire: "expire 1700000100 (auction_view lamp_db) ''001'' =
    Some \<lparr>owner = ''123456'', start_value = 10, deadline = 1700003600, ended = False, bids = {}\<rparr>"
  by (simp add: expire_def lamp_view)

theorem bid_exchange_witness:
  "(\<exists>c' d'. serve_tcp_connection example_env (idle_conn\<lparr>rx := [''BID 654321 PASSWORD 001 1234567'' @ [LF]]\<rparr>) lamp_db
       = Inr (0, c', d') \<and> tx c' = ''RBD ACC'' @ [LF] \<and> map_option bids (auction_view d' ''001'') = Some {123456})
   \<and> (\<exists>c' d'. serve_tcp_connection example_env (idle_conn\<lparr>rx := [''BID 654321 PASSWORD 001 10'' @ [LF]]\<rparr>) lamp_db
       = Inr (0, c', d') \<and> tx c' = ''RBD REF'' @ [LF] \<and> map_option bids (auction_view d' ''001'') = Some {}
       \<and> ''REF'' \<noteq> statement_bid (user_view lamp_db) (expire 1700000100 (auction_view lamp_db)) ''654321'' ''PASSWORD'' ''001'' ''10'')"
proof
  have v: "atoi (take 6 ''1234567'') = 123456" "atoi (take 6 ''10'') = 10" by code_simp+
  have ws: "''1234567'' \<noteq> []" "\<forall>b \<in> set ''1234567''. isdigit b" "hd ''1234567'' \<noteq> CHR ''0''"
    "''10'' \<noteq> []" "\<forall>b \<in> set ''10''. isdigit b" "hd ''10'' \<noteq> CHR ''0''"
    by (simp_all add: isdigit_def)
  let ?c = "\<lambda>ws. idle_conn\<lparr>rx := [bid_request ''654321'' ''PASSWORD'' ''001'' ws]\<rparr>"
    and ?h = "expire 1700000100 (auction_view lamp_db)"
  have c: "rx (?c ws) = [bid_request ''654321'' ''PASSWORD'' ''001'' ws]" "tx_caps (?c ws) = []" "tx (?c ws) = []" for ws
    by (simp_all add: idle_conn_def)
  have eq: "?c ''1234567'' = idle_conn\<lparr>rx := [''BID 654321 PASSWORD 001 1234567'' @ [LF]]\<rparr>"
    "?c ''10'' = idle_conn\<lparr>rx := [''BID 654321 PASSWORD 001 10'' @ [LF]]\<rparr>"
    by (simp_all add: bid_request_def)
  have out: "bid_outcome (user_view lamp_db) ?h ''654321'' ''PASSWORD'' ''001'' 123456 = ''ACC''"
    "bid_outcome (user_view lamp_db) ?h ''654321'' ''PASSWORD'' ''001'' 10 = ''REF''"
    "bid_diverges (user_view lamp_db) ?h ''654321'' ''PASSWORD'' ''001'' 10"
    by (simp_all add: bid_outcome_def bid_diverges_def lamp_db(7) lamp_expire)
  note x = bid_exchange [OF lamp_db(1) example_fields(2,4,5) _ _ _ c(1,2) example_clock(2), unfolded example_clock(1) c(3)]
  show "\<exists>c' d'. serve_tcp_connection example_env (idle_conn\<lparr>rx := [''BID 654321 PASSWORD 001 1234567'' @ [LF]]\<rparr>) lamp_db
       = Inr (0, c', d') \<and> tx c' = ''RBD ACC'' @ [LF] \<and> map_option bids (auction_view d' ''001'') = Some {123456}"
    using x [OF ws(1-3)] lamp_expire unfolding v out eq by (auto simp: change_def)
  show "\<exists>c' d'. serve_tcp_connection example_env (idle_conn\<lparr>rx := [''BID 654321 PASSWORD 001 10'' @ [LF]]\<rparr>) lamp_db
       = Inr (0, c', d') \<and> tx c' = ''RBD REF'' @ [LF] \<and> map_option bids (auction_view d' ''001'') = Some {}
       \<and> ''REF'' \<noteq> statement_bid (user_view lamp_db) ?h ''654321'' ''PASSWORD'' ''001'' ''10''"
    using x [OF ws(4-6)] lamp_expire out(3) unfolding v out(2) eq by (elim ex_forward) auto
qed

section \<open>Closing\<close>

lemma close_checked_refines:
  fixes pw
  assumes d: "sound d" and ids: "is_valid_uid uid" "is_valid_aid aid" and now: "time_ok now" and caps: "tx_caps c = []"
  defines "h \<equiv> expire now (auction_view d)"
  defines "out \<equiv> close_outcome (user_view d) h uid pw aid"
  shows "\<exists>d'. close_checked now uid pw aid c d = Inr (0, c\<lparr>tx := tx c @ ''RCL '' @ out @ [LF]\<rparr>, d')
     \<and> sound d' \<and> user_view d' = user_view d
     \<and> auction_view d' = (if out = ''OK'' then change aid (\<lambda>x. x\<lparr>ended := True\<rparr>) h else h)"
proof -
  obtain d1 where u: "update_database now d = Inr (0, d1)" using sound_update [OF d] by blast
  note d1 = update_view [OF d u]
  note inv = sound_users_inv [OF d1(1)]
  note vw = us.exists_view [OF inv ids(1)] us.logged_view [OF inv ids(1)] us.authentic_view [OF inv ids(1), of pw]
  note vs = vw [unfolded d1(2)]
  have replied: ?thesis if "out \<noteq> ''OK''" "close_checked now uid pw aid c d = tcp_reply (''RCL '' @ out @ [LF]) c d1"
    using that d1 tcp_reply_all [OF caps] by (intro exI [of _ d1]) (simp add: h_def)
  show ?thesis
  proof (cases "user_view d uid = Some (pw, True)")
    case False
    then have o: "out = ''NLG''" by (auto simp: out_def close_outcome_def split: option.split)
    have "\<not> exists_user uid d1 \<or> \<not> is_user_logged_in uid d1 \<or> is_authentic_user uid pw d1 = 0"
      using False vs by auto
    then show ?thesis using u by (intro replied) (simp_all add: o close_checked_def)
  next
    case acc: True
    have gate: "exists_user uid d1" "is_user_logged_in uid d1" "is_authentic_user uid pw d1 \<noteq> 0"
      using vs acc by (auto simp: ex_bool_eq)
    show ?thesis
    proof (cases "exists_auction aid d1")
      case False
      then have "h aid = None" using auction_view_exists [OF d1(1) ids(2)] d1(3) by (simp add: h_def)
      then have o: "out = ''EAU''" by (simp add: out_def close_outcome_def acc)
      show ?thesis using False u gate by (intro replied) (simp_all add: o close_checked_def)
    next
      case True
      obtain own name fname sv ta t asset where st: "start_of (fs d1) aid own name fname sv ta t"
        and x: "auction_view d1 aid = Some \<lparr>owner = own, start_value = sv, deadline = t + ta,
           ended = (fs_get (fs d1) (end_path aid) \<noteq> None), bids = bid_set (fs d1) aid\<rparr>"
        using auction_viewE [OF d1(1) ids(2) True] by metis
      have h1: "healthy (fs d1)" using d1(1) db_invD(2) by (simp add: sound_def)
      have ok: "start_ok own name fname sv ta t" using st by (simp add: start_of_def)
      have info: "get_auction_info aid 256 d1 = Some (start_info own name fname sv ta t)"
        using start_line [OF st h1, of 256] by (simp add: get_auction_info_def)
      have fin: "is_auction_finished aid d1 \<longleftrightarrow> fs_get (fs d1) (end_path aid) \<noteq> None"
        using h1 by (simp add: is_auction_finished_def sys_can_read_healthy)
      have o: "out = (if own \<noteq> uid then ''EOW'' else if fs_get (fs d1) (end_path aid) \<noteq> None then ''END'' else ''OK'')"
        using x d1(3) by (simp add: out_def close_outcome_def acc h_def)
      have r: "close_checked now uid pw aid c d = (if own \<noteq> uid then tcp_reply (''RCL EOW'' @ [LF]) c d1
           else if fs_get (fs d1) (end_path aid) \<noteq> None then tcp_reply (''RCL END'' @ [LF]) c d1
           else case close_auction now aid d1 of
             (rc, d2) \<Rightarrow> if rc \<noteq> 0 then tcp_reply (''RCL NOK'' @ [LF]) c d2 else tcp_reply (''RCL OK'' @ [LF]) c d2)"
        by (simp only: close_checked_def u bind_ok_simps prod.case gate if_False simp_thms True not_True_eq_False info
          option.case start_info_tokens [OF ok] fst_conv fin)
      show ?thesis
      proof (cases "out = ''OK''")
        case False
        then show ?thesis using o r by (intro replied) (auto split: if_splits)
      next
        case ok_: True
        then have y: "own = uid" "fs_get (fs d1) (end_path aid) = None" using o by (auto split: if_splits)
        obtain d' where d': "close_auction now aid d1 = (0, d')" "sound d'" "user_view d' = user_view d1"
          "auction_view d' = change aid (\<lambda>x. x\<lparr>ended := True\<rparr>) (auction_view d1)"
          using close_view [OF d1(1) ids(2) True now] by auto
        then show ?thesis using y r ok_ d1 tcp_reply_all [OF caps] by (intro exI [of _ d']) (simp add: h_def)
      qed
    qed
  qed
qed

lemma close_served:
  assumes ids: "is_valid_uid uid" "is_valid_passwd pw" "is_valid_aid aid" and c: "rx c = [close_request uid pw aid]"
    and r: "close_checked (clock e) uid pw aid (c\<lparr>rx := []\<rparr>) d = Inr (0, c', d')"
  shows "serve_tcp_connection e c d = Inr (0, c', d')"
proof -
  note w = ids_clean [OF ids]
  let ?args = "uid @ '' '' @ pw @ '' '' @ aid @ [LF]"
  let ?c1 = "c\<lparr>rx := [?args]\<rparr>" and ?c2 = "c\<lparr>rx := []\<rparr>"
  have read: "read_tcp_stream (replicate 128 NUL) 20 ?c1 = Inr (0, ?args @ replicate 108 NUL, ?c2)"
    using read_tcp_stream_delivered [of ?c1 ?args "[]" 20 "replicate 128 NUL"] w by (simp add: rx_drop_def)
  have "NUL \<notin> set ?args" using w by (auto dest: clean_no_nul)
  then have args: "cstr (?args @ replicate 108 NUL) = ?args" by (rule cstr_replicate)
  have tok: "strtok [SP] ?args = (Some uid, pw @ SP # aid @ [LF])" "strtok [SP] (pw @ SP # aid @ [LF]) = (Some pw, aid @ [LF])"
    "strtok [LF] (aid @ [LF]) = (Some aid, [])"
    using w(1-3) by (simp_all add: strtok_word strtok_line)
  have sz: "UID_SIZE + 1 + PASSWORD_SIZE + 1 + AID_SIZE + 1 = 20" "UID_SIZE + PASSWORD_SIZE + AID_SIZE + 2 = 19"
    by (simp_all add: constants)
  have lf: "(?args @ replicate 108 NUL) ! 19 = LF" using w(4-6) by (simp add: nth_append)
  have "handle_close (clock e) ?c1 d = Inr (0, c', d')"
    using r ids
    by (simp only: handle_close_def sz read bind_ok_simps prod.case args tok lf Let_def option.case simp_thms if_False
      not_True_eq_False)
  then show ?thesis
    using serve_request [of c "''CLS ''" ?args "[]" H_close e d] c
    by (simp add: close_request_def tcp_command_table_def run_tcp_handler_def)
qed

lemma close_round:
  fixes e :: env
  assumes d: "sound d" and ids: "is_valid_uid uid" "is_valid_passwd pw" "is_valid_aid aid"
    and c: "rx c = [close_request uid pw aid]" "tx_caps c = []" and now: "time_ok (clock e)"
  defines "h \<equiv> expire (clock e) (auction_view d)"
  defines "out \<equiv> close_outcome (user_view d) h uid pw aid"
  shows "\<exists>c' d'. serve_tcp_connection e c d = Inr (0, c', d') \<and> tx c' = tx c @ ''RCL '' @ out @ [LF]
     \<and> sound d' \<and> user_view d' = user_view d
     \<and> auction_view d' = (if out = ''OK'' then change aid (\<lambda>x. x\<lparr>ended := True\<rparr>) h else h)"
proof -
  obtain d' where d': "close_checked (clock e) uid pw aid (c\<lparr>rx := []\<rparr>) d
      = Inr (0, c\<lparr>rx := [], tx := tx c @ ''RCL '' @ out @ [LF]\<rparr>, d')"
    "sound d'" "user_view d' = user_view d" "auction_view d' = (if out = ''OK'' then change aid (\<lambda>x. x\<lparr>ended := True\<rparr>) h else h)"
    using close_checked_refines [OF d ids(1,3) now, of "c\<lparr>rx := []\<rparr>" pw] c(2) unfolding h_def out_def by auto
  from close_served [OF ids c(1) this(1)] show ?thesis using d' by auto
qed

text \<open>
  C9. \<open>CLS\<close> as \<open>tcp.c\<close> answers it: for every request in one segment on a sound database the reply is
  \<open>close_outcome\<close> of the accounts and auctions after expiry, and the auction is ended exactly when the reply is
  \<open>OK\<close>, that is when its logged-in owner asks and it has not ended. For a user with that password the reply is
  the one \<open>statement.pdf\<close> demands in 3.2(d); for an unknown user and for a wrong password the statement demands
  \<open>NOK\<close>, and the code answers \<open>NLG\<close>.
\<close>

theorem close_exchange:
  fixes e :: env
  assumes d: "sound d" and ids: "is_valid_uid uid" "is_valid_passwd pw" "is_valid_aid aid"
    and c: "rx c = [close_request uid pw aid]" "tx_caps c = []" and now: "time_ok (clock e)"
  defines "h \<equiv> expire (clock e) (auction_view d)"
  defines "out \<equiv> close_outcome (user_view d) h uid pw aid"
  shows "\<exists>c' d'. serve_tcp_connection e c d = Inr (0, c', d') \<and> tx c' = tx c @ ''RCL '' @ out @ [LF]
     \<and> sound d' \<and> user_view d' = user_view d
     \<and> auction_view d' = (if out = ''OK'' then change aid (\<lambda>x. x\<lparr>ended := True\<rparr>) h else h)
     \<and> (if \<exists>logged. user_view d uid = Some (pw, logged) then out = statement_close (user_view d) h uid pw aid
        else out = ''NLG'' \<and> statement_close (user_view d) h uid pw aid = ''NOK'')"
  using close_round [OF d ids c now] close_outcome_statement [of "user_view d" uid pw h aid]
  unfolding h_def out_def by (elim ex_forward) simp

theorem close_exchange_witness:
  "(\<exists>c' d'. serve_tcp_connection example_env (idle_conn\<lparr>rx := [''CLS 123456 password 001'' @ [LF]]\<rparr>) lamp_db
       = Inr (0, c', d') \<and> tx c' = ''RCL OK'' @ [LF] \<and> map_option ended (auction_view d' ''001'') = Some True)
   \<and> (\<exists>c' d'. serve_tcp_connection example_env (idle_conn\<lparr>rx := [''CLS 654321 PASSWORD 001'' @ [LF]]\<rparr>) lamp_db
       = Inr (0, c', d') \<and> tx c' = ''RCL EOW'' @ [LF] \<and> map_option ended (auction_view d' ''001'') = Some False)"
proof
  let ?c = "\<lambda>u p. idle_conn\<lparr>rx := [close_request u p ''001'']\<rparr>"
  have c: "rx (?c u p) = [close_request u p ''001'']" "tx_caps (?c u p) = []" "tx (?c u p) = []" for u p
    by (simp_all add: idle_conn_def)
  note x = close_exchange [OF lamp_db(1) _ _ example_fields(5) c(1,2) example_clock(2), unfolded example_clock(1)]
  have out: "close_outcome (user_view lamp_db) (expire 1700000100 (auction_view lamp_db)) ''123456'' ''password'' ''001'' = ''OK''"
    "close_outcome (user_view lamp_db) (expire 1700000100 (auction_view lamp_db)) ''654321'' ''PASSWORD'' ''001'' = ''EOW''"
    by (simp_all add: close_outcome_def lamp_db(6,7) lamp_expire)
  show "\<exists>c' d'. serve_tcp_connection example_env (idle_conn\<lparr>rx := [''CLS 123456 password 001'' @ [LF]]\<rparr>) lamp_db
       = Inr (0, c', d') \<and> tx c' = ''RCL OK'' @ [LF] \<and> map_option ended (auction_view d' ''001'') = Some True"
    using x [OF example_fields(1,3)] lamp_expire by (auto simp: out idle_conn_def close_request_def change_def)
  show "\<exists>c' d'. serve_tcp_connection example_env (idle_conn\<lparr>rx := [''CLS 654321 PASSWORD 001'' @ [LF]]\<rparr>) lamp_db
       = Inr (0, c', d') \<and> tx c' = ''RCL EOW'' @ [LF] \<and> map_option ended (auction_view d' ''001'') = Some False"
    using x [OF example_fields(2,4)] lamp_expire by (auto simp: out idle_conn_def close_request_def)
qed

section \<open>Two handlers at once\<close>

text \<open>
  Two worker threads serve two bids on one auction. The database calls of the handlers are atomic, the
  handlers are not: one interleaving of their calls runs both checks before either \<open>bid\<close>.
\<close>

definition interleaved_bids ::
    "int \<Rightarrow> string \<Rightarrow> string \<Rightarrow> string \<Rightarrow> int \<Rightarrow> string \<Rightarrow> string \<Rightarrow> int \<Rightarrow> db \<Rightarrow> (bid_decision \<times> bid_decision \<times> db) outcome" where
  "interleaved_bids now aid uid1 pw1 v uid2 pw2 w d =
     bind_ok (bid_checks uid1 pw1 aid v d) (\<lambda>dec1.
     bind_ok (bid_checks uid2 pw2 aid w d) (\<lambda>dec2.
     let d1 = (if dec2 = Bid_go then snd (bid now aid uid2 w d) else d);
         d2 = (if dec1 = Bid_go then snd (bid now aid uid1 v d1) else d1)
     in Inr (dec1, dec2, d2)))"

text \<open>
  C34. The checks and the bid of one request are not atomic together. When two requests are each acceptable
  on their own, the interleaving accepts both: the lower value is accepted after the higher one, and of two
  equal values the file of the one accepted first is overwritten by the other.
\<close>

theorem interleaved_bids_both_accepted:
  assumes d: "sound d" and ids: "is_valid_uid uid1" "is_valid_uid uid2" "is_valid_aid aid"
    and ok: "bid_outcome (user_view d) (auction_view d) uid1 pw1 aid v = ''ACC''"
      "bid_outcome (user_view d) (auction_view d) uid2 pw2 aid w = ''ACC''"
    and v: "v \<le> w" "w \<le> 999999" and now: "time_ok now"
    and st: "start_of (fs d) aid own name fname sv ta t"
  shows "\<exists>d'. interleaved_bids now aid uid1 pw1 v uid2 pw2 w d = Inr (Bid_go, Bid_go, d') \<and> sound d'
     \<and> auction_view d' = change aid (\<lambda>x. x\<lparr>bids := insert v (insert w (bids x))\<rparr>) (auction_view d)
     \<and> fs_get (fs d') (bid_path aid v) = Some (File (bid_info uid1 now (now - t)))"
proof -
  note c1 = bid_checks_refine [OF d ids(1,3), of pw1 v] and c2 = bid_checks_refine [OF d ids(2,3), of pw2 w]
  have e: "exists_auction aid d" "user_view d uid1 \<noteq> None" "user_view d uid2 \<noteq> None" "1 \<le> v" "1 \<le> w" "v \<le> 999999"
    using c1(2) [OF ok(1)] c2(2) [OF ok(2)] v by auto
  obtain d1 where d1: "bid now aid uid2 w d = (0, d1)" "sound d1" "user_view d1 = user_view d"
    "auction_view d1 = change aid (\<lambda>x. x\<lparr>bids := insert w (bids x)\<rparr>) (auction_view d)"
    using bid_view [OF d ids(3) e(1) ids(2) _ e(5) v(2) now] e(3) by auto
  obtain d1' where "bid now aid uid2 w d = (0, d1')" "\<forall>q. q \<noteq> bid_path aid w \<longrightarrow> q \<noteq> bidded_path uid2 aid \<longrightarrow>
      fs_get (fs d1') q = fs_get (fs d) q"
    using bid_step [OF d ids(3) e(1) ids(2) _ st e(5) v(2) now] e(3) by auto
  then have fr: "\<forall>q. q \<noteq> bid_path aid w \<longrightarrow> q \<noteq> bidded_path uid2 aid \<longrightarrow> fs_get (fs d1) q = fs_get (fs d) q"
    using d1(1) by simp
  have st1: "start_of (fs d1) aid own name fname sv ta t"
    using st fr by (simp add: start_of_def auc_paths bidded_path_def)
  have e1: "exists_auction aid d1"
    using auction_view_exists [OF d1(2) ids(3)] auction_view_exists [OF d ids(3)] e(1) d1(4) by (simp add: change_def)
  obtain d2 where d2: "bid now aid uid1 v d1 = (0, d2)" "sound d2" "user_view d2 = user_view d1"
    "auction_view d2 = change aid (\<lambda>x. x\<lparr>bids := insert v (bids x)\<rparr>) (auction_view d1)"
    using bid_view [OF d1(2) ids(3) e1 ids(1) _ e(4,6) now] e(2) d1(3) by auto
  obtain d2' where "bid now aid uid1 v d1 = (0, d2')"
      "fs_get (fs d2') (bid_path aid v) = Some (File (bid_info uid1 now (now - t)))"
    using bid_step [OF d1(2) ids(3) e1 ids(1) _ st1 e(4,6) now] e(2) d1(3) by auto
  then have r: "fs_get (fs d2) (bid_path aid v) = Some (File (bid_info uid1 now (now - t)))" using d2(1) by simp
  have "interleaved_bids now aid uid1 pw1 v uid2 pw2 w d = Inr (Bid_go, Bid_go, d2)"
    using c1(1) c2(1) ok d1(1) d2(1) by (simp add: interleaved_bids_def)
  moreover have "auction_view d2 = change aid (\<lambda>x. x\<lparr>bids := insert v (insert w (bids x))\<rparr>) (auction_view d)"
    by (simp add: d2(4) d1(4) change_def option.map_comp o_def)
  ultimately show ?thesis using d2(2) r by blast
qed

theorem interleaved_bids_both_accepted_witness:
  "\<exists>d'. interleaved_bids 1700000100 ''001'' ''654321'' ''PASSWORD'' 20 ''654321'' ''PASSWORD'' 30 lamp_db = Inr (Bid_go, Bid_go, d')
     \<and> map_option bids (auction_view d' ''001'') = Some {20, 30}"
proof -
  have out: "bid_outcome (user_view lamp_db) (auction_view lamp_db) ''654321'' ''PASSWORD'' ''001'' 20 = ''ACC''"
    "bid_outcome (user_view lamp_db) (auction_view lamp_db) ''654321'' ''PASSWORD'' ''001'' 30 = ''ACC''"
    by (simp_all add: bid_outcome_def lamp_db(7) lamp_view)
  show ?thesis
    using interleaved_bids_both_accepted [OF lamp_db(1) example_fields(2,2,5) out _ _ example_clock(2) lamp_db(4)]
    by (auto simp: example_clock(1) change_def lamp_view)
qed

text \<open>
  A bid and the close of the same auction: one worker has done the checks of \<open>BID\<close>, another serves \<open>CLS\<close> from
  its checks to its reply, then the first one calls \<open>bid\<close>.
\<close>

definition interleaved_bid_close ::
    "int \<Rightarrow> string \<Rightarrow> string \<Rightarrow> string \<Rightarrow> int \<Rightarrow> string \<Rightarrow> string \<Rightarrow> conn \<Rightarrow> db \<Rightarrow> (bid_decision \<times> string \<times> db \<times> int \<times> db) outcome" where
  "interleaved_bid_close now aid uid pw v own_uid own_pw c d =
     bind_ok (bid_checks uid pw aid v d) (\<lambda>dec.
     bind_ok (close_checked now own_uid own_pw aid c d) (\<lambda>(_, c', d1).
     let (rc, d2) = (if dec = Bid_go then bid now aid uid v d1 else (0, d1))
     in Inr (dec, tx c', d1, rc, d2)))"

text \<open>
  C28. With several handlers at work an auction that has ended can still get a bid. When a bid passes its
  checks and the owner's \<open>CLS\<close>, which ends the auction, is served and answered \<open>OK\<close> before \<open>bid\<close> is called,
  \<open>bid\<close> does not look at the end again: it returns 0, so the bidder is told that his bid was accepted, and the
  value is among the bids of the closed auction. Served one after the other the same two requests cannot do this.
\<close>

theorem closed_auction_gets_bid:
  assumes d: "sound d" and ids: "is_valid_uid uid" "is_valid_uid own_uid" "is_valid_aid aid"
    and acc: "bid_outcome (user_view d) (auction_view d) uid pw aid v = ''ACC''"
    and cls: "close_outcome (user_view d) (expire now (auction_view d)) own_uid own_pw aid = ''OK''"
    and v: "v \<le> 999999" and now: "time_ok now" and caps: "tx_caps c = []"
  shows "\<exists>d1 d2. interleaved_bid_close now aid uid pw v own_uid own_pw c d
         = Inr (Bid_go, tx c @ ''RCL OK'' @ [LF], d1, 0, d2) \<and> sound d2
     \<and> auction_view d1 = change aid (\<lambda>x. x\<lparr>ended := True\<rparr>) (expire now (auction_view d))
     \<and> auction_view d2 = change aid (\<lambda>x. x\<lparr>bids := insert v (bids x)\<rparr>) (auction_view d1)
     \<and> (\<exists>x. auction_view d2 aid = Some x \<and> ended x \<and> v \<in> bids x)"
proof -
  note chk = bid_checks_refine [OF d ids(1,3), of pw v, unfolded acc]
  obtain d1 where d1: "close_checked now own_uid own_pw aid c d = Inr (0, c\<lparr>tx := tx c @ ''RCL OK'' @ [LF]\<rparr>, d1)"
    "sound d1" "user_view d1 = user_view d"
    "auction_view d1 = change aid (\<lambda>x. x\<lparr>ended := True\<rparr>) (expire now (auction_view d))"
    using close_checked_refines [OF d ids(2,3) now caps, of own_pw] unfolding cls by auto
  obtain x where x: "expire now (auction_view d) aid = Some x"
    using cls by (auto simp: close_outcome_def split: option.splits if_splits)
  then have ex: "exists_auction aid d1"
    using auction_view_exists [OF d1(2) ids(3)] d1(4) by (simp add: change_def)
  obtain d2 where d2: "bid now aid uid v d1 = (0, d2)" "sound d2"
    "auction_view d2 = change aid (\<lambda>x. x\<lparr>bids := insert v (bids x)\<rparr>) (auction_view d1)"
    using bid_view [OF d1(2) ids(3) ex ids(1) _ _ v now] chk(2) d1(3) by auto
  have "interleaved_bid_close now aid uid pw v own_uid own_pw c d = Inr (Bid_go, tx c @ ''RCL OK'' @ [LF], d1, 0, d2)"
    using chk(1) d1(1) d2(1) by (simp add: interleaved_bid_close_def)
  moreover have "\<exists>x. auction_view d2 aid = Some x \<and> ended x \<and> v \<in> bids x"
    using x by (simp add: d2(3) d1(4) change_def)
  ultimately show ?thesis using d1(4) d2(2,3) by blast
qed

theorem closed_auction_gets_bid_witness:
  "\<exists>d1 d2. interleaved_bid_close 1700000100 ''001'' ''654321'' ''PASSWORD'' 20 ''123456'' ''password'' idle_conn lamp_db
       = Inr (Bid_go, ''RCL OK'' @ [LF], d1, 0, d2)
     \<and> map_option bids (auction_view d1 ''001'') = Some {} \<and> map_option bids (auction_view d2 ''001'') = Some {20}"
proof -
  have out: "bid_outcome (user_view lamp_db) (auction_view lamp_db) ''654321'' ''PASSWORD'' ''001'' 20 = ''ACC''"
    "close_outcome (user_view lamp_db) (expire 1700000100 (auction_view lamp_db)) ''123456'' ''password'' ''001'' = ''OK''"
    by (simp_all add: bid_outcome_def close_outcome_def lamp_db(6,7) lamp_view lamp_expire)
  have c: "tx_caps idle_conn = []" "tx idle_conn = []" by (simp_all add: idle_conn_def)
  show ?thesis
    using closed_auction_gets_bid [OF lamp_db(1) example_fields(2,1,5) out _ example_clock(2) [unfolded example_clock(1)] c(1)]
    by (auto simp: c(2) change_def lamp_expire)
qed

section \<open>The buffer of handle_bid\<close>

text \<open>
  \<open>handle_bid\<close> reads 20 bytes into an array of 32, and \<open>read_tcp_stream\<close> stores what follows the first
  segment at twice its offset. A request whose arguments arrive in two segments, the first of 13 bytes or
  more, is written past the end of the array on the stack.
\<close>

theorem split_bid_overflows:
  fixes e :: env
  assumes "rx c = ''BID '' # a # b # segs" "tx_caps c = []" "13 \<le> length a" "b \<noteq> []" "length a + length b = 20"
  shows "serve_tcp_connection e c d = Inl OutOfBounds"
proof -
  let ?c1 = "c\<lparr>rx := a # b # segs\<rparr>"
  have r: "read_tcp_stream (replicate 8 NUL) 4 c = Inr (0, ''BID '' @ replicate 4 NUL, ?c1)"
    using read_tcp_stream_delivered [of c "''BID ''" "a # b # segs" 4 "replicate 8 NUL"] assms(1) by (simp add: rx_drop_def)
  have "a \<noteq> []" using assms(3) by auto
  then have "read_tcp_stream (replicate 32 NUL) 20 ?c1 = Inl OutOfBounds"
    using read_tcp_stream_two_segments [of ?c1 a b segs 20 "replicate 32 NUL"] assms(3-5) by simp
  then have "handle_bid (clock e) ?c1 d = Inl OutOfBounds"
    by (simp add: handle_bid_def constants)
  then show ?thesis
    by (simp add: serve_tcp_connection_def r cstr_def handle_tcp_command_def get_tcp_handler_fn_def tcp_command_table_def
      run_tcp_handler_def)
qed

theorem split_bid_overflows_witness:
  "serve_tcp_connection example_env (idle_conn\<lparr>rx := [''BID '', ''654321 PASSWORD'', '' 001 '', ''25'' @ [LF]]\<rparr>) lamp_db
     = Inl OutOfBounds"
  by (rule split_bid_overflows [where a = "''654321 PASSWORD''" and b = "'' 001 ''" and segs = "[''25'' @ [LF]]"])
    (simp_all add: idle_conn_def)

section \<open>Assets\<close>

lemma show_asset_request:
  assumes a: "is_valid_aid aid" and c: "rx c = [aid @ [LF]]"
  shows "handle_show_asset answers c d =
     (let c1 = c\<lparr>rx := []\<rparr>
      in if \<not> exists_auction aid d then tcp_reply (''RSA NOK'' @ [LF]) c1 d
         else case get_auction_info aid 256 d of
           None \<Rightarrow> tcp_reply (''RSA NOK'' @ [LF]) c1 d
         | Some auction_info \<Rightarrow>
         (case fst (strtok [SP] (strtok_n 2 [SP] auction_info)) of
            None \<Rightarrow> tcp_reply (''RSA NOK'' @ [LF]) c1 d
          | Some fname \<Rightarrow> send_asset answers [''AUCTIONS'', aid, ''ASSET'', fname] aid fname c1 d))"
proof -
  have wd: "clean_word aid" "length aid = 3"
    using valid_aid_clean [OF a] a by (auto simp: clean_word_def is_valid_aid_iff)
  have read: "read_tcp_stream (replicate 8 NUL) 4 c = Inr (0, (aid @ [LF]) @ replicate 4 NUL, c\<lparr>rx := []\<rparr>)"
    using read_tcp_stream_delivered [of c "aid @ [LF]" "[]" 4 "replicate 8 NUL"] wd c by (simp add: rx_drop_def)
  have "NUL \<notin> set (aid @ [LF])" using wd by (auto dest: clean_no_nul)
  then have args: "cstr ((aid @ [LF]) @ replicate 4 NUL) = aid @ [LF]" by (rule cstr_replicate)
  have sz: "AID_SIZE = 3" "3 + 1 = (4 :: nat)" by (simp_all add: constants)
  have lf: "((aid @ [LF]) @ replicate 4 NUL) ! 3 = LF" using wd by (simp add: nth_append)
  show ?thesis
    using a by (simp only: handle_show_asset_def sz read bind_ok_simps prod.case args lf strtok_line [OF wd(1)] option.case
      simp_thms if_False not_True_eq_False Let_def)
qed

lemma handle_show_asset_known:
  assumes d: "sound d" and a: "is_valid_aid aid" "exists_auction aid d" and c: "rx c = [aid @ [LF]]" "tx_caps c = []"
    and r: "accepting answers" and st: "start_of (fs d) aid uid name fname sv ta t"
    and as: "fs_get (fs d) (asset_path aid fname) = Some (File content)" "length content < 10 ^ 18"
  shows "\<exists>c'. handle_show_asset answers c d = Inr (0, c', d)
     \<and> tx c' = tx c @ ''RSA OK '' @ fname @ '' '' @ fmt_d (int (length content)) @ '' '' @ content @ [LF]"
proof -
  note asset = show_asset_request [OF a(1) c(1)]
  have h: "healthy (fs d)" using d db_invD(2) by (simp add: sound_def)
  have ok: "start_ok uid name fname sv ta t" using st by (simp add: start_of_def)
  have info: "get_auction_info aid 256 d = Some (start_info uid name fname sv ta t)"
    using start_line [OF st h, of 256] by (simp add: get_auction_info_def)
  have f: "length fname \<le> 24" "length aid = 3" using ok a(1) by (auto simp: start_ok_def is_valid_fname_iff is_valid_aid_iff)
  have p: "[''AUCTIONS'', aid, ''ASSET'', fname] = asset_path aid fname" by (simp add: asset_path_def)
  have short: "\<not> length (''AUCTIONS/'' @ aid @ ''/ASSET/'' @ fname) \<ge> 128" using f by simp
  have rd: "sys_can_read (asset_path aid fname) (fs d)" using as(1) h by (simp add: sys_can_read_healthy)
  let ?info = "''RSA OK '' @ fname @ '' '' @ fmt_d (int (length content)) @ '' ''"
  have "length (fmt_d (int (length content))) \<le> 18" using as(2) by (intro fmt_d_length_le) auto
  then have il: "\<not> length ?info \<ge> 128" using f by simp
  let ?c2 = "c\<lparr>rx := []\<rparr>" and ?c3 = "c\<lparr>rx := []\<rparr>\<lparr>tx := tx c @ ?info\<rparr>"
  have s1: "send_str ?info ?c2 = Inr (0, ?c3)" using c(2) by (simp add: send_str_def send_tcp_message_all)
  have "accepting (tx_caps ?c3)" using c(2) by (simp add: accepting_def)
  then obtain cs where s2: "as_send_asset_file content answers (int (length content)) ?c3
      = Inr (0, ?c3\<lparr>tx := tx ?c3 @ content @ [LF], tx_caps := cs\<rparr>)"
    using send_asset_accepting [of ?c3 answers 0 content "int (length content)"] r by (auto simp: as_send_asset_file_def)
  have node: "asset_node answers (File content) = (content, answers)" "stat_size (File content) = int (length content)"
    by (simp_all add: asset_node_def stat_size_def)
  have "handle_show_asset answers c d = Inr (0, ?c3\<lparr>tx := tx ?c3 @ content @ [LF], tx_caps := cs\<rparr>, d)"
    using a(2)
    by (simp only: asset option.case simp_thms if_False not_True_eq_False info start_info_tokens [OF ok] fst_conv Let_def
      p send_asset_def short as(1) rd node prod.case il s1 s2 bind_ok_simps)
  then show ?thesis by simp
qed

lemma show_asset_round:
  fixes e :: env
  assumes d: "sound d" and a: "is_valid_aid aid" and c: "rx c = [''SAS '' @ aid @ [LF]]" "tx_caps c = []"
    and r: "accepting (rcaps e)"
    and st: "exists_auction aid d \<Longrightarrow> start_of (fs d) aid uid name fname sv ta t"
    and as: "exists_auction aid d \<Longrightarrow> fs_get (fs d) (asset_path aid fname) = Some (File content)" "length content < 10 ^ 18"
  shows "\<exists>c'. serve_tcp_connection e c d = Inr (0, c', d) \<and>
     tx c' = tx c @ (if exists_auction aid d
       then ''RSA OK '' @ fname @ '' '' @ fmt_d (int (length content)) @ '' '' @ content @ [LF] else ''RSA NOK'' @ [LF])"
proof -
  let ?c1 = "c\<lparr>rx := [aid @ [LF]]\<rparr>"
  have "\<exists>c'. handle_show_asset (rcaps e) ?c1 d = Inr (0, c', d) \<and>
     tx c' = tx c @ (if exists_auction aid d
       then ''RSA OK '' @ fname @ '' '' @ fmt_d (int (length content)) @ '' '' @ content @ [LF] else ''RSA NOK'' @ [LF])"
  proof (cases "exists_auction aid d")
    case False
    then have "handle_show_asset (rcaps e) ?c1 d = tcp_reply (''RSA NOK'' @ [LF]) (c\<lparr>rx := []\<rparr>) d"
      using show_asset_request [OF a, of ?c1] by simp
    then show ?thesis using False tcp_reply_all [of "c\<lparr>rx := []\<rparr>"] c(2) by simp
  next
    case True
    then show ?thesis
      using handle_show_asset_known [OF d a True, of ?c1 "rcaps e", OF _ _ r st [OF True] as(1) [OF True] as(2)] c(2) by simp
  qed
  then obtain c' where c': "handle_show_asset (rcaps e) ?c1 d = Inr (0, c', d)"
     "tx c' = tx c @ (if exists_auction aid d
       then ''RSA OK '' @ fname @ '' '' @ fmt_d (int (length content)) @ '' '' @ content @ [LF] else ''RSA NOK'' @ [LF])"
    by blast
  then have "serve_tcp_connection e c d = Inr (0, c', d)"
    using serve_request [of c "''SAS ''" "aid @ [LF]" "[]" H_show_asset e d] c(1)
    by (simp add: tcp_command_table_def run_tcp_handler_def)
  then show ?thesis using c'(2) by blast
qed

text \<open>
  C19. \<open>SAS\<close> on a sound database returns the asset that was stored at creation: the file name of the
  record, the size and the bytes of the file, ended by a line feed, however little \<open>read\<close> returns at a
  time; an unknown auction is answered \<open>RSA NOK\<close>. The database is not changed.
\<close>

theorem show_asset_exchange:
  fixes e :: env
  assumes d: "sound d" and a: "is_valid_aid aid" and c: "rx c = [''SAS '' @ aid @ [LF]]" "tx_caps c = []"
    and r: "accepting (rcaps e)"
    and st: "exists_auction aid d \<Longrightarrow> start_of (fs d) aid uid name fname sv ta t"
    and as: "exists_auction aid d \<Longrightarrow> fs_get (fs d) (asset_path aid fname) = Some (File content)" "length content < 10 ^ 18"
  shows "\<exists>c'. serve_tcp_connection e c d = Inr (0, c', d) \<and>
     tx c' = tx c @ (if exists_auction aid d
       then ''RSA OK '' @ fname @ '' '' @ fmt_d (int (length content)) @ '' '' @ content @ [LF] else ''RSA NOK'' @ [LF])"
  by (rule show_asset_round [OF d a c r st as])

theorem show_asset_exchange_witness:
  "\<exists>c'. serve_tcp_connection (example_env\<lparr>rcaps := [Accept 0]\<rparr>) (idle_conn\<lparr>rx := [''SAS 001'' @ [LF]]\<rparr>) lamp_db = Inr (0, c', lamp_db)
     \<and> tx c' = ''RSA OK lamp.jpg 4 data'' @ [LF]"
proof -
  let ?c = "idle_conn\<lparr>rx := [''SAS '' @ ''001'' @ [LF]]\<rparr>"
  have c: "rx ?c = [''SAS '' @ ''001'' @ [LF]]" "tx_caps ?c = []" "accepting (rcaps (example_env\<lparr>rcaps := [Accept 0]\<rparr>))"
    by (simp_all add: idle_conn_def accepting_def)
  have four: "fmt_d 4 = ''4''" by code_simp
  show ?thesis
    using show_asset_exchange [OF lamp_db(1) example_fields(5) c lamp_db(4,5)] lamp_db(2)
    by (auto simp: four idle_conn_def)
qed

section \<open>Opening\<close>

definition open_request :: "string \<Rightarrow> string \<Rightarrow> string \<Rightarrow> int \<Rightarrow> int \<Rightarrow> string \<Rightarrow> nat \<Rightarrow> string" where
  "open_request uid pw name sv ta fname fsize =
     ''OPA '' @ uid @ '' '' @ pw @ '' '' @ name @ '' '' @ fmt_d sv @ '' '' @ fmt_d ta @ '' '' @ fname @ '' ''
       @ fmt_d (int fsize) @ '' ''"

text \<open>One argument of the list: its bytes, then the blank.\<close>

lemma opa_arg:
  assumes "rx c = (w @ SP # rest) # segs" "SP \<notin> set w" "NUL \<notin> set (arg @ w)" "length args < 5"
    "length (arg @ w) \<le> opa_args_len ! length args" "is_valid_opa_arg (arg @ w) (length args)" "rest \<noteq> []"
  shows "opa_args_loop arg args c = opa_args_loop [] (args @ [arg @ w]) (c\<lparr>rx := rest # segs\<rparr>)"
  using assms
proof (induction w arbitrary: arg c)
  case Nil
  have r: "recv 1 c = (Inr [SP], c\<lparr>rx := rest # segs\<rparr>)" using Nil.prems(1,7) by (simp add: recv_def)
  have len: "get_opa_arg_len (int (length args)) = Inr (opa_args_len ! length args)"
    using Nil.prems(4) by (simp add: get_opa_arg_len_def opa_args_len_def)
  have "cstr arg = arg" using Nil.prems(3) by (intro cstr_no_nul) simp
  then show ?case using Nil.prems r len by (subst opa_args_loop.simps) simp
next
  case (Cons b w)
  have r: "recv 1 c = (Inr [b], c\<lparr>rx := (w @ SP # rest) # segs\<rparr>)" using Cons.prems(1) by (simp add: recv_def)
  have len: "get_opa_arg_len (int (length args)) = Inr (opa_args_len ! length args)"
    using Cons.prems(4) by (simp add: get_opa_arg_len_def opa_args_len_def)
  have "b \<noteq> SP" using Cons.prems(2) by auto
  then have "opa_args_loop arg args c = opa_args_loop (arg @ [b]) args (c\<lparr>rx := (w @ SP # rest) # segs\<rparr>)"
    using Cons.prems r len by (subst opa_args_loop.simps) simp
  then show ?case using Cons.IH [of "c\<lparr>rx := (w @ SP # rest) # segs\<rparr>" "arg @ [b]"] Cons.prems by simp
qed

text \<open>What the validators let through: the name may be empty, and the file name may hold a line feed.\<close>

definition opa_fields :: "string \<Rightarrow> string \<Rightarrow> int \<Rightarrow> int \<Rightarrow> bool" where
  "opa_fields name fname sv ta \<longleftrightarrow> is_valid_name name \<and> is_valid_fname fname \<and> SP \<notin> set fname \<and> NUL \<notin> set fname
     \<and> 0 \<le> sv \<and> sv \<le> 999999 \<and> 0 \<le> ta \<and> ta \<le> 99999"

lemma start_ok_fields: "start_ok uid name fname sv ta now \<Longrightarrow> opa_fields name fname sv ta"
  by (auto simp: start_ok_def opa_fields_def clean_word_def)

lemma opa_args:
  assumes ok: "opa_fields name fname sv ta" and sz: "fsize \<le> 10000000" and x: "x \<noteq> []"
    and c: "rx c = (name @ SP # fmt_d sv @ SP # fmt_d ta @ SP # fname @ SP # fmt_d (int fsize) @ SP # x) # segs"
  shows "opa_args_loop [] [] c = (Inr (Inr [name, fmt_d sv, fmt_d ta, fname, fmt_d (int fsize)]), c\<lparr>rx := x # segs\<rparr>)"
proof -
  have w: "clean_word (fmt_d sv)" "clean_word (fmt_d ta)" by (rule clean_fmt_d_any)+
  have nm: "SP \<notin> set name" "NUL \<notin> set name"
    using ok valid_name_char_neqs(1,3) by (auto simp: opa_fields_def is_valid_name_iff)
  have fs: "clean_word (fmt_d (int fsize))" by (rule clean_fmt_d_any)
  have dg: "isdigit b" if "b \<in> set (fmt_d (int fsize))" for b using that by (intro fmt_d_isdigit [of "int fsize"]) simp
  have l: "length (fmt_d sv) \<le> 6" "length (fmt_d ta) \<le> 5" "length name \<le> 10" "length fname \<le> 24" "length (fmt_d (int fsize)) \<le> 8"
    using ok sz by (auto simp: opa_fields_def validator_iffs intro!: fmt_d_length_le)
  have v: "is_valid_name name" "is_valid_start_value (fmt_d sv)" "is_valid_time_active (fmt_d ta)" "is_valid_fname fname"
    "is_valid_fsize (fmt_d (int fsize))"
    using ok l dg by (auto simp: opa_fields_def fmt_d_valid_start_value fmt_d_valid_time_active is_valid_fsize_iff)
  have fn: "SP \<notin> set fname" "NUL \<notin> set fname" using ok by (auto simp: opa_fields_def)
  note d = opa_args_len_def constants is_valid_opa_arg_def clean_word_def
  have "opa_args_loop [] [] c = opa_args_loop [] [name, fmt_d sv, fmt_d ta, fname, fmt_d (int fsize)] (c\<lparr>rx := x # segs\<rparr>)"
    using w nm fn fs l v x by (simp add: opa_arg [OF c] opa_arg d)
  then show ?thesis by (simp add: opa_args_loop.simps)
qed

lemma handle_open_request:
  fixes c :: conn
  assumes ids: "is_valid_uid uid" "is_valid_passwd pw" and ok: "opa_fields name fname sv ta"
    and lim: "length asset \<le> 10000000"
    and c1: "rx c1 = ((uid @ '' '' @ pw @ '' '') @ name @ SP # fmt_d sv @ SP # fmt_d ta @ SP # fname @ SP
      # fmt_d (int (length asset)) @ SP # x) # segs" and x: "x \<noteq> []"
  shows "handle_open now g w c1 d =
      (if sv = 999999 \<or> asset = [] then Inr (OPA_BAD_ARGS, c1\<lparr>rx := x # segs\<rparr>, d)
        else if \<not> exists_user uid d \<or> \<not> is_user_logged_in uid d then tcp_reply (''ROA NLG'' @ [LF]) (c1\<lparr>rx := x # segs\<rparr>) d
        else if is_authentic_user uid pw d = 0 then tcp_reply (''ROA NLG'' @ [LF]) (c1\<lparr>rx := x # segs\<rparr>) d
        else bind_ok (create_new_auction uid name fname sv ta (int (length asset)) now g w (c1\<lparr>rx := x # segs\<rparr>) d)
          (\<lambda>(auction_id, c3, d').
          if auction_id = - 1 then tcp_reply (''ROA NOK'' @ [LF]) c3 d'
          else bind_ok (send_tcp_message (''ROA OK '' @ fmt_0d 3 auction_id @ [LF, NUL]) 11 c3) (\<lambda>(_, c4).
            Inr (0, c4, d'))))"
proof -
  have w: "clean_word uid" "clean_word pw" "length uid = 6" "length pw = 8"
    using valid_uid_clean [OF ids(1)] valid_passwd_clean [OF ids(2)] ids
    by (auto simp: clean_word_def is_valid_uid_iff is_valid_passwd_iff)
  let ?who = "uid @ '' '' @ pw @ '' ''"
  let ?args = "name @ SP # fmt_d sv @ SP # fmt_d ta @ SP # fname @ SP # fmt_d (int (length asset)) @ SP # x"
  let ?c2 = "c1\<lparr>rx := ?args # segs\<rparr>" and ?c3 = "c1\<lparr>rx := x # segs\<rparr>"
  have read: "read_tcp_stream (replicate 128 NUL) 16 c1 = Inr (0, ?who @ replicate 112 NUL, ?c2)"
    using read_segment [of c1 ?who ?args segs 128] w c1 by simp
  have args: "opa_args_loop [] [] ?c2 = (Inr (Inr [name, fmt_d sv, fmt_d ta, fname, fmt_d (int (length asset))]), ?c3)"
    using opa_args [OF ok lim x, of ?c2 segs] by simp
  have "NUL \<notin> set ?who" using w by (auto dest: clean_no_nul)
  then have who: "cstr (?who @ replicate 112 NUL) = ?who" by (rule cstr_replicate)
  have tok: "strtok [SP] ?who = (Some uid, pw @ [SP])" "strtok [SP] (pw @ [SP]) = (Some pw, [])"
    using w(1,2) by (simp_all add: strtok_word strtok_word_end)
  have sz: "UID_SIZE + 1 + PASSWORD_SIZE + 1 = 16" "UID_SIZE + PASSWORD_SIZE + 1 = 15" by (simp_all add: constants)
  have sp: "(?who @ replicate 112 NUL) ! 15 = SP" using w(3,4) by (simp add: nth_append)
  have num: "atoi (fmt_d sv) = sv" "atoi (fmt_d ta) = ta" "atol (fmt_d (int (length asset))) = int (length asset)"
    using ok lim by (auto simp: opa_fields_def intro!: atoi_fmt_d atol_fmt_d)
  have size: "int (length asset) \<le> 0 \<or> 10000000 < int (length asset) \<longleftrightarrow> asset = []" using lim by auto
  have bad: "(if p then y else if q then y else z) = (if p \<or> q then y else z)" for p q and y z :: tcp_result by simp
  let ?l = "[name, fmt_d sv, fmt_d ta, fname, fmt_d (int (length asset))]"
  have at: "?l ! 0 = name" "?l ! 1 = fmt_d sv" "?l ! 2 = fmt_d ta" "?l ! 3 = fname" "?l ! 4 = fmt_d (int (length asset))"
    by simp_all
  show ?thesis
    using ids
    by (simp only: handle_open_def sz read bind_ok_simps prod.case sp who tok args option.case sum.case Let_def simp_thms
      if_False not_True_eq_False at num size bad)
qed

lemma open_served:
  assumes "rx c = (open_request uid pw name sv ta fname n @ x) # segs"
    and "handle_open (clock e) (garbage e) (wcaps e) (c\<lparr>rx := ((uid @ '' '' @ pw @ '' '') @ name @ SP # fmt_d sv @ SP # fmt_d ta
      @ SP # fname @ SP # fmt_d (int n) @ SP # x) # segs\<rparr>) d = Inr (err, c', d')"
  shows "serve_tcp_connection e c d =
     (if err = 0 then Inr (0, c', d')
      else bind_ok (case get_tcp_error_msg err of None \<Rightarrow> Inl NullDeref | Some m \<Rightarrow> tcp_reply m c' d')
        (\<lambda>(rc, c2, d1). if rc \<noteq> 0 then tcp_reply (''ERR'' @ [LF]) c2 d1 else Inr (0, c2, d1)))"
  using serve_request [of c "''OPA ''" "(uid @ '' '' @ pw @ '' '') @ name @ SP # fmt_d sv @ SP # fmt_d ta @ SP # fname
      @ SP # fmt_d (int n) @ SP # x" segs H_open e d err c' d'] assms
  by (simp add: open_request_def tcp_command_table_def run_tcp_handler_def)

lemma open_refused:
  assumes ids: "is_valid_uid uid" "is_valid_passwd pw" and ok: "opa_fields name fname sv ta"
    and lim: "length asset \<le> 10000000" "sv = 999999 \<or> asset = []"
    and c: "rx c = (open_request uid pw name sv ta fname (length asset) @ x) # segs" "x \<noteq> []" "tx_caps c = []"
  shows "serve_tcp_connection e c d = Inr (0, c\<lparr>rx := x # segs, tx := tx c @ ''ROA ERR'' @ [LF]\<rparr>, d)"
proof -
  let ?c1 = "c\<lparr>rx := ((uid @ '' '' @ pw @ '' '') @ name @ SP # fmt_d sv @ SP # fmt_d ta @ SP # fname
      @ SP # fmt_d (int (length asset)) @ SP # x) # segs\<rparr>"
  have "handle_open (clock e) (garbage e) (wcaps e) ?c1 d = Inr (OPA_BAD_ARGS, c\<lparr>rx := x # segs\<rparr>, d)"
    using handle_open_request [OF ids ok lim(1), of ?c1 x segs] lim(2) c(2) by simp
  from open_served [OF c(1) this] show ?thesis
    using tcp_reply_all [of "c\<lparr>rx := x # segs\<rparr>"] c(3)
    by (simp add: OPA_BAD_ARGS_def get_tcp_error_msg_def tcp_errors_table_def)
qed

lemma open_round:
  fixes e :: env
  assumes d: "sound d" and ids: "is_valid_uid uid" "is_valid_passwd pw" and ok: "start_ok uid name fname sv ta (clock e)"
    and lim: "sv \<noteq> 999999" "clock e + ta < 2 ^ 31" "asset \<noteq> []" "length asset \<le> 10000000"
    and c: "rx c = (open_request uid pw name sv ta fname (length asset) @ x) # segs" "x \<noteq> []"
      "x @ concat segs = asset @ [LF]" "tx_caps c = []" and disk: "wcaps e = []"
  shows "\<exists>c' d'. serve_tcp_connection e c d = Inr (0, c', d') \<and> sound d' \<and> user_view d' = user_view d
     \<and> (if user_view d uid = Some (pw, True) then
          if auc_count d < 999 then tx c' = tx c @ ''ROA OK '' @ next_aid d @ [LF]
            \<and> auction_view d' = (auction_view d)(next_aid d \<mapsto>
                \<lparr>owner = uid, start_value = sv, deadline = clock e + ta, ended = False, bids = {}\<rparr>)
            \<and> fs_get (fs d') (asset_path (next_aid d) fname) = Some (File asset)
            \<and> start_of (fs d') (next_aid d) uid name fname sv ta (clock e)
          else tx c' = tx c @ ''ROA NOK'' @ [LF] \<and> d' = d
        else tx c' = tx c @ ''ROA NLG'' @ [LF] \<and> d' = d)"
proof -
  let ?who = "uid @ '' '' @ pw @ '' ''"
  let ?args = "name @ SP # fmt_d sv @ SP # fmt_d ta @ SP # fname @ SP # fmt_d (int (length asset)) @ SP # x"
  let ?c1 = "c\<lparr>rx := (?who @ ?args) # segs\<rparr>" and ?c2 = "c\<lparr>rx := ?args # segs\<rparr>" and ?c3 = "c\<lparr>rx := x # segs\<rparr>"
  note inv = sound_users_inv [OF d]
  note vs = us.exists_view [OF inv ids(1)] us.logged_view [OF inv ids(1)] us.authentic_view [OF inv ids(1), of pw]
  have c1: "?c1\<lparr>rx := x # segs\<rparr> = ?c3" "rx ?c1 = (?who @ ?args) # segs" by simp_all
  have bad: "(sv = 999999 \<or> asset = []) = False" using lim by simp
  note handler = handle_open_request [OF ids start_ok_fields [OF ok] lim(4) c1(2) c(2), of "clock e" "garbage e" "wcaps e" d,
      unfolded c1(1) bad if_False]
  have serve: ?thesis if "handle_open (clock e) (garbage e) (wcaps e) ?c1 d = Inr (0, c', d')" "sound d'" "user_view d' = user_view d"
    "if user_view d uid = Some (pw, True) then
          if auc_count d < 999 then tx c' = tx c @ ''ROA OK '' @ next_aid d @ [LF]
            \<and> auction_view d' = (auction_view d)(next_aid d \<mapsto>
                \<lparr>owner = uid, start_value = sv, deadline = clock e + ta, ended = False, bids = {}\<rparr>)
            \<and> fs_get (fs d') (asset_path (next_aid d) fname) = Some (File asset)
            \<and> start_of (fs d') (next_aid d) uid name fname sv ta (clock e)
          else tx c' = tx c @ ''ROA NOK'' @ [LF] \<and> d' = d
        else tx c' = tx c @ ''ROA NLG'' @ [LF] \<and> d' = d" for c' d'
  proof -
    have "serve_tcp_connection e c d = Inr (0, c', d')" using open_served [OF c(1) that(1)] by simp
    then show ?thesis using that(2-4) by blast
  qed
  show ?thesis
  proof (cases "user_view d uid = Some (pw, True)")
    case False
    have "handle_open (clock e) (garbage e) (wcaps e) ?c1 d = tcp_reply (''ROA NLG'' @ [LF]) ?c3 d"
      using False vs unfolding handler by auto
    then show ?thesis using False d tcp_reply_all [of ?c3] c(4) by (intro serve) auto
  next
    case True
    have gate: "exists_user uid d" "is_user_logged_in uid d" "is_authentic_user uid pw d \<noteq> 0"
      using vs True by (auto simp: ex_bool_eq)
    show ?thesis
    proof (cases "auc_count d < 999")
      case False
      then have n: "auc_count d = 999" using d db_invD(11) [of d] by (simp add: sound_def)
      have "handle_open (clock e) (garbage e) (wcaps e) ?c1 d = tcp_reply (''ROA NOK'' @ [LF]) ?c3 d"
        using gate create_full [OF n] unfolding handler by simp
      then show ?thesis using True False d tcp_reply_all [of ?c3] c(4) by (intro serve) auto
    next
      case n: True
      have "concat (rx ?c3) = asset @ [LF]" using c(3) by simp
      then obtain r where recv: "as_recv_asset_file (garbage e) (wcaps e) (int (length asset)) ?c3 = Inr (0, asset, ?c3\<lparr>rx := r\<rparr>)"
        using recv_asset_ok [of ?c3 asset 0 "int (length asset)" "garbage e" "[]"] disk by (auto simp: as_recv_asset_file_def)
      obtain d' where d': "create_new_auction uid name fname sv ta (int (length asset)) (clock e) (garbage e) (wcaps e) ?c3 d
          = Inr (auc_count d + 1, ?c3\<lparr>rx := r\<rparr>, d')" "sound d'" "user_view d' = user_view d"
        "fs_get (fs d') (asset_path (next_aid d) fname) = Some (File asset)"
        "start_of (fs d') (next_aid d) uid name fname sv ta (clock e)"
        "auction_view d' = (auction_view d)(next_aid d \<mapsto>
          \<lparr>owner = uid, start_value = sv, deadline = clock e + ta, ended = False, bids = {}\<rparr>)"
        using create_view [OF d n ok lim(2) True recv] by blast
      have pos: "auc_count d + 1 \<noteq> - 1" using d db_invD(10) [of d] by (simp add: sound_def)
      have len: "length (next_aid d) = 3" using next_aid(1) [of d] d n by (simp add: sound_def is_valid_aid_iff)
      have "send_tcp_message (''ROA OK '' @ fmt_0d 3 (auc_count d + 1) @ [LF, NUL]) 11 (?c3\<lparr>rx := r\<rparr>)
         = Inr (0, ?c3\<lparr>rx := r\<rparr>\<lparr>tx := tx c @ ''ROA OK '' @ next_aid d @ [LF]\<rparr>)"
        using send_tcp_message_all [of "?c3\<lparr>rx := r\<rparr>" 11 "''ROA OK '' @ fmt_0d 3 (auc_count d + 1) @ [LF, NUL]"] c(4) len
        by (simp add: next_aid_def)
      then have h: "handle_open (clock e) (garbage e) (wcaps e) ?c1 d
          = Inr (0, ?c3\<lparr>rx := r\<rparr>\<lparr>tx := tx c @ ''ROA OK '' @ next_aid d @ [LF]\<rparr>, d')"
        using gate d'(1) pos unfolding handler by simp
      show ?thesis by (rule serve [OF h d'(2,3)]) (simp add: True n d'(4-6))
    qed
  qed
qed

text \<open>
  C8. \<open>OPA\<close> as \<open>tcp.c\<close> answers it, on a sound database, whose disk works. When the arguments arrive in one
  segment and the asset after them in any number of segments, a user who is logged in gets a new auction with
  the next identifier, no bids and the asset he sent, as long as there are fewer than 999, and \<open>NOK\<close> otherwise;
  other users are answered \<open>NLG\<close>; before all of this a start value of 999999 and an empty asset are answered
  \<open>ERR\<close>. No refusal changes the database. The asset has at most 10 MB, the end of the auction is before 2038,
  and each \<open>write\<close> of the asset is complete (\<open>wcaps\<close> is empty).
\<close>

theorem open_exchange:
  fixes e :: env
  assumes d: "sound d" and ids: "is_valid_uid uid" "is_valid_passwd pw" and ok: "start_ok uid name fname sv ta (clock e)"
    and lim: "clock e + ta < 2 ^ 31" "length asset \<le> 10000000"
    and c: "rx c = (open_request uid pw name sv ta fname (length asset) @ x) # segs" "x \<noteq> []"
      "x @ concat segs = asset @ [LF]" "tx_caps c = []" and disk: "wcaps e = []"
  shows "\<exists>c' d'. serve_tcp_connection e c d = Inr (0, c', d') \<and> sound d' \<and> user_view d' = user_view d
     \<and> (if sv = 999999 \<or> asset = [] then tx c' = tx c @ ''ROA ERR'' @ [LF] \<and> d' = d
        else if user_view d uid = Some (pw, True) then
          if auc_count d < 999 then tx c' = tx c @ ''ROA OK '' @ next_aid d @ [LF]
            \<and> auction_view d' = (auction_view d)(next_aid d \<mapsto>
                \<lparr>owner = uid, start_value = sv, deadline = clock e + ta, ended = False, bids = {}\<rparr>)
            \<and> fs_get (fs d') (asset_path (next_aid d) fname) = Some (File asset)
          else tx c' = tx c @ ''ROA NOK'' @ [LF] \<and> d' = d
        else tx c' = tx c @ ''ROA NLG'' @ [LF] \<and> d' = d)"
proof (cases "sv = 999999 \<or> asset = []")
  case True
  then show ?thesis using open_refused [OF ids start_ok_fields [OF ok] lim(2) True c(1,2,4)] d by simp
next
  case False
  then have l: "sv \<noteq> 999999" "asset \<noteq> []" by simp_all
  from open_round [OF d ids ok l(1) lim(1) l(2) lim(2) c disk] show ?thesis
    unfolding if_not_P [OF False] by (elim ex_forward) (simp split: if_splits)
qed

theorem open_exchange_witness:
  "\<exists>c' d'. serve_tcp_connection (example_env\<lparr>clock := 1700000000\<rparr>)
         (idle_conn\<lparr>rx := [''OPA 123456 password lamp 10 3600 lamp.jpg 4 da'', ''ta'', [LF]]\<rparr>) two_users = Inr (0, c', d')
     \<and> tx c' = ''ROA OK 001'' @ [LF] \<and> map_option owner (auction_view d' ''001'') = Some ''123456''"
proof -
  let ?e = "example_env\<lparr>clock := 1700000000\<rparr>"
  let ?c = "idle_conn\<lparr>rx := (open_request ''123456'' ''password'' ''lamp'' 10 3600 ''lamp.jpg'' (length ''data'') @ ''da'')
      # [''ta'', [LF]]\<rparr>"
  have num: "fmt_d 10 = ''10''" "fmt_d 3600 = ''3600''" "fmt_d 4 = ''4''" by code_simp+
  have c: "rx ?c = (open_request ''123456'' ''password'' ''lamp'' 10 3600 ''lamp.jpg'' (length ''data'') @ ''da'') # [''ta'', [LF]]"
    "''da'' \<noteq> []" "''da'' @ concat [''ta'', [LF]] = ''data'' @ [LF]" "tx_caps ?c = []" "wcaps ?e = []"
    by (simp_all add: idle_conn_def example_env_def)
  have ok: "start_ok ''123456'' ''lamp'' ''lamp.jpg'' 10 3600 (clock ?e)" using example_fields(6) by simp
  have eq: "?c = idle_conn\<lparr>rx := [''OPA 123456 password lamp 10 3600 lamp.jpg 4 da'', ''ta'', [LF]]\<rparr>"
    by (simp add: open_request_def num)
  obtain c' d' where r: "serve_tcp_connection ?e ?c two_users = Inr (0, c', d')" "tx c' = tx ?c @ ''ROA OK '' @ next_aid two_users @ [LF]"
     "auction_view d' = (auction_view two_users)(next_aid two_users \<mapsto>
        \<lparr>owner = ''123456'', start_value = 10, deadline = clock ?e + 3600, ended = False, bids = {}\<rparr>)"
    using open_exchange [OF two_users(1) example_fields(1,3) ok _ _ c] two_users(2,3) by auto
  show ?thesis
    using r next_aid_two_users unfolding eq by (intro exI [of _ c'] exI [of _ d']) (simp add: idle_conn_def)
qed

end
