(* ===== verification/Runs.thy ===== *)
theory Runs
  imports Main
begin

text \<open>
  What a step relation has to promise so that its runs can be reasoned about: an invariant, a relation
  between the states before and after (what is kept, what only grows), and a measure that every step lowers.
  The server, its thread pool and the work of the pool are instances.
\<close>

section \<open>Kept along every run\<close>

locale preserving =
  fixes step :: "'s \<Rightarrow> 's \<Rightarrow> bool"
    and good :: "'s \<Rightarrow> bool"
    and kept :: "'s \<Rightarrow> 's \<Rightarrow> bool"
  assumes step_keeps: "step s s' \<Longrightarrow> good s \<Longrightarrow> good s' \<and> kept s s'"
    and kept_refl: "good s \<Longrightarrow> kept s s"
    and kept_trans: "kept s s' \<Longrightarrow> kept s' s'' \<Longrightarrow> kept s s''"
begin

lemma run_keeps: "step\<^sup>*\<^sup>* s s' \<Longrightarrow> good s \<Longrightarrow> good s' \<and> kept s s'"
proof (induction rule: rtranclp_induct)
  case base
  then show ?case by (simp add: kept_refl)
next
  case (step x y)
  then show ?case using step_keeps kept_trans by blast
qed

end

section \<open>Runs that end\<close>

locale ending =
  fixes step :: "'s \<Rightarrow> 's \<Rightarrow> bool"
    and left :: "'s \<Rightarrow> nat"
  assumes step_lowers: "step s s' \<Longrightarrow> left s' < left s"
begin

definition stuck :: "'s \<Rightarrow> bool" where
  "stuck s \<longleftrightarrow> (\<nexists>s'. step s s')"

lemma no_endless_run: "wf {(s', s). step s s'}"
  by (rule wf_subset [OF wf_measure [of left]]) (auto dest: step_lowers)

lemma run_bounded: "(step ^^ n) s s' \<Longrightarrow> left s' + n \<le> left s"
proof (induction n arbitrary: s')
  case (Suc n)
  then obtain x where "(step ^^ n) s x" "step x s'" by auto
  then show ?case using Suc.IH [of x] step_lowers [of x s'] by simp
qed simp

lemma finishes: "\<exists>s'. step\<^sup>*\<^sup>* s s' \<and> stuck s'"
proof (induction "left s" arbitrary: s rule: less_induct)
  case less
  show ?case
  proof (cases "\<exists>y. step s y")
    case True
    then obtain y where y: "step s y" by blast
    from less [OF step_lowers [OF y]] show ?thesis using y by (meson converse_rtranclp_into_rtranclp)
  qed (auto simp: stuck_def)
qed

end

section \<open>Both\<close>

locale settling = preserving step good kept + ending step left
  for step :: "'s \<Rightarrow> 's \<Rightarrow> bool" and good :: "'s \<Rightarrow> bool" and kept :: "'s \<Rightarrow> 's \<Rightarrow> bool" and left :: "'s \<Rightarrow> nat"
begin

lemma settles: "good s \<Longrightarrow> \<exists>s'. step\<^sup>*\<^sup>* s s' \<and> stuck s' \<and> good s' \<and> kept s s'"
  using finishes run_keeps by blast

end

end
