(* ===== verification/ServerRun.thy ===== *)
theory ServerRun
  imports UdpSafety TcpExchanges Runs
begin

text \<open>
  The whole server as a sequence of events: datagrams and connections with arbitrary contents, segmentation
  and failures of the network, and restarts. One event is finished before the next begins, as if the server
  had one thread, and the disk works except that it may store less of an asset than it was given. Every database
  such a run reaches is sound, as long as the clock is before 2038 and no connection opens an auction whose
  name is empty or whose file name holds a line feed.
\<close>

section \<open>One connection\<close>

lemma tcp_reply_db: "tcp_reply s c d = Inr (rc, c', d') \<Longrightarrow> rc = 0 \<and> d' = d"
  by (auto simp: tcp_reply_def bind_ok_def split: sum.splits prod.splits)

lemma place_bid_sound:
  assumes d: "sound d" and ids: "is_valid_uid uid" "is_valid_aid aid" and v: "v \<le> 999999" and now: "time_ok now"
    and r: "place_bid now uid pw aid v c d = Inr (rc, c', d')"
  shows "step_ok d d'"
proof -
  obtain d1 where u: "update_database now d = Inr (0, d1)" using sound_update [OF d] by blast
  note d1 = update_view [OF d u] and s1 = step_ok_update [OF d u]
  let ?out = "bid_outcome (user_view d1) (auction_view d1) uid pw aid v"
  note chk = bid_checks_refine [OF d1(1) ids, of pw v]
  show ?thesis
  proof (cases "?out = ''ACC''")
    case False
    then have "place_bid now uid pw aid v c d = tcp_reply (''RBD '' @ ?out @ [LF]) c d1"
      using u chk(1) by (simp add: place_bid_def)
    then show ?thesis using r s1 tcp_reply_db by metis
  next
    case True
    obtain d2 where d2: "bid now aid uid v d1 = (0, d2)" "sound d2"
      "auction_view d2 = change aid (\<lambda>x. x\<lparr>bids := insert v (bids x)\<rparr>) (auction_view d1)" "keeps_records d1 d2"
      using bid_view [OF d1(1) ids(2) _ ids(1) _ _ v now] chk(2) [OF True] by auto
    have "\<not> ended x" if "auction_view d1 aid = Some x" for x
      using True that by (auto simp: bid_outcome_def split: option.splits if_splits)
    then have "step_ok d1 d2" using d2(2-4) by (auto simp: step_ok_def intro: evolves_change)
    then have "step_ok d d2" by (rule step_ok_trans [OF s1])
    moreover have "place_bid now uid pw aid v c d = tcp_reply (''RBD ACC'' @ [LF]) c d2"
      using u chk(1) True d2(1) by (simp add: place_bid_def)
    ultimately show ?thesis using tcp_reply_db r by metis
  qed
qed

lemma bid_value_loop_result:
  "bid_value_loop vs c = (Inr ws, c') \<Longrightarrow> \<forall>b \<in> set vs. isdigit b \<Longrightarrow> length vs \<le> 6 \<Longrightarrow>
     (\<forall>b \<in> set ws. isdigit b) \<and> length ws \<le> 6"
proof (induction vs c rule: bid_value_loop.induct)
  case (1 vs c)
  show ?case
  proof (cases "length vs < MAX_BID_VALUE")
    case False
    then show ?thesis using "1.prems" by (simp add: bid_value_loop.simps [of vs c])
  next
    case True
    obtain x c1 where r: "recv 1 c = (x, c1)" by fastforce
    show ?thesis
    proof (cases x)
      case (Inl err)
      then show ?thesis using "1.prems" r True by (simp add: bid_value_loop.simps [of vs c])
    next
      case (Inr bs)
      note IH = "1.IH" [OF True r [symmetric] Inr]
      consider "bs = []" | "bs \<noteq> []" "hd bs = LF" | "bs \<noteq> []" "hd bs \<noteq> LF" "length vs = 0 \<and> hd bs = CHR ''0''"
        | "bs \<noteq> []" "hd bs \<noteq> LF" "\<not> (length vs = 0 \<and> hd bs = CHR ''0'')" "\<not> isdigit (hd bs)"
        | "bs \<noteq> []" "hd bs \<noteq> LF" "\<not> (length vs = 0 \<and> hd bs = CHR ''0'')" "isdigit (hd bs)" by blast
      then show ?thesis
      proof cases
        case 3
        have "bid_value_loop vs c1 = (Inr ws, c')"
          using 3 "1.prems"(1) r Inr True by (subst (asm) bid_value_loop.simps) auto
        then show ?thesis using IH(1) [OF 3] "1.prems"(2,3) by blast
      next
        case 5
        have "bid_value_loop (vs @ [hd bs]) c1 = (Inr ws, c')"
          using 5 "1.prems"(1) r Inr True by (simp add: bid_value_loop.simps [of vs c] split: if_splits)
        then show ?thesis using IH(2) [OF 5(1-3)] 5(4) "1.prems"(2) True by (simp add: MAX_BID_VALUE_def)
      qed (use "1.prems" r Inr True in \<open>auto simp: bid_value_loop.simps [of vs c] split: if_splits\<close>)
    qed
  qed
qed

lemma handle_bid_sound:
  assumes d: "sound d" and now: "time_ok now" and r: "handle_bid now c d = Inr (rc, c', d')"
  shows "step_ok d d'"
proof -
  obtain err buff c1 where rd: "read_tcp_stream (replicate 32 NUL) (UID_SIZE + 1 + PASSWORD_SIZE + 1 + AID_SIZE + 1) c
      = Inr (err, buff, c1)"
    using r by (cases "read_tcp_stream (replicate 32 NUL) (UID_SIZE + 1 + PASSWORD_SIZE + 1 + AID_SIZE + 1) c")
      (auto simp: handle_bid_def)
  obtain x c2 where loop: "bid_value_loop [] c1 = (x, c2)" by fastforce
  note r' = r [unfolded handle_bid_def rd bind_ok_simps prod.case loop]
  show ?thesis
  proof (cases "err \<noteq> 0 \<or> (\<exists>e. x = Inl e)")
    case True
    then show ?thesis using r' step_ok_same [OF d] by (auto split: if_splits)
  next
    case False
    then obtain ws where x: "x = Inr ws" by (cases x) auto
    have ws: "\<forall>b \<in> set ws. isdigit b" "length ws \<le> 6"
      using bid_value_loop_result [of "[]" c1 ws c2] loop x by simp_all
    have v: "atoi ws \<le> 999999" using value_bounds(2) [OF ws(1)] ws(2) by simp
    show ?thesis
      using r' False step_ok_same [OF d] place_bid_sound [OF d _ _ v now]
      by (auto simp: x Let_def split: prod.splits option.splits if_splits)
  qed
qed

lemma close_checked_sound:
  assumes d: "sound d" and ids: "is_valid_uid uid" "is_valid_aid aid" and now: "time_ok now"
    and r: "close_checked now uid pw aid c d = Inr (rc, c', d')"
  shows "step_ok d d'"
proof -
  obtain d1 where u: "update_database now d = Inr (0, d1)" using sound_update [OF d] by blast
  note d1 = update_view [OF d u] and s1 = step_ok_update [OF d u]
  show ?thesis
  proof (cases "exists_auction aid d1")
    case False
    then show ?thesis using r u s1 by (auto simp: close_checked_def dest: tcp_reply_db split: if_splits)
  next
    case True
    obtain d2 where d2: "close_auction now aid d1 = (0, d2)" "sound d2"
      "auction_view d2 = change aid (\<lambda>x. x\<lparr>ended := True\<rparr>) (auction_view d1)" "keeps_records d1 d2"
      using close_view [OF d1(1) ids(2) True now] by auto
    have "step_ok d1 d2" using d2(2-4) by (auto simp: step_ok_def intro: evolves_change)
    then have "step_ok d d2" by (rule step_ok_trans [OF s1])
    then show ?thesis
      using r u s1 d2(1) by (auto simp: close_checked_def dest: tcp_reply_db split: if_splits option.splits)
  qed
qed

lemma handle_close_sound:
  assumes d: "sound d" and now: "time_ok now" and r: "handle_close now c d = Inr (rc, c', d')"
  shows "step_ok d d'"
  using r step_ok_same [OF d] close_checked_sound [OF d _ _ now]
  by (auto simp: handle_close_def bind_ok_def Let_def split: sum.splits prod.splits option.splits if_splits)

lemma handle_show_asset_sound:
  assumes d: "sound d" and r: "handle_show_asset answers c d = Inr (rc, c', d')"
  shows "d' = d"
  using r by (auto simp: handle_show_asset_def send_asset_def bind_ok_def Let_def dest: tcp_reply_db
    split: sum.splits prod.splits option.splits if_splits)

text \<open>The arguments that reach \<open>create_new_auction\<close> are valid, and words of the record but for a line feed.\<close>

definition opa_arg_ok :: "string list \<Rightarrow> bool" where
  "opa_arg_ok args \<longleftrightarrow> (\<forall>i < length args. is_valid_opa_arg (args ! i) i \<and> SP \<notin> set (args ! i) \<and> NUL \<notin> set (args ! i))"

lemma opa_arg_ok_snoc: "opa_arg_ok args \<Longrightarrow> is_valid_opa_arg w (length args) \<Longrightarrow> SP \<notin> set w \<Longrightarrow> NUL \<notin> set w \<Longrightarrow>
    opa_arg_ok (args @ [w])"
  by (auto simp: opa_arg_ok_def nth_append less_Suc_eq)

lemma set_cstr: "set (cstr s) \<subseteq> set s" "NUL \<notin> set (cstr s)"
  by (auto simp: cstr_def dest: set_takeWhileD)

lemma opa_args_loop_result:
  "opa_args_loop arg args c = (Inr (Inr args'), c') \<Longrightarrow> SP \<notin> set arg \<Longrightarrow> length args \<le> 5 \<Longrightarrow> opa_arg_ok args \<Longrightarrow>
     length args' = 5 \<and> opa_arg_ok args'"
proof (induction arg args c rule: opa_args_loop.induct)
  case (1 arg args c)
  show ?case
  proof (cases "length args < 5")
    case False
    then show ?thesis using "1.prems" by (simp add: opa_args_loop.simps [of arg args c])
  next
    case True
    obtain x c1 where r: "recv 1 c = (x, c1)" by fastforce
    have len: "get_opa_arg_len (int (length args)) = Inr (opa_args_len ! length args)"
      using True by (simp add: get_opa_arg_len_def opa_args_len_def)
    have "\<exists>bs. x = Inr bs \<and> bs \<noteq> [] \<and> \<not> length arg > opa_args_len ! length args"
      using "1.prems"(1) r len True
      by (cases x) (auto simp: opa_args_loop.simps [of arg args c] split: if_splits)
    then obtain bs where x: "x = Inr bs" "bs \<noteq> []" "\<not> length arg > opa_args_len ! length args" by blast
    note IH = "1.IH" [OF True r [symmetric] x(1,2) len x(3)]
    show ?thesis
    proof (cases "hd bs = SP")
      case sp: True
      have v: "is_valid_opa_arg (cstr arg) (length args)" "opa_args_loop [] (args @ [cstr arg]) c1 = (Inr (Inr args'), c')"
        using "1.prems"(1) r len x True sp by (auto simp: opa_args_loop.simps [of arg args c] split: if_splits)
      have "opa_arg_ok (args @ [cstr arg])"
        using "1.prems"(2,4) v(1) set_cstr [of arg] by (intro opa_arg_ok_snoc) auto
      then show ?thesis using IH(1) [OF sp] v True by simp
    next
      case False
      have "opa_args_loop (arg @ [hd bs]) args c1 = (Inr (Inr args'), c')"
        using "1.prems"(1) r len x True False by (auto simp: opa_args_loop.simps [of arg args c] split: if_splits)
      then show ?thesis using IH(2) [OF False] False "1.prems"(2-4) by simp
    qed
  qed
qed

text \<open>The names an \<open>OPA\<close> connection gives: the asset name and the file name.\<close>

definition open_names :: "conn \<Rightarrow> (string \<times> string) option" where
  "open_names c =
     (case read_tcp_stream (replicate 128 NUL) (UID_SIZE + 1 + PASSWORD_SIZE + 1) c of
        Inl _ \<Rightarrow> None
      | Inr (_, _, c1) \<Rightarrow>
          (case opa_args_loop [] [] c1 of
             (Inr (Inr args), _) \<Rightarrow> Some (args ! 0, args ! 3)
           | _ \<Rightarrow> None))"

definition names_ok :: "(string \<times> string) option \<Rightarrow> bool" where
  "names_ok n = (case n of None \<Rightarrow> True | Some (name, fname) \<Rightarrow> name \<noteq> [] \<and> LF \<notin> set fname)"

lemma create_any_sound:
  assumes d: "sound d" and ok: "start_ok uid name fname sv ta now" and t: "now + ta < 2 ^ 31" and reg: "user_view d uid = Some r"
    and r: "create_new_auction uid name fname sv ta fsize now m caps c d = Inr (k, c', d')"
  shows "step_ok d d'"
proof (cases "auc_count d < 999")
  case False
  then have "auc_count d = 999" using d db_invD(11) [of d] by (simp add: sound_def)
  then show ?thesis using r step_ok_same [OF d] create_full by simp
next
  case n: True
  show ?thesis
  proof (cases "as_recv_asset_file m caps fsize c")
    case (Inl f)
    have "is_valid_fname fname" "now \<noteq> - 1" using ok by (auto simp: start_ok_def)
    then show ?thesis using r Inl create_new_auction_steps [of d fname now] d n by (simp add: sound_def)
  next
    case (Inr x)
    obtain rc asset c1 where x: "x = (rc, asset, c1)" by (cases x) auto
    note recv = Inr [unfolded x]
    show ?thesis
    proof (cases "rc = 0")
      case True
      have "auction_view d (next_aid d) = None" using next_aid(3) [of d] d n by (intro auction_view_None) (simp add: sound_def)
      then show ?thesis
        using create_view [OF d n ok t reg recv [unfolded True]] r by (auto simp: step_ok_def intro: evolves_new)
    next
      case False
      obtain d2 where "create_new_auction uid name fname sv ta fsize now m caps c d = Inr (- 1, c1, d2)"
        and d2: "sound d2" "auc_count d2 = auc_count d" "fs_get (fs d2) = fs_get (fs d)"
        using create_step [OF d n ok t reg recv] False by auto
      moreover have "auction_view d2 = auction_view d"
        using d2(2,3) by (intro ext auction_view_cong) (simp_all add: exists_auction_def bid_set_def)
      moreover have "keeps_records d d2" using d2(3) by (simp add: keeps_records_def)
      ultimately show ?thesis using r step_ok_view by simp
    qed
  qed
qed

definition clock_in_range :: "int \<Rightarrow> bool" where
  "clock_in_range now \<longleftrightarrow> 0 < now \<and> now + 99999 < 2 ^ 31"

lemma clock_in_range_time_ok: "clock_in_range now \<Longrightarrow> time_ok now"
  by (simp add: clock_in_range_def time_ok_def)

lemma handle_open_sound:
  assumes d: "sound d" and now: "clock_in_range now" and names: "names_ok (open_names c)"
    and r: "handle_open now m caps c d = Inr (rc, c', d')"
  shows "step_ok d d'"
proof -
  obtain err buff c1 where rd: "read_tcp_stream (replicate 128 NUL) (UID_SIZE + 1 + PASSWORD_SIZE + 1) c = Inr (err, buff, c1)"
    using r by (cases "read_tcp_stream (replicate 128 NUL) (UID_SIZE + 1 + PASSWORD_SIZE + 1) c") (auto simp: handle_open_def)
  note r' = r [unfolded handle_open_def rd bind_ok_simps prod.case]
  obtain x c2 where loop: "opa_args_loop [] [] c1 = (x, c2)" by fastforce
  show ?thesis
  proof (cases "\<exists>args. x = Inr (Inr args)")
    case False
    then show ?thesis using r' step_ok_same [OF d]
      by (cases x) (auto simp: loop split: if_splits option.splits prod.splits sum.splits)
  next
    case True
    then obtain args where x: "x = Inr (Inr args)" by blast
    have a: "length args = 5" "opa_arg_ok args"
      using opa_args_loop_result [of "[]" "[]" c1 args c2] loop x by (simp_all add: opa_arg_ok_def)
    have n: "args ! 0 \<noteq> []" "LF \<notin> set (args ! 3)"
      using names by (simp_all add: open_names_def names_ok_def rd [simplified] loop x)
    have v: "is_valid_name (args ! 0)" "is_valid_start_value (args ! 1)" "is_valid_time_active (args ! 2)" "is_valid_fname (args ! 3)"
      "SP \<notin> set (args ! 3)" "NUL \<notin> set (args ! 3)"
      using a by (auto simp: opa_arg_ok_def is_valid_opa_arg_def dest: spec [of _ 0] spec [of _ 1] spec [of _ 2] spec [of _ 3])
    have "args ! 3 \<noteq> []" using v(4) by (auto simp: is_valid_fname_iff)
    then have ok: "start_ok uid (args ! 0) (args ! 3) (atoi (args ! 1)) (atoi (args ! 2)) now" if "is_valid_uid uid" for uid
      using that v n now valid_start_value_atoi [OF v(2)] valid_time_active_atoi [OF v(3)]
      by (auto simp: start_ok_def clean_word_def clock_in_range_def)
    have t: "now + atoi (args ! 2) < 2 ^ 31"
      using now valid_time_active_atoi [OF v(3)] by (simp add: clock_in_range_def)
    have create: "step_ok d e" if u: "is_valid_uid uid" "exists_user uid d"
      "create_new_auction uid (args ! 0) (args ! 3) (atoi (args ! 1)) (atoi (args ! 2)) fsize now m caps c2 d = Inr (k, c3, e)"
      for uid fsize k c3 e
    proof -
      obtain u where "user_view d uid = Some u" using us.exists_view [OF sound_users_inv [OF d] u(1)] u(2) by auto
      then show ?thesis using create_any_sound [OF d ok [OF u(1)] t _ u(3)] by blast
    qed
    show ?thesis using r' step_ok_same [OF d] create
      by (auto simp: loop x Let_def bind_ok_def dest: tcp_reply_db split: if_splits option.splits prod.splits sum.splits)
  qed
qed

section \<open>The server\<close>

lemma serve_tcp_sound:
  assumes d: "sound d" and now: "clock_in_range (clock e)"
    and names: "\<And>c1. read_tcp_stream (replicate 8 NUL) 4 c = Inr (0, buf, c1) \<Longrightarrow> cstr buf = ''OPA '' \<Longrightarrow> names_ok (open_names c1)"
    and rd: "read_tcp_stream (replicate 8 NUL) 4 c = Inr (err, buf, c1)"
    and r: "serve_tcp_connection e c d = Inr (rc, c', d')"
  shows "step_ok d d'"
proof (cases "err = 0")
  case False
  then show ?thesis using r rd step_ok_same [OF d] by (auto simp: serve_tcp_connection_def dest: tcp_reply_db)
next
  case True
  have h: "step_ok d d2" if "handle_tcp_command e (cstr buf) c1 d = Inr (rc2, c2, d2)" for rc2 c2 d2
  proof (cases "get_tcp_handler_fn (cstr buf)")
    case None
    then show ?thesis using that step_ok_same [OF d] by (simp add: handle_tcp_command_def)
  next
    case (Some h)
    have "step_ok d d3" if "run_tcp_handler h e c1 d = Inr (rc3, c3, d3)" for rc3 c3 d3
    proof (cases h)
      case H_open
      then have "cstr buf = ''OPA ''"
        using Some by (auto simp: get_tcp_handler_fn_def tcp_command_table_def split: if_splits)
      then have "names_ok (open_names c1)" using names rd True by blast
      then show ?thesis using that H_open handle_open_sound [OF d now] by (simp add: run_tcp_handler_def)
    next
      case H_close
      then show ?thesis using that handle_close_sound [OF d clock_in_range_time_ok [OF now]] by (simp add: run_tcp_handler_def)
    next
      case H_show_asset
      then show ?thesis using that handle_show_asset_sound [OF d, of "rcaps e" c1 rc3 c3 d3] step_ok_same [OF d] by (simp add: run_tcp_handler_def)
    next
      case H_bid
      then show ?thesis using that handle_bid_sound [OF d clock_in_range_time_ok [OF now]] by (simp add: run_tcp_handler_def)
    qed
    then show ?thesis using that Some
      by (auto simp: handle_tcp_command_def bind_ok_def dest: tcp_reply_db split: sum.splits prod.splits if_splits option.splits)
  qed
  then show ?thesis using r rd True
    by (auto simp: serve_tcp_connection_def bind_ok_def dest: tcp_reply_db split: sum.splits prod.splits if_splits)
qed

section \<open>Runs of the server\<close>

text \<open>
  What happens to a server, one event after the other: a datagram is answered, a connection is served to its
  end, or the server is stopped and started again on its directory. \<open>server_does\<close> is the database after the
  event, \<open>None\<close> when the event makes the server crash or refuse to start. The environment of a connection
  (\<open>env\<close>) holds the time, how much each \<open>write\<close> and \<open>read\<close> of the files moves, and the bytes of arrays
  that were never written.
\<close>

datatype server_event = Serve_datagram int string | Serve_connection env conn | Restart

fun server_does :: "server_event \<Rightarrow> db \<Rightarrow> db option" where
  "server_does (Serve_datagram now dg) d = (case udp_round now dg d of Inl _ \<Rightarrow> None | Inr (_, d') \<Rightarrow> Some d')"
| "server_does (Serve_connection e c) d = (case serve_tcp_connection e c d of Inl _ \<Rightarrow> None | Inr (_, _, d') \<Rightarrow> Some d')"
| "server_does Restart d =
     (case init_database (working_dir (fs d)) of
        None \<Rightarrow> None
      | Some (rc, d') \<Rightarrow> if rc = 0 then Some d' else None)"

fun server_run :: "server_event list \<Rightarrow> db \<Rightarrow> db option" where
  "server_run [] d = Some d"
| "server_run (ev # evs) d = (case server_does ev d of None \<Rightarrow> None | Some d' \<Rightarrow> server_run evs d')"

text \<open>
  The limits under which the records stay readable: a connection is served while the clock is before 2038,
  and an \<open>OPA\<close> whose name is empty, or whose file name holds a line feed, does not occur. The code accepts
  both; what the first of them does is proved in \<open>NamelessAuction\<close>.
\<close>

definition sane_open :: "conn \<Rightarrow> bool" where
  "sane_open c =
     (case read_tcp_stream (replicate 8 NUL) 4 c of
        Inr (_, buf, c1) \<Rightarrow> cstr buf = ''OPA '' \<longrightarrow> names_ok (open_names c1)
      | Inl _ \<Rightarrow> True)"

fun within_limits :: "server_event \<Rightarrow> bool" where
  "within_limits (Serve_connection e c) = (clock_in_range (clock e) \<and> sane_open c)"
| "within_limits (Serve_datagram now dg) = True"
| "within_limits Restart = True"

lemma serve_step_ok:
  assumes d: "sound d" and r: "serve_tcp_connection e c d = Inr (rc, c', d')" and now: "clock_in_range (clock e)" and s: "sane_open c"
  shows "step_ok d d'"
proof (cases "read_tcp_stream (replicate 8 NUL) 4 c")
  case (Inl f)
  then show ?thesis using r by (simp add: serve_tcp_connection_def)
next
  case (Inr x)
  obtain err buf c1 where x: "x = (err, buf, c1)" by (cases x) auto
  show ?thesis
    by (rule serve_tcp_sound [OF d now _ Inr [unfolded x] r]) (use s Inr x in \<open>auto simp: sane_open_def\<close>)
qed

lemma server_does_ok:
  assumes "server_does ev d = Some d'" "within_limits ev" "sound d"
  shows "step_ok d d'"
proof (cases ev)
  case (Serve_datagram now dg)
  then show ?thesis
    using assms(1) udp_round_step [OF assms(3), of dg now] by (auto split: if_splits sum.splits)
next
  case (Serve_connection e c)
  then show ?thesis using assms serve_step_ok [OF assms(3)] by (auto split: sum.splits)
next
  case Restart
  then show ?thesis
    using assms(1) restart_state [OF assms(3)] step_ok_same [OF assms(3)] by (auto split: option.splits if_splits)
qed

interpretation srv: preserving "\<lambda>d d'. \<exists>ev. within_limits ev \<and> server_does ev d = Some d'" sound step_ok
  by unfold_locales (auto simp: step_ok_def dest: server_does_ok intro: evolves_trans keeps_records_trans)

lemma server_run_steps:
  "server_run evs d = Some d' \<Longrightarrow> \<forall>ev \<in> set evs. within_limits ev \<Longrightarrow>
     (\<lambda>d d'. \<exists>ev. within_limits ev \<and> server_does ev d = Some d')\<^sup>*\<^sup>* d d'"
  by (induction evs arbitrary: d) (auto split: option.splits intro: converse_rtranclp_into_rtranclp)

lemma server_run_ok:
  assumes "server_run evs d = Some d'" "\<forall>ev \<in> set evs. within_limits ev" "sound d"
  shows "step_ok d d'"
  using srv.run_keeps server_run_steps [OF assms(1,2)] assms(3) by blast

lemma first_start: "init_database \<lparr>nodes = [], denied = [], full = False\<rparr> = Some (0, empty_db)"
  by code_simp

end
