(* ===== verification/TcpSafety.thy ===== *)
theory TcpSafety
  imports ServerRun
begin

text \<open>
  Which bytes of a client can make the TCP side of the server leave its memory? \<open>read_tcp_stream\<close> is safe
  when the array has room for twice the bytes asked for, whatever the segmentation; every array of
  \<open>server/tcp.c\<close> has, except the one of \<open>handle_bid\<close>. The writes to sockets and files are assumed not to be
  short (they may fail), because the loops that repeat them advance their pointers twice.
\<close>

section \<open>Reading\<close>

lemma read_tcp_loop_inside:
  assumes "2 * n \<le> length buff + 1" "ptr = total_read" "total_read \<le> n"
  shows "read_tcp_loop buff ptr total_read n c \<noteq> Inl f"
  using assms
proof (induction buff ptr total_read n c rule: read_tcp_loop.induct)
  case (1 buff ptr total_read n c)
  show ?case
  proof (cases "total_read < n")
    case False
    then show ?thesis by (simp add: read_tcp_loop.simps [of buff])
  next
    case True
    show ?thesis
    proof (cases "recv (n - total_read) c")
      case (Pair r c')
      show ?thesis
      proof (cases "\<exists>bs. r = Inr bs \<and> bs \<noteq> []")
        case False
        then show ?thesis using True Pair by (cases r) (auto simp: read_tcp_loop.simps [of buff])
      next
        case got: True
        then obtain bs where bs: "r = Inr bs" "bs \<noteq> []" by blast
        then have len: "length bs \<le> n - total_read" using recv_progress Pair by blast
        define buff' where "buff' = take (ptr + total_read) buff @ bs @ drop (ptr + total_read + length bs) buff"
        have fits: "ptr + total_read + length bs \<le> length buff" using True len "1.prems" by linarith
        then have w: "array_write (ptr + total_read) bs buff = Inr buff'" by (simp add: array_write_def buff'_def)
        have "length buff' = length buff" using fits by (simp add: buff'_def)
        then have "read_tcp_loop buff' (ptr + length bs) (total_read + length bs) n c' \<noteq> Inl f"
          using "1.IH" [OF True Pair [symmetric] bs w] "1.prems" len True by simp
        then show ?thesis using True Pair bs w by (simp add: read_tcp_loop.simps [of buff])
      qed
    qed
  qed
qed

lemma read_tcp_stream_inside: "2 * n \<le> length buff + 1 \<Longrightarrow> read_tcp_stream buff n c \<noteq> Inl f"
  by (simp add: read_tcp_stream_def read_tcp_loop_inside)

text \<open>
  C38. \<open>read_tcp_stream\<close> stays inside its array for every sender if and only if the array is about twice
  as long as the message: with less room there is a segmentation of the stream that makes it write past the
  end. The replies of the client's \<open>status\<close> and \<open>aid_buff\<close> arrays (three bytes into four) and the arguments of
  \<open>handle_bid\<close> (twenty bytes into thirty-two) are below that bound.
\<close>

theorem read_tcp_stream_safe_iff:
  assumes "0 < n" "n \<le> length buff"
  shows "(\<forall>c. read_tcp_stream buff n c \<noteq> Inl OutOfBounds) \<longleftrightarrow> 2 * n \<le> length buff + 1"
proof
  assume "2 * n \<le> length buff + 1"
  then show "\<forall>c. read_tcp_stream buff n c \<noteq> Inl OutOfBounds" by (simp add: read_tcp_stream_inside)
next
  assume safe: "\<forall>c. read_tcp_stream buff n c \<noteq> Inl OutOfBounds"
  show "2 * n \<le> length buff + 1"
  proof (cases "n = 1")
    case True
    then show ?thesis using assms(2) by simp
  next
    case False
    let ?a = "replicate (n - 1) NUL" and ?b = "[NUL]"
    have "?a \<noteq> []" "length ?a + length ?b = n" using False assms(1) by auto
    then show ?thesis
      using safe read_tcp_stream_two_segments [of "idle_conn\<lparr>rx := [?a, ?b]\<rparr>" ?a ?b "[]" n buff] assms
      by (auto split: if_splits)
  qed
qed

theorem read_tcp_stream_safe_iff_witness:
  "(\<exists>c. read_tcp_stream (replicate 4 NUL) 3 c = Inl OutOfBounds) \<and> (\<exists>c. read_tcp_stream (replicate 32 NUL) 20 c = Inl OutOfBounds)
   \<and> (\<forall>c. read_tcp_stream (replicate 8 NUL) 4 c \<noteq> Inl OutOfBounds)"
  using read_tcp_stream_safe_iff [of 3 "replicate 4 NUL"] read_tcp_stream_safe_iff [of 20 "replicate 32 NUL"]
    read_tcp_stream_safe_iff [of 4 "replicate 8 NUL"] by simp

section \<open>Writing\<close>

definition whole :: "cap list \<Rightarrow> bool" where
  "whole caps \<longleftrightarrow> (\<forall>k. Accept k \<notin> set caps)"

lemma whole_transfer:
  assumes "whole caps" "transfer caps data = (r, caps')"
  shows "whole caps'" "r = Inr k \<Longrightarrow> k = length data"
  using assms by (auto simp: whole_def transfer_def split: list.splits cap.splits)

lemma whole_send:
  assumes "whole (tx_caps c)" "send data c = (r, c')"
  shows "whole (tx_caps c')" "r = Inr k \<Longrightarrow> k = length data"
  using assms whole_transfer [OF assms(1)] by (auto simp: send_def split: prod.splits sum.splits)

lemma whole_message:
  assumes "whole (tx_caps c)" "n \<le> length message"
  shows "\<exists>rc c'. send_tcp_message message n c = Inr (rc, c') \<and> whole (tx_caps c')"
proof (cases "send (take n message) c")
  case (Pair r c')
  note w = whole_send [OF assms(1) Pair]
  have fin: "send_tcp_loop message k n n c' = Inr (0, c')" for k by (subst send_tcp_loop.simps) simp
  show ?thesis
    using w assms(2) Pair fin
    by (cases "n = 0"; cases r)
      (auto simp: send_tcp_message_def send_tcp_loop.simps [of message 0 0] send_tcp_loop.simps [of message 0 0 0] assms(1))
qed

lemma recv_tx: "recv n c = (r, c') \<Longrightarrow> tx_caps c' = tx_caps c"
  by (auto simp: recv_def split: list.splits rx_end.splits)

lemma whole_block: "whole (tx_caps c) \<Longrightarrow> send_block data c = (rc, c') \<Longrightarrow> whole (tx_caps c')"
proof (induction data c arbitrary: rc c' rule: send_block.induct)
  case (1 data c)
  show ?case
  proof (cases "data = []")
    case True
    then show ?thesis using "1.prems" by (simp add: send_block.simps [of "[]"])
  next
    case False
    obtain r c1 where s: "send data c = (r, c1)" by fastforce
    show ?thesis using "1.prems" "1.IH" [OF False s [symmetric]] whole_send(1) [OF "1.prems"(1) s] False s
      by (cases r) (simp_all add: send_block.simps [of data c])
  qed
qed

lemma whole_asset:
  "whole (tx_caps c) \<Longrightarrow> \<exists>rc c'. send_asset_loop asset answers sum_read fsize c = Inr (rc, c') \<and> whole (tx_caps c')"
proof (induction asset answers sum_read fsize c rule: send_asset_loop.induct)
  case (1 asset answers sum_read fsize c)
  show ?case
  proof (cases "sum_read < fsize")
    case False
    then show ?thesis using whole_message [OF "1.prems", of 1 "[LF, NUL]"]
      by (auto simp: send_asset_loop.simps [of asset])
  next
    case True
    obtain r caps where t: "transfer answers (take BUFF_SZ asset) = (r, caps)" by fastforce
    show ?thesis
    proof (cases r)
      case (Inl e)
      then show ?thesis using True t "1.prems" by (simp add: send_asset_loop.simps [of asset])
    next
      case (Inr n)
      obtain rc c1 where b: "send_block (take n asset) c = (rc, c1)" by fastforce
      note w = whole_block [OF "1.prems" b]
      show ?thesis
      proof (cases "n \<noteq> 0 \<and> rc = 0")
        case False
        then show ?thesis using True t Inr b w "1.prems" by (auto simp: send_asset_loop.simps [of asset])
      next
        case ok: True
        then show ?thesis using "1.IH" [OF True t [symmetric] Inr _ b [symmetric]] True t Inr b w
          by (simp add: send_asset_loop.simps [of asset])
      qed
    qed
  qed
qed

lemma whole_write_block:
  assumes "whole caps" "n \<le> BUFF_SZ"
  shows "\<exists>rc asset' caps'. write_block m 0 0 n asset caps = Inr (rc, asset', caps') \<and> whole caps'"
proof (cases "transfer caps (mem_slice 0 n m)")
  case (Pair r caps')
  note w = whole_transfer [OF assms(1) Pair]
  have fin: "write_block m k n n asset' caps' = Inr (0, asset', caps')" for k asset' by (subst write_block.simps) simp
  have len: "length (mem_slice 0 n m) = n" by (simp add: mem_slice_def)
  show ?thesis
  proof (cases "n = 0")
    case True
    then show ?thesis using assms(1) by (simp add: write_block.simps [of m 0 0 0])
  next
    case False
    then show ?thesis using w assms(2) Pair fin len by (cases r) (auto simp: write_block.simps [of m 0 0 n])
  qed
qed

lemma whole_recv_asset:
  assumes "whole caps" "whole (tx_caps c)"
  shows "\<exists>rc asset' c'. recv_asset_loop buff sum_read fsize asset caps c = Inr (rc, asset', c') \<and> whole (tx_caps c')"
  using assms
proof (induction buff sum_read fsize asset caps c rule: recv_asset_loop.induct)
  case (1 buff sum_read fsize asset caps c)
  obtain r c1 where r: "recv BUFF_SZ c = (r, c1)" by fastforce
  then have c1: "whole (tx_caps c1)" using recv_tx "1.prems"(2) by metis
  show ?case
  proof (cases "\<exists>bs. r = Inr bs \<and> bs \<noteq> []")
    case False
    then show ?thesis using r c1 by (cases r) (auto simp: recv_asset_loop.simps [of buff])
  next
    case True
    then obtain bs where bs: "r = Inr bs" "bs \<noteq> []" by blast
    then have len: "length bs \<le> BUFF_SZ" using recv_progress r by blast
    define buff' where "buff' = mem_store bs buff"
    define sum_read' where "sum_read' = sum_read + int (length bs)"
    show ?thesis
    proof (cases "sum_read' > fsize")
      case True
      have "length bs - 1 \<le> BUFF_SZ" using len by simp
      from whole_write_block [OF "1.prems"(1) this, of buff' asset] obtain rc asset' caps' where
        "write_block buff' 0 0 (length bs - 1) asset caps = Inr (rc, asset', caps')" by blast
      then have "\<exists>rc asset'. recv_last_block buff' (length bs) sum_read' fsize asset caps = Inr (rc, asset')"
        by (simp add: recv_last_block_def)
      then show ?thesis using True r bs c1
        by (auto simp: recv_asset_loop.simps [of buff] Let_def buff'_def sum_read'_def)
    next
      case False
      obtain rc asset' caps' where w: "write_block buff' 0 0 (length bs) asset caps = Inr (rc, asset', caps')" "whole caps'"
        using whole_write_block [OF "1.prems"(1) len] by blast
      show ?thesis
      proof (cases "rc = 0")
        case True
        then show ?thesis
          using "1.IH" [OF r [symmetric] bs buff'_def sum_read'_def False w(1) refl refl] False r bs c1 w
          by (simp add: recv_asset_loop.simps [of buff] Let_def flip: buff'_def sum_read'_def)
      next
        case no: False
        then show ?thesis using False r bs c1 w
          by (simp add: recv_asset_loop.simps [of buff] Let_def flip: buff'_def sum_read'_def)
      qed
    qed
  qed
qed

section \<open>The handlers\<close>

definition served :: "tcp_result \<Rightarrow> bool" where
  "served r \<longleftrightarrow> (\<exists>rc c d. r = Inr (rc, c, d) \<and> whole (tx_caps c) \<and> 0 \<le> rc \<and> rc \<le> 4)"

lemma served_simps [simp]:
  "served (Inr (rc, c, d)) \<longleftrightarrow> whole (tx_caps c) \<and> 0 \<le> rc \<and> rc \<le> 4"
  by (simp add: served_def)

lemma whole_str: "whole (tx_caps c) \<Longrightarrow> \<exists>rc c'. send_str s c = Inr (rc, c') \<and> whole (tx_caps c')"
  by (simp add: send_str_def whole_message)

lemma whole_reply: "whole (tx_caps c) \<Longrightarrow> \<exists>c'. tcp_reply s c d = Inr (0, c', d) \<and> whole (tx_caps c')"
  using whole_str [of c s] by (auto simp: tcp_reply_def)

lemma served_reply [simp]: "whole (tx_caps c) \<Longrightarrow> served (tcp_reply s c d)"
  using whole_reply [of c s d] by auto

lemma read_loop_tx: "read_tcp_loop buff ptr t n c = Inr (err, buff', c') \<Longrightarrow> tx_caps c' = tx_caps c"
proof (induction buff ptr t n c rule: read_tcp_loop.induct)
  case (1 buff ptr t n c)
  obtain r c1 where r: "recv (n - t) c = (r, c1)" by fastforce
  note c1 = recv_tx [OF r]
  show ?case
  proof (cases "t < n \<and> (\<exists>bs. r = Inr bs \<and> bs \<noteq> [])")
    case False
    then show ?thesis using "1.prems" r c1 by (cases r) (auto simp: read_tcp_loop.simps [of buff] split: if_splits)
  next
    case True
    then obtain bs where bs: "t < n" "r = Inr bs" "bs \<noteq> []" by blast
    then show ?thesis using "1.IH" [OF bs(1) r [symmetric] bs(2,3)] "1.prems" r c1
      by (cases "array_write (ptr + t) bs buff") (auto simp: read_tcp_loop.simps [of buff])
  qed
qed

lemma read_inside:
  assumes "2 * n \<le> length buff + 1"
  obtains err buff' c' where "read_tcp_stream buff n c = Inr (err, buff', c')" "tx_caps c' = tx_caps c"
proof (cases "read_tcp_stream buff n c")
  case (Inl f)
  then show ?thesis using read_tcp_stream_inside [OF assms] by blast
next
  case (Inr x)
  then show ?thesis using that read_loop_tx unfolding read_tcp_stream_def by (metis prod_cases3)
qed

lemma opa_loop_served:
  "opa_args_loop arg args c = (x, c') \<Longrightarrow> tx_caps c' = tx_caps c \<and> (\<exists>y. x = Inr y \<and> (\<forall>rc. y = Inl rc \<longrightarrow> rc = 0 \<or> rc = 1))"
proof (induction arg args c rule: opa_args_loop.induct)
  case (1 arg args c)
  obtain r c1 where r: "recv 1 c = (r, c1)" by fastforce
  note c1 = recv_tx [OF r]
  show ?case
  proof (cases "length args < 5 \<and> (\<exists>bs. r = Inr bs \<and> bs \<noteq> [])")
    case False
    then show ?thesis using "1.prems" r c1
      by (cases r) (auto simp: opa_args_loop.simps [of arg] OPA_BAD_ARGS_def split: if_splits)
  next
    case True
    then obtain bs where bs: "length args < 5" "r = Inr bs" "bs \<noteq> []" by blast
    then obtain len where len: "get_opa_arg_len (int (length args)) = Inr len"
      by (auto simp: get_opa_arg_len_def opa_args_len_def)
    note IH = "1.IH" [OF bs(1) r [symmetric] bs(2,3) len]
    show ?thesis using IH "1.prems" r c1 bs len
      by (auto simp: opa_args_loop.simps [of arg args] OPA_BAD_ARGS_def split: if_splits)
  qed
qed

lemma bid_loop_served:
  "bid_value_loop v c = (x, c') \<Longrightarrow> tx_caps c' = tx_caps c \<and> (\<forall>rc. x = Inl rc \<longrightarrow> rc = 0 \<or> rc = 4)"
proof (induction v c rule: bid_value_loop.induct)
  case (1 v c)
  obtain r c1 where r: "recv 1 c = (r, c1)" by fastforce
  note c1 = recv_tx [OF r]
  show ?case
  proof (cases "length v < MAX_BID_VALUE \<and> (\<exists>bs. r = Inr bs \<and> bs \<noteq> [] \<and> hd bs \<noteq> LF)")
    case False
    then show ?thesis using "1.prems" r c1
      by (cases r) (auto simp: bid_value_loop.simps [of v] BID_BAD_ARGS_def split: if_splits)
  next
    case True
    then obtain bs where bs: "length v < MAX_BID_VALUE" "r = Inr bs" "bs \<noteq> []" "hd bs \<noteq> LF" by blast
    show ?thesis using "1.IH" [OF bs(1) r [symmetric] bs(2-4)] "1.prems" r c1 bs
      by (auto simp: bid_value_loop.simps [of v] BID_BAD_ARGS_def split: if_splits)
  qed
qed

lemma create_served:
  assumes "whole caps" "whole (tx_caps c)"
  shows "\<exists>k c' d'. create_new_auction uid name fname sv ta fsize now m caps c d = Inr (k, c', d') \<and> whole (tx_caps c')"
proof -
  have "whole (asset_caps caps s)" for s using assms(1) by (simp add: asset_caps_def whole_def)
  then have "\<exists>x. as_recv_asset_file m (asset_caps caps s) fsize c = Inr x \<and> whole (tx_caps (snd (snd x)))" for s
    using whole_recv_asset [OF _ assms(2)] by (fastforce simp: as_recv_asset_file_def)
  then obtain g where g: "as_recv_asset_file m (asset_caps caps s) fsize c = Inr (g s)" "whole (tx_caps (snd (snd (g s))))" for s
    by metis
  have w: "g s = (rc, asset, c') \<Longrightarrow> whole (tx_caps c')" for s rc asset c' using g(2) [of s] by simp
  show ?thesis using assms(2)
    by (auto simp: create_new_auction_def Let_def g(1) dest: w split: prod.split sum.split)
qed

lemma served_open:
  assumes "whole caps" "whole (tx_caps c)"
  shows "served (handle_open now m caps c d)"
proof -
  have "2 * (UID_SIZE + 1 + PASSWORD_SIZE + 1) \<le> length (replicate 128 NUL) + 1" by (simp add: constants)
  then obtain err buff c1 where rd: "read_tcp_stream (replicate 128 NUL) (UID_SIZE + 1 + PASSWORD_SIZE + 1) c = Inr (err, buff, c1)"
    "tx_caps c1 = tx_caps c" by (rule read_inside)
  obtain x c2 where l: "opa_args_loop [] [] c1 = (x, c2)" by fastforce
  then obtain y where y: "x = Inr y" "\<And>rc. y = Inl rc \<Longrightarrow> rc = 0 \<or> rc = 1" and c2: "tx_caps c2 = tx_caps c"
    using opa_loop_served [OF l] rd(2) by auto
  have w: "whole (tx_caps c1)" "whole (tx_caps c2)" using assms(2) rd(2) c2 by simp_all
  have "served (bind_ok (create_new_auction uid name fname sv ta fsize now m caps c2 d) (\<lambda>(auction_id, c3, d').
          if auction_id = - 1 then tcp_reply (''ROA NOK'' @ [LF]) c3 d'
          else bind_ok (send_tcp_message (''ROA OK '' @ fmt_0d 3 auction_id @ [LF, NUL]) 11 c3) (\<lambda>(_, c4). Inr (0, c4, d'))))"
    for uid name fname sv ta fsize
  proof -
    obtain k c3 d3 where c: "create_new_auction uid name fname sv ta fsize now m caps c2 d = Inr (k, c3, d3)" "whole (tx_caps c3)"
      using create_served [OF assms(1) w(2)] by blast
    have "3 \<le> length (fmt_0d 3 k)" unfolding fmt_0d_def Let_def by simp linarith
    then obtain rc c4 where "send_tcp_message (''ROA OK '' @ fmt_0d 3 k @ [LF, NUL]) 11 c3 = Inr (rc, c4)" "whole (tx_caps c4)"
      using whole_message [OF c(2), of 11 "''ROA OK '' @ fmt_0d 3 k @ [LF, NUL]"] by auto
    then show ?thesis using c by simp
  qed
  moreover have "0 \<le> rc \<and> rc \<le> 4" if "y = Inl rc" for rc using y(2) [OF that] by auto
  ultimately show ?thesis using w y(1)
    unfolding handle_open_def rd(1) bind_ok_simps prod.case l
    by (simp add: OPA_BAD_ARGS_def Let_def split: option.split sum.split prod.split)
qed

lemma record_read:
  assumes "sound d" "is_valid_aid aid" "exists_auction aid d"
  obtains own name fname sv ta t where "start_ok own name fname sv ta t"
    "get_auction_info aid 256 d = Some (start_info own name fname sv ta t)"
proof -
  obtain own name fname sv ta t where st: "start_of (fs d) aid own name fname sv ta t"
    using auction_viewE [OF assms] by metis
  have "healthy (fs d)" using assms(1) db_invD(2) by (simp add: sound_def)
  then have "get_auction_info aid 256 d = Some (start_info own name fname sv ta t)"
    using start_line [OF st, of 256] by (simp add: get_auction_info_def)
  moreover have "start_ok own name fname sv ta t" using st by (simp add: start_of_def)
  ultimately show ?thesis using that by blast
qed

lemma served_close:
  assumes "sound d" "whole (tx_caps c)"
  shows "served (handle_close now c d)"
proof -
  have "2 * (UID_SIZE + 1 + PASSWORD_SIZE + 1 + AID_SIZE + 1) \<le> length (replicate 128 NUL) + 1" by (simp add: constants)
  then obtain err buff c1 where rd:
    "read_tcp_stream (replicate 128 NUL) (UID_SIZE + 1 + PASSWORD_SIZE + 1 + AID_SIZE + 1) c = Inr (err, buff, c1)"
    "tx_caps c1 = tx_caps c" by (rule read_inside)
  then have w: "whole (tx_caps c1)" using assms(2) by simp
  have "served (close_checked now uid passwd aid c1 d)" if a: "is_valid_aid aid" for uid passwd aid
  proof -
    obtain d1 where u: "update_database now d = Inr (0, d1)" using sound_update [OF assms(1)] by blast
    show ?thesis
    proof (cases "exists_auction aid d1")
      case True
      obtain own name fname sv ta t where st: "start_ok own name fname sv ta t"
        "get_auction_info aid 256 d1 = Some (start_info own name fname sv ta t)"
        using record_read [OF update_view(1) [OF assms(1) u] a True] by blast
      have "fst (strtok [SP] (start_info own name fname sv ta t)) = Some own"
        by (simp only: start_info_tokens(1) [OF st(1)] fst_conv)
      then show ?thesis using w
        by (simp add: close_checked_def u st(2) split: prod.split)
    qed (use w u in \<open>auto simp: close_checked_def\<close>)
  qed
  then show ?thesis using w
    unfolding handle_close_def rd(1) bind_ok_simps prod.case
    by (auto simp: CLS_BAD_ARGS_def Let_def split: option.split prod.split)
qed

lemma served_place_bid:
  assumes "sound d" "whole (tx_caps c)" "is_valid_uid uid" "is_valid_aid aid"
  shows "served (place_bid now uid passwd aid v c d)"
proof -
  obtain d1 where u: "update_database now d = Inr (0, d1)" using sound_update [OF assms(1)] by blast
  show ?thesis
    using bid_checks_refine(1) [OF update_view(1) [OF assms(1) u] assms(3,4), of passwd v] assms(2)
    by (auto simp: place_bid_def u BID_BAD_ARGS_def split: prod.split)
qed

lemma served_bid:
  assumes "sound d" "whole (tx_caps c)"
  shows "(\<exists>f. handle_bid now c d = Inl f \<and> read_tcp_stream (replicate 32 NUL) 20 c = Inl f) \<or> served (handle_bid now c d)
    \<and> (\<exists>x. read_tcp_stream (replicate 32 NUL) 20 c = Inr x)"
proof (cases "read_tcp_stream (replicate 32 NUL) 20 c")
  case (Inl f)
  then show ?thesis by (simp add: handle_bid_def constants)
next
  case (Inr x)
  obtain err buff c1 where x: "x = (err, buff, c1)" by (cases x)
  then have c1: "whole (tx_caps c1)" using read_loop_tx Inr assms(2) unfolding read_tcp_stream_def by metis
  obtain y c2 where l: "bid_value_loop [] c1 = (y, c2)" by fastforce
  then have c2: "whole (tx_caps c2)" "\<And>rc. y = Inl rc \<Longrightarrow> rc = 0 \<or> rc = 4" using bid_loop_served c1 by metis+
  have "served (handle_bid now c d)"
    using c1 c2 served_place_bid [OF assms(1) c2(1)]
    by (auto simp: handle_bid_def constants Inr [unfolded x] l BID_BAD_ARGS_def Let_def split: option.split sum.split prod.split)
  then show ?thesis using Inr by blast
qed

text \<open>No file is longer than a file system allows: its size has at most eighteen digits.\<close>

definition files_fit :: "db \<Rightarrow> bool" where
  "files_fit d \<longleftrightarrow> (\<forall>p content. fs_get (fs d) p = Some (File content) \<longrightarrow> length content < 10 ^ 18)"

lemma served_send_asset:
  assumes "files_fit d" "whole (tx_caps c)" "length aid = 3" "length fname \<le> 24"
  shows "served (send_asset answers [''AUCTIONS'', aid, ''ASSET'', fname] aid fname c d)"
proof -
  let ?p = "[''AUCTIONS'', aid, ''ASSET'', fname]"
  have short: "length (''AUCTIONS/'' @ aid @ ''/ASSET/'' @ fname) < 128" using assms(3,4) by simp
  show ?thesis
  proof (cases "fs_get (fs d) ?p")
    case None
    then show ?thesis using short assms(2) by (simp add: send_asset_def)
  next
    case (Some n)
    obtain content caps where node: "asset_node answers n = (content, caps)" by fastforce
    let ?info = "''RSA OK '' @ fname @ '' '' @ fmt_d (stat_size n) @ '' ''"
    have "0 \<le> stat_size n" "stat_size n < 10 ^ 18"
      using assms(1) Some by (cases n; force simp: stat_size_def files_fit_def)+
    then have "length (fmt_d (stat_size n)) \<le> 18" by (intro fmt_d_length_le) auto
    then have il: "length ?info < 128" using assms(4) by simp
    obtain rc c1 where s: "send_str ?info c = Inr (rc, c1)" "whole (tx_caps c1)" using whole_str [OF assms(2)] by blast
    obtain rc2 c2 where "as_send_asset_file content caps (stat_size n) c1 = Inr (rc2, c2)" "whole (tx_caps c2)"
      using whole_asset [OF s(2)] unfolding as_send_asset_file_def by blast
    then have "served (bind_ok (send_str ?info c) (\<lambda>(rc, c2). if rc \<noteq> 0 then Inr (0, c2, d)
        else bind_ok (as_send_asset_file content caps (stat_size n) c2) (\<lambda>(_, c3). Inr (0, c3, d))))"
      using s by simp
    then show ?thesis using short il Some node assms(2) by (simp add: send_asset_def Let_def)
  qed
qed

lemma served_show_asset:
  assumes "sound d" "files_fit d" "whole (tx_caps c)"
  shows "served (handle_show_asset answers c d)"
proof -
  have "2 * (AID_SIZE + 1) \<le> length (replicate 8 NUL) + 1" by (simp add: constants)
  then obtain err buff c1 where rd: "read_tcp_stream (replicate 8 NUL) (AID_SIZE + 1) c = Inr (err, buff, c1)"
    "tx_caps c1 = tx_caps c" by (rule read_inside)
  then have w: "whole (tx_caps c1)" using assms(3) by simp
  have "served (case get_auction_info aid 256 d of
       None \<Rightarrow> tcp_reply (''RSA NOK'' @ [LF]) c1 d
     | Some auction_info \<Rightarrow>
     (case fst (strtok [SP] (strtok_n 2 [SP] auction_info)) of
        None \<Rightarrow> tcp_reply (''RSA NOK'' @ [LF]) c1 d
      | Some asset_fname \<Rightarrow> send_asset answers [''AUCTIONS'', aid, ''ASSET'', asset_fname] aid asset_fname c1 d))"
    if a: "is_valid_aid aid" "exists_auction aid d" for aid
  proof -
    obtain own name fname sv ta t where st: "start_ok own name fname sv ta t"
      "get_auction_info aid 256 d = Some (start_info own name fname sv ta t)" using record_read [OF assms(1) a] by blast
    have "length fname \<le> 24" "length aid = 3" using st(1) a(1) by (auto simp: start_ok_def is_valid_fname_iff is_valid_aid_iff)
    then show ?thesis using served_send_asset [OF assms(2) w]
      by (simp only: st(2) option.case start_info_tokens [OF st(1)] fst_conv)
  qed
  then show ?thesis using w
    unfolding handle_show_asset_def rd(1) bind_ok_simps prod.case
    by (simp add: SAS_BAD_ARGS_def Let_def split: option.split prod.split)
qed

section \<open>A connection\<close>

lemma served_handler:
  assumes "sound d" "files_fit d" "whole (tx_caps c)" "whole (wcaps e)" "h \<noteq> H_bid"
  shows "served (run_tcp_handler h e c d)"
  using assms by (cases h) (simp_all add: run_tcp_handler_def served_open served_close served_show_asset)

lemma served_command:
  assumes "served (run_tcp_handler h e c d)" "get_tcp_handler_fn cmd = Some h"
  shows "served (handle_tcp_command e cmd c d)"
proof -
  obtain rc c1 d1 where r: "run_tcp_handler h e c d = Inr (rc, c1, d1)" "whole (tx_caps c1)" "0 \<le> rc" "rc \<le> 4"
    using assms(1) by (auto simp: served_def)
  then have "get_tcp_error_msg rc \<noteq> None" by (simp add: get_tcp_error_msg_def tcp_errors_table_def)
  then show ?thesis using r assms(2) by (auto simp: handle_tcp_command_def)
qed

lemma served_connection:
  assumes "sound d" "files_fit d" "whole (tx_caps c)" "whole (wcaps e)"
  shows "(\<exists>x. serve_tcp_connection e c d = Inr x) \<longleftrightarrow>
     \<not> (\<exists>buf c1 f. read_tcp_stream (replicate 8 NUL) 4 c = Inr (0, buf, c1) \<and> cstr buf = ''BID ''
         \<and> read_tcp_stream (replicate 32 NUL) 20 c1 = Inl f)"
proof -
  obtain err buf c1 where rd: "read_tcp_stream (replicate 8 NUL) 4 c = Inr (err, buf, c1)" "tx_caps c1 = tx_caps c"
    by (rule read_inside [of 4 "replicate 8 NUL" c]) auto
  then have w: "whole (tx_caps c1)" using assms(3) by simp
  obtain c2 where err: "tcp_reply (''ERR'' @ [LF]) c1 d = Inr (0, c2, d)" using whole_reply [OF w] by blast
  have go: "\<exists>x. serve_tcp_connection e c d = Inr x" if "served (handle_tcp_command e (cstr buf) c1 d)"
    using that whole_reply [of _ "''ERR'' @ [LF]"] w by (fastforce simp: serve_tcp_connection_def rd(1) served_def)
  show ?thesis
  proof (cases "err = 0 \<and> cstr buf = ''BID ''")
    case False
    have "\<exists>x. serve_tcp_connection e c d = Inr x"
    proof (cases "get_tcp_handler_fn (cstr buf)")
      case None
      then show ?thesis using err by (auto simp: serve_tcp_connection_def rd(1) handle_tcp_command_def)
    next
      case (Some h)
      show ?thesis
      proof (cases "err = 0")
        case True
        then have "h \<noteq> H_bid" using False Some by (auto simp: get_tcp_handler_fn_def tcp_command_table_def split: if_splits)
        then show ?thesis using go served_command [OF served_handler [OF assms(1,2) w assms(4)] Some] by blast
      next
        case e: False
        then show ?thesis using err by (simp add: serve_tcp_connection_def rd(1))
      qed
    qed
    then show ?thesis using False rd(1) by auto
  next
    case True
    then have h: "get_tcp_handler_fn (cstr buf) = Some H_bid" by (simp add: get_tcp_handler_fn_def tcp_command_table_def)
    have run: "run_tcp_handler H_bid e c1 d = handle_bid (clock e) c1 d" by (simp add: run_tcp_handler_def)
    from served_bid [OF assms(1) w, of "clock e"] show ?thesis
    proof
      assume "\<exists>f. handle_bid (clock e) c1 d = Inl f \<and> read_tcp_stream (replicate 32 NUL) 20 c1 = Inl f"
      then obtain f where f: "handle_bid (clock e) c1 d = Inl f" "read_tcp_stream (replicate 32 NUL) 20 c1 = Inl f" by blast
      have "serve_tcp_connection e c d = Inl f"
        using True by (simp add: serve_tcp_connection_def rd(1) handle_tcp_command_def h run f(1) flip: True)
      then show ?thesis using True rd(1) f(2) by auto
    next
      assume s: "served (handle_bid (clock e) c1 d) \<and> (\<exists>x. read_tcp_stream (replicate 32 NUL) 20 c1 = Inr x)"
      then have "served (handle_tcp_command e (cstr buf) c1 d)" using served_command [OF _ h, of e c1 d] run by simp
      then show ?thesis using go s True rd(1) by auto
    qed
  qed
qed

text \<open>
  C10. On a sound database, whose disk works and whose records can be read back, with files that fit
  (\<open>files_fit\<close>), and as long as neither \<open>send\<close> nor \<open>write\<close> is short (\<open>whole\<close>: each moves everything or fails), a
  connection is served to its end, whatever bytes arrive in whatever segments and however the client stops or
  refuses to read, if and only if it is not a \<open>BID\<close> whose arguments arrive in segments that \<open>read_tcp_stream\<close>
  writes past the array of \<open>handle_bid\<close>. Each hypothesis counts. On a database that is not sound, for
  example after an accepted \<open>OPA\<close> with a line feed in the file name, a record is cut after its first line and a
  later \<open>BID\<close> hands a null pointer to \<open>is_valid_start_value\<close>.
\<close>

theorem tcp_connection_safe:
  assumes "sound d" "files_fit d" "whole (tx_caps c)" "whole (wcaps e)"
  shows "(\<exists>rc c' d'. serve_tcp_connection e c d = Inr (rc, c', d')) \<longleftrightarrow>
     \<not> (\<exists>buf c1 f. read_tcp_stream (replicate 8 NUL) 4 c = Inr (0, buf, c1) \<and> cstr buf = ''BID ''
         \<and> read_tcp_stream (replicate 32 NUL) 20 c1 = Inl f)"
  using served_connection [OF assms] by (metis prod_cases3)

lemma files_fit_empty: "files_fit empty_db"
  by (simp add: files_fit_def empty_db_def fs_get_def)

theorem tcp_connection_safe_witness:
  "(\<exists>rc c' d'. serve_tcp_connection example_env (idle_conn\<lparr>rx := [''OPA 123456 '', ''password'', ''lamp 10''], tx_caps := [Refuse EPIPE]\<rparr>) empty_db
       = Inr (rc, c', d'))
   \<and> \<not> (\<exists>rc c' d'. serve_tcp_connection example_env (idle_conn\<lparr>rx := [''BID '', ''654321 PASSWORD'', '' 001 '', ''25'' @ [LF]]\<rparr>) empty_db
       = Inr (rc, c', d'))"
proof
  let ?c = "idle_conn\<lparr>rx := [''OPA 123456 '', ''password'', ''lamp 10''], tx_caps := [Refuse EPIPE]\<rparr>"
  have w: "whole (tx_caps ?c)" "whole (wcaps example_env)" by (simp_all add: whole_def example_env_def)
  have "read_tcp_stream (replicate 8 NUL) 4 ?c = Inr (0, ''OPA '' @ replicate 4 NUL, ?c\<lparr>rx := [''123456 '', ''password'', ''lamp 10'']\<rparr>)"
    using read_tcp_stream_delivered [of ?c "''OPA 123456 ''" "[''password'', ''lamp 10'']" 4 "replicate 8 NUL"]
    by (simp add: rx_drop_def numeral_eq_Suc)
  then show "\<exists>rc c' d'. serve_tcp_connection example_env ?c empty_db = Inr (rc, c', d')"
    using tcp_connection_safe [OF empty_db_sound files_fit_empty w] by (auto simp: cstr_def)
next
  let ?c = "idle_conn\<lparr>rx := [''BID '', ''654321 PASSWORD'', '' 001 '', ''25'' @ [LF]]\<rparr>"
  let ?c1 = "?c\<lparr>rx := [''654321 PASSWORD'', '' 001 '', ''25'' @ [LF]]\<rparr>"
  have w: "whole (tx_caps ?c)" "whole (wcaps example_env)" by (simp_all add: whole_def example_env_def idle_conn_def)
  have "read_tcp_stream (replicate 8 NUL) 4 ?c = Inr (0, ''BID '' @ replicate 4 NUL, ?c1)"
    using read_tcp_stream_delivered [of ?c "''BID ''" "[''654321 PASSWORD'', '' 001 '', ''25'' @ [LF]]" 4 "replicate 8 NUL"]
    by (simp add: rx_drop_def)
  moreover have "read_tcp_stream (replicate 32 NUL) 20 ?c1 = Inl OutOfBounds"
    using read_tcp_stream_two_segments [of ?c1 "''654321 PASSWORD''" "'' 001 ''" "[''25'' @ [LF]]" 20 "replicate 32 NUL"] by simp
  ultimately show "\<not> (\<exists>rc c' d'. serve_tcp_connection example_env ?c empty_db = Inr (rc, c', d'))"
    using tcp_connection_safe [OF empty_db_sound files_fit_empty w] by (auto simp: cstr_def)
qed

end
