(* ===== verification/NamelessAuction.thy ===== *)
theory NamelessAuction
  imports UdpSafety TcpExchanges
begin

text \<open>
  A request the server accepts and never recovers from: \<open>OPA\<close> with a name of no characters, which passes
  \<open>is_valid_name\<close>. In the record the two blanks then count as one separator, so every later field is read
  one place too early, and the date is taken for the duration.
\<close>

section \<open>The record\<close>

lemma strtok_blank: "strtok [SP] (SP # s) = strtok [SP] s"
  by (simp add: strtok_def)

lemma date_not_time_active: "\<not> is_valid_time_active (date_word (gmtime t))" if "tm_ok (gmtime t)"
  using date_word_clean [OF that] by (simp add: is_valid_time_active_iff)

lemma nameless_words:
  assumes ok: "start_ok uid name fname sv ta t"
  defines "l \<equiv> start_info uid [] fname sv ta t"
  shows "strtok [SP] l = (Some uid, strtok_n 1 [SP] l)"
    and "strtok [SP] (strtok_n 1 [SP] l) = (Some fname, strtok_n 2 [SP] l)"
    and "strtok [SP] (strtok_n 2 [SP] l) = (Some (fmt_d sv), strtok_n 3 [SP] l)"
    and "strtok [SP] (strtok_n 3 [SP] l) = (Some (fmt_d ta), strtok_n 4 [SP] l)"
    and "strtok [SP] (strtok_n 4 [SP] l) = (Some (date_word (gmtime t)), strtok_n 5 [SP] l)"
  using start_okD [OF ok] unfolding l_def start_info_words
  by (simp_all add: strtok_word strtok_blank numeral_eq_Suc)

lemma nameless_head:
  assumes ok: "start_ok uid name fname sv ta t"
  shows "record_head (start_info uid [] fname sv ta t) = Inr None"
  by (simp only: record_head_def nameless_words [OF ok] date_not_time_active [OF start_okD(9) [OF ok]]
    prod.case option.case not_False_eq_True if_True if_cancel)

lemma nameless_line:
  assumes ok: "start_ok uid name fname sv ta t" and rec: "fs_get s p = Some (File (start_info uid [] fname sv ta t))"
    and k: "128 \<le> k"
  shows "sys_fgets k p s = Some (start_info uid [] fname sv ta t)"
proof -
  note w = start_okD [OF ok] and line = start_info_line [OF ok]
  let ?l = "start_info uid [] fname sv ta t"
  have len: "length ?l \<le> 88" using line(2) by (simp add: start_info_words)
  have nul: "NUL \<notin> set ?l" using w by (simp add: start_info_words clean_word_def)
  have l: "?l = butlast ?l @ [LF]" by (simp add: start_info_words butlast_append)
  have "LF \<notin> set (butlast ?l)" using w by (simp add: start_info_words butlast_append clean_word_def)
  moreover have "length (butlast ?l) + 1 < k" using len k by simp
  ultimately have "first_line k (butlast ?l @ [LF]) = butlast ?l @ [LF]" by (rule first_line_lf)
  then have "first_line k ?l = ?l" using l by simp
  then show ?thesis using rec nul by (simp add: sys_fgets_def cstr_no_nul, simp add: start_info_def)
qed

lemma nameless_never_ends:
  assumes a: "is_valid_aid a" and ok: "start_ok uid name fname sv ta t"
    and rec: "fs_get s (start_path a) = Some (File (start_info uid [] fname sv ta t))"
  shows "update_auction now a s = Inr s"
proof -
  note p = valid_aid_paths [OF a]
  show ?thesis
    by (simp only: update_auction_def p nameless_line [OF ok rec [unfolded p] order_refl] nameless_words [OF ok] fst_conv
      date_not_time_active [OF start_okD(9) [OF ok]] Let_def prod.case option.case not_False_eq_True if_True if_cancel)
      (simp split: option.split)
qed

lemma nameless_start_time:
  assumes ok: "start_ok uid name fname sv ta t"
  shows "start_time_field (start_info uid [] fname sv ta t) = None"
proof -
  note w = start_okD [OF ok]
  have lst: "strtok [SP] (fmt_d t @ [LF]) = (Some (fmt_d t @ [LF]), [])"
    using w(8) by (intro strtok_all) (auto simp: clean_word_def)
  have "strtok_n 7 [SP] (start_info uid [] fname sv ta t) = []"
    using w unfolding start_info_words by (simp add: strtok_word strtok_blank lst numeral_eq_Suc)
  then show ?thesis by (simp add: start_time_field_def strtok_def)
qed

lemma update_auctions_none:
  "(\<And>x. x \<in> set names \<Longrightarrow> update_auction now x s = Inr s) \<Longrightarrow> update_auctions now names s = Inr s"
  by (induction names) simp_all

section \<open>The first auction of a server\<close>

lemma nameless_created:
  assumes d: "sound d" and n: "auc_count d = 0" and uid: "is_valid_uid uid" and reg: "user_view d uid = Some r"
    and fname: "is_valid_fname fname" and now: "0 < now"
    and recv: "as_recv_asset_file m caps fsize c = Inr (0, asset, c')"
  shows "\<exists>d'. create_new_auction uid [] fname sv ta fsize now m caps c d = Inr (1, c', d')
     \<and> healthy (fs d') \<and> users_inv d' \<and> user_view d' = user_view d \<and> auc_count d' = 1
     \<and> fs_get (fs d') [''AUCTIONS''] = Some Dir \<and> (\<forall>x. fs_get (fs d') [''AUCTIONS'', x] \<noteq> None \<longrightarrow> x = ''001'')
     \<and> fs_get (fs d') (start_path ''001'') = Some (File (start_info uid [] fname sv ta now))
     \<and> fs_get (fs d') (end_path ''001'') = None"
proof -
  let ?s = "being_created ''001'' (start_info uid [] fname sv ta now) fname asset (fs d)"
  have inv: "db_inv d" using d by (simp add: sound_def)
  have n': "auc_count d < 999" and a: "next_aid d = ''001''"
    using next_aid_two_users n two_users(2) by (simp_all add: next_aid_def)
  note I = db_invD [OF inv] and new = next_aid(4) [OF inv n', unfolded a]
  have h: "healthy ?s" "fs_wf ?s" using being_created_ok [OF inv n'] a by simp_all
  note g = being_created_get [OF example_fields(5)]
  have hp: "[''USERS'', fmt_ws 6 uid, ''HOSTED'', ''001'' @ ''.txt''] = hosted_path uid ''001''"
    using valid_uid_paths(2) [OF uid] by (simp add: hosted_path_def)
  note q = hosted_path_def asset_path_def valid_aid_paths [OF example_fields(5)]
  obtain pw l where v: "user_view d uid = Some (pw, l)" using reg by (cases r) auto
  have "fs_get ?s [''USERS'', uid, ''HOSTED''] = Some Dir" "fs_get ?s (hosted_path uid ''001'') \<noteq> Some Dir"
    using user_view_SomeD(6) [OF I(1) uid v] I(5) by (simp_all add: g q)
  then obtain s where s: "sys_creat (hosted_path uid ''001'') ?s = Inr s" "healthy s" "fs_wf s"
    "\<And>p. fs_get s p = (if p = hosted_path uid ''001'' \<and> fs_get ?s (hosted_path uid ''001'') = None
        then Some (File []) else fs_get ?s p)"
    using sys_creat_spec [OF h, of "hosted_path uid ''001''"] by (auto simp: q)
  have other: "fs_get s p = fs_get (fs d) p" if "take 2 p \<noteq> [''AUCTIONS'', ''001'']" "p \<noteq> hosted_path uid ''001''" for p
    using that by (auto simp: s(4) g valid_aid_paths [OF example_fields(5)] asset_path_def)
  let ?d = "d\<lparr>fs := s, auc_count := 1\<rparr>"
  have r: "create_new_auction uid [] fname sv ta fsize now m caps c d = Inr (1, c', ?d)"
    using create_new_auction_steps [OF inv n' fname, where now = now] now s(1) recv
    by (simp add: a hp [simplified] Let_def n)
  have "users_inv (d\<lparr>fs := s\<rparr>) \<and> user_view (d\<lparr>fs := s\<rparr>) = user_view d"
    using I(1) s(2,3) by (intro users_inv_short other) (auto simp: hosted_path_def dest: take_2_hd)
  moreover have "\<not> exists_auction x d" for x by (simp add: exists_auction_def n Let_def)
  then have no: "fs_get (fs d) [''AUCTIONS'', x] = None" for x using I(8) [of x] I(9) [of x] by blast
  have "x = ''001''" if "fs_get s [''AUCTIONS'', x] \<noteq> None" for x
    using that no [of x] by (auto simp: s(4) g q split: if_splits)
  moreover have "fs_get s [''AUCTIONS''] = Some Dir"
    "fs_get s (start_path ''001'') = Some (File (start_info uid [] fname sv ta now))"
    "fs_get s (end_path ''001'') = None"
    using I(4) new [of "[''END_001.txt'']"] by (simp_all add: s(4) g q)
  ultimately show ?thesis using r s(2) by (intro exI [of _ ?d]) simp
qed

text \<open>What a database whose only auction has no name does from then on.\<close>

lemma nameless_update:
  assumes h: "healthy (fs d)" and dir: "fs_get (fs d) [''AUCTIONS''] = Some Dir"
    and only: "\<And>x. fs_get (fs d) [''AUCTIONS'', x] \<noteq> None \<Longrightarrow> x = ''001''" and ok: "start_ok uid name fname sv ta t"
    and rec: "fs_get (fs d) (start_path ''001'') = Some (File (start_info uid [] fname sv ta t))"
  shows "update_database now d = Inr (0, d)"
proof -
  have skip: "update_auction now x (fs d) = Inr (fs d)" if "x \<in> set ([''.'', ''..''] @ fs_names [''AUCTIONS''] (fs d))" for x
  proof (cases "hidden x")
    case False
    then have "x = ''001''" using that only [of x] by (auto simp: hidden_def set_fs_names)
    then show ?thesis using nameless_never_ends [OF example_fields(5) ok rec] by simp
  qed (simp add: update_auction_def)
  have "update_auctions now ([''.'', ''..''] @ fs_names [''AUCTIONS''] (fs d)) (fs d) = Inr (fs d)"
    by (rule update_auctions_none) (rule skip)
  then show ?thesis
    by (simp only: update_database_def sys_readdir_healthy [OF h dir] option.case bind_ok_simps) simp
qed

lemma first_exists: "auc_count d = 1 \<Longrightarrow> exists_auction ''001'' d"
  by (simp add: exists_auction_def atoi_def strtol10_def isspace_def isdigit_def digit_val_def c_int_id)

lemma nameless_close:
  assumes u: "users_inv d" "user_view d uid = Some (pw, True)" and uid: "is_valid_uid uid" and h: "healthy (fs d)"
    and n: "auc_count d = 1" and ok: "start_ok uid name fname sv ta t"
    and rec: "fs_get (fs d) (start_path ''001'') = Some (File (start_info uid [] fname sv ta t))"
    and fin: "fs_get (fs d) (end_path ''001'') = None" and upd: "update_database now d = Inr (0, d)"
  shows "close_checked now uid pw ''001'' c d = tcp_reply (''RCL NOK'' @ [LF]) c d"
proof -
  have gate: "exists_user uid d" "is_user_logged_in uid d" "is_authentic_user uid pw d \<noteq> 0"
    using us.exists_view [OF u(1) uid] us.logged_view [OF u(1) uid] us.authentic_view [OF u(1) uid, of pw] u(2)
    by (auto simp: ex_bool_eq)
  have rd: "sys_can_read (start_path ''001'') (fs d)" using rec h by (simp add: sys_can_read_healthy)
  note line = nameless_line [OF ok rec]
  have info: "get_auction_info ''001'' 256 d = Some (start_info uid [] fname sv ta t)"
    using line [of 256] rd by (simp add: get_auction_info_def)
  have open_: "\<not> is_auction_finished ''001'' d" using fin h by (simp add: is_auction_finished_def sys_can_read_healthy)
  have close: "close_auction now ''001'' d = (- 1, d)"
    by (simp only: close_auction_def rd line [OF order_refl] nameless_start_time [OF ok] option.case simp_thms if_False
      not_True_eq_False)
  show ?thesis
    by (simp only: close_checked_def upd bind_ok_simps prod.case gate first_exists [OF n] info option.case
      nameless_words [OF ok] fst_conv open_ close simp_thms if_False if_True not_True_eq_False not_False_eq_True) simp
qed

lemma nameless_record_crash:
  assumes h: "healthy (fs d)" and n: "auc_count d = 1" and ok: "start_ok uid name fname sv ta t"
    and rec: "fs_get (fs d) (start_path ''001'') = Some (File (start_info uid [] fname sv ta t))"
    and upd: "update_database now d = Inr (0, d)"
  shows "udp_round now (''SRC 001'' @ [LF]) d = Inl NullDeref"
proof -
  note req = aid_request [OF example_fields(5)]
  have info: "get_auction_info ''001'' 128 d = Some (start_info uid [] fname sv ta t)"
    using nameless_line [OF ok rec order_refl] h rec by (simp add: get_auction_info_def sys_can_read_healthy)
  have "handle_show_record now (''001'' @ [LF]) d = udp_fail ERR_SRC d"
    unfolding handle_show_record_def req
    by (simp only: prod.case option.case example_fields(5) first_exists [OF n] upd bind_ok_simps info nameless_head [OF ok]
      simp_thms if_False not_True_eq_False)
  then show ?thesis
    using udp_round_error [of "''001''" "''SRC ''" H_show_record now d ERR_SRC d] req
    by (simp add: udp_command_table_def run_udp_handler_def ERR_SRC_def get_udp_error_msg_def udp_errors_table_def)
qed

section \<open>From the request to the crash\<close>

text \<open>
  C35. An auction without a name is accepted and fatal. When the first auction of a server is opened with an
  empty name by a user who is logged in, and the request is well-formed otherwise, the reply is \<open>ROA OK 001\<close>. From then
  on the auction cannot end: at no time does expiry change the database, and the \<open>CLS\<close> of its owner, which is well-formed,
  is answered \<open>NOK\<close> and changes nothing. And at any time a well-formed \<open>SRC\<close> for it crashes the server.
\<close>

theorem nameless_auction_fatal:
  fixes e :: env
  assumes d: "sound d" "auc_count d = 0" and ids: "is_valid_uid uid" "is_valid_passwd pw"
    and usr: "user_view d uid = Some (pw, True)" and fname: "is_valid_fname fname" "clean_word fname"
    and nums: "0 \<le> sv" "sv < 999999" "0 \<le> ta" "ta \<le> 99999" "0 < clock e" "clock e < 2 ^ 36"
    and asset: "asset \<noteq> []" "length asset \<le> 10000000"
    and c: "rx c = (open_request uid pw [] sv ta fname (length asset) @ x) # segs" "x \<noteq> []"
      "x @ concat segs = asset @ [LF]" "tx_caps c = []" and disk: "wcaps e = []"
  shows "\<exists>c' d'. serve_tcp_connection e c d = Inr (0, c', d') \<and> tx c' = tx c @ ''ROA OK 001'' @ [LF]
     \<and> fs_get (fs d') (end_path ''001'') = None
     \<and> (\<forall>now. update_database now d' = Inr (0, d') \<and> udp_round now (''SRC 001'' @ [LF]) d' = Inl NullDeref)
     \<and> (\<forall>e2 c2. rx c2 = [close_request uid pw ''001''] \<and> tx_caps c2 = [] \<longrightarrow>
          (\<exists>c3. serve_tcp_connection e2 c2 d' = Inr (0, c3, d') \<and> tx c3 = tx c2 @ ''RCL NOK'' @ [LF]))"
proof -
  have ok: "start_ok uid ''lamp'' fname sv ta (clock e)" and fields: "opa_fields [] fname sv ta"
    using ids(1) fname nums example_fields(6) by (auto simp: start_ok_def opa_fields_def clean_word_def is_valid_name_iff)
  let ?c1 = "c\<lparr>rx := ((uid @ '' '' @ pw @ '' '') @ [] @ SP # fmt_d sv @ SP # fmt_d ta @ SP # fname
      @ SP # fmt_d (int (length asset)) @ SP # x) # segs\<rparr>"
  let ?c3 = "c\<lparr>rx := x # segs\<rparr>"
  have "concat (rx ?c3) = asset @ [LF]" using c(3) by simp
  then obtain r where recv: "as_recv_asset_file (garbage e) (wcaps e) (int (length asset)) ?c3 = Inr (0, asset, ?c3\<lparr>rx := r\<rparr>)"
    using recv_asset_ok [of ?c3 asset 0 "int (length asset)" "garbage e" "[]"] disk by (auto simp: as_recv_asset_file_def)
  obtain d' where d': "create_new_auction uid [] fname sv ta (int (length asset)) (clock e) (garbage e) (wcaps e) ?c3 d
      = Inr (1, ?c3\<lparr>rx := r\<rparr>, d')" "healthy (fs d')" "users_inv d'" "user_view d' = user_view d" "auc_count d' = 1"
    "fs_get (fs d') [''AUCTIONS''] = Some Dir" "\<And>x. fs_get (fs d') [''AUCTIONS'', x] \<noteq> None \<Longrightarrow> x = ''001''"
    "fs_get (fs d') (start_path ''001'') = Some (File (start_info uid [] fname sv ta (clock e)))"
    "fs_get (fs d') (end_path ''001'') = None"
    using nameless_created [OF d ids(1) usr fname(1) nums(5) recv] by blast
  note inv = sound_users_inv [OF d(1)]
  have gate: "exists_user uid d" "is_user_logged_in uid d" "is_authentic_user uid pw d \<noteq> 0"
    using us.exists_view [OF inv ids(1)] us.logged_view [OF inv ids(1)] us.authentic_view [OF inv ids(1), of pw] usr
    by (auto simp: ex_bool_eq)
  let ?last = "?c3\<lparr>rx := r\<rparr>\<lparr>tx := tx c @ ''ROA OK 001'' @ [LF]\<rparr>"
  have "fmt_0d 3 1 = ''001''" by code_simp
  then have sent: "send_tcp_message (''ROA OK '' @ fmt_0d 3 1 @ [LF, NUL]) 11 (?c3\<lparr>rx := r\<rparr>) = Inr (0, ?last)"
    using send_tcp_message_all [of "?c3\<lparr>rx := r\<rparr>" 11 "''ROA OK '' @ fmt_0d 3 1 @ [LF, NUL]"] c(4) by simp
  have "handle_open (clock e) (garbage e) (wcaps e) ?c1 d = Inr (0, ?last, d')"
    using handle_open_request [OF ids fields asset(2), of ?c1 x segs] c(2) nums(2) asset(1) gate d'(1) sent by simp
  then have served: "serve_tcp_connection e c d = Inr (0, ?last, d')" using open_served [OF c(1)] by simp
  note upd = nameless_update [OF d'(2,6,7) ok d'(8)]
  have src: "udp_round now (''SRC 001'' @ [LF]) d' = Inl NullDeref" for now
    by (rule nameless_record_crash [OF d'(2,5) ok d'(8) upd])
  have cls: "\<exists>c3. serve_tcp_connection e2 c2 d' = Inr (0, c3, d') \<and> tx c3 = tx c2 @ ''RCL NOK'' @ [LF]"
    if c2: "rx c2 = [close_request uid pw ''001''] \<and> tx_caps c2 = []" for e2 c2
  proof -
    have usr': "user_view d' uid = Some (pw, True)" using usr d'(4) by simp
    have "close_checked (clock e2) uid pw ''001'' (c2\<lparr>rx := []\<rparr>) d' = tcp_reply (''RCL NOK'' @ [LF]) (c2\<lparr>rx := []\<rparr>) d'"
      by (rule nameless_close [OF d'(3) usr' ids(1) d'(2,5) ok d'(8,9) upd])
    also have "\<dots> = Inr (0, c2\<lparr>rx := [], tx := tx c2 @ ''RCL NOK'' @ [LF]\<rparr>, d')"
      using tcp_reply_all [of "c2\<lparr>rx := []\<rparr>"] c2 by simp
    finally show ?thesis using close_served [OF ids example_fields(5), of c2 e2] c2 by simp
  qed
  show ?thesis using served d'(9) upd src cls by (intro exI [of _ ?last] exI [of _ d']) simp
qed

theorem nameless_auction_fatal_witness:
  "\<exists>c' d'. serve_tcp_connection (example_env\<lparr>clock := 1700000000\<rparr>)
         (idle_conn\<lparr>rx := [''OPA 123456 password '' @ '' 10 3600 lamp.jpg 4 data'' @ [LF]]\<rparr>) two_users = Inr (0, c', d')
     \<and> tx c' = ''ROA OK 001'' @ [LF] \<and> udp_round 1700000001 (''SRC 001'' @ [LF]) d' = Inl NullDeref
     \<and> (\<exists>c3. serve_tcp_connection example_env (idle_conn\<lparr>rx := [''CLS 123456 password 001'' @ [LF]]\<rparr>) d' = Inr (0, c3, d')
           \<and> tx c3 = ''RCL NOK'' @ [LF])"
proof -
  let ?e = "example_env\<lparr>clock := 1700000000\<rparr>"
  let ?c = "idle_conn\<lparr>rx := (open_request ''123456'' ''password'' [] 10 3600 ''lamp.jpg'' (length ''data'') @ ''data'' @ [LF]) # []\<rparr>"
  let ?c2 = "idle_conn\<lparr>rx := [close_request ''123456'' ''password'' ''001'']\<rparr>"
  have num: "fmt_d 10 = ''10''" "fmt_d 3600 = ''3600''" "fmt_d 4 = ''4''" by code_simp+
  have f: "is_valid_fname ''lamp.jpg''" "clean_word ''lamp.jpg''" using example_fields(6) by (simp_all add: start_ok_def)
  have c: "rx ?c = (open_request ''123456'' ''password'' [] 10 3600 ''lamp.jpg'' (length ''data'') @ ''data'' @ [LF]) # []"
    "''data'' @ [LF] \<noteq> []" "(''data'' @ [LF]) @ concat [] = ''data'' @ [LF]" "tx_caps ?c = []" "wcaps ?e = []"
    by (simp_all add: idle_conn_def example_env_def)
  have eq: "?c = idle_conn\<lparr>rx := [''OPA 123456 password '' @ '' 10 3600 lamp.jpg 4 data'' @ [LF]]\<rparr>"
    "?c2 = idle_conn\<lparr>rx := [''CLS 123456 password 001'' @ [LF]]\<rparr>" "tx idle_conn = []" "tx_caps idle_conn = []"
    by (simp_all add: open_request_def close_request_def num idle_conn_def)
  obtain c' d' where r: "serve_tcp_connection ?e ?c two_users = Inr (0, c', d')" "tx c' = tx ?c @ ''ROA OK 001'' @ [LF]"
    "\<forall>now. update_database now d' = Inr (0, d') \<and> udp_round now (''SRC 001'' @ [LF]) d' = Inl NullDeref"
    "\<forall>e2 c2. rx c2 = [close_request ''123456'' ''password'' ''001''] \<and> tx_caps c2 = [] \<longrightarrow>
          (\<exists>c3. serve_tcp_connection e2 c2 d' = Inr (0, c3, d') \<and> tx c3 = tx c2 @ ''RCL NOK'' @ [LF])"
    using nameless_auction_fatal [OF two_users(1,2) example_fields(1,3) two_users(3) f, of 10 3600 ?e "''data''" ?c] c by auto
  obtain c3 where "serve_tcp_connection example_env ?c2 d' = Inr (0, c3, d')" "tx c3 = ''RCL NOK'' @ [LF]"
    using r(4) [rule_format, of ?c2 example_env] by (auto simp: eq(3,4))
  then show ?thesis using r(1-3) unfolding eq by (intro exI [of _ c'] exI [of _ d']) (auto simp: eq(3))
qed

end
