(* ===== verification/Getopt.thy ===== *)
theory Getopt
  imports Validators
begin

text \<open>
  \<open>getopt\<close> of the C library as both \<open>main.c\<close> use it: clusters of flags, arguments attached to the option or
  in the next word, \<open>--\<close>, and operands between the options (the GNU default, without
  \<open>POSIXLY_CORRECT\<close>). The state is what is left of the current word and the words after it. What is written
  on standard error and \<open>optind\<close> are left out: neither program looks at its operands.
\<close>

section \<open>getopt\<close>

datatype option_result = Option char "string option" | Bad_option | No_more

definition takes_argument :: "string \<Rightarrow> char \<Rightarrow> bool option" where
  "takes_argument optstring c =
     (if c = CHR '':'' then None
      else case dropWhile (\<lambda>x. x \<noteq> c) optstring of
        [] \<Rightarrow> None
      | _ # rest \<Rightarrow> Some (case rest of [] \<Rightarrow> False | x # _ \<Rightarrow> x = CHR '':''))"

definition operand :: "string \<Rightarrow> bool" where
  "operand w = (case w of x # _ # _ \<Rightarrow> x \<noteq> CHR ''-'' | _ \<Rightarrow> True)"

type_synonym getopt_state = "string \<times> string list"

definition getopt_char :: "string \<Rightarrow> char \<Rightarrow> string \<Rightarrow> string list \<Rightarrow> option_result \<times> getopt_state" where
  "getopt_char optstring c nextchar argv =
     (case takes_argument optstring c of
        None \<Rightarrow> (Bad_option, nextchar, argv)
      | Some False \<Rightarrow> (Option c None, nextchar, argv)
      | Some True \<Rightarrow>
          if nextchar \<noteq> [] then (Option c (Some nextchar), [], argv)
          else case argv of
            [] \<Rightarrow> (Bad_option, [], [])
          | w # ws \<Rightarrow> (Option c (Some w), [], ws))"

definition getopt :: "string \<Rightarrow> getopt_state \<Rightarrow> option_result \<times> getopt_state" where
  "getopt optstring st =
     (case st of
        (c # nextchar, argv) \<Rightarrow> getopt_char optstring c nextchar argv
      | ([], argv) \<Rightarrow>
          (case dropWhile operand argv of
             [] \<Rightarrow> (No_more, [], [])
           | w # ws \<Rightarrow>
               if w = ''--'' then (No_more, [], [])
               else getopt_char optstring (w ! 1) (drop 2 w) ws))"

definition state_size :: "getopt_state \<Rightarrow> nat" where
  "state_size st = length (fst st) + sum_list (map (\<lambda>w. length w + 1) (snd st))"

lemma getopt_char_shrinks:
  "getopt_char optstring c nextchar argv = (r, st) \<Longrightarrow> state_size st \<le> state_size (nextchar, argv)"
  by (auto simp: getopt_char_def state_size_def split: option.splits bool.splits if_splits list.splits)

lemma dropWhile_size: "sum_list (map (\<lambda>w. length w + 1) (dropWhile P ws)) \<le> sum_list (map (\<lambda>w. length w + 1) ws)"
  for ws :: "string list"
  by (induction ws) auto

text \<open>Every option shortens what is left, so that a loop over \<open>getopt\<close> ends.\<close>

lemma getopt_shrinks:
  assumes "getopt optstring st = (r, st')" "r \<noteq> No_more"
  shows "state_size st' < state_size st"
proof (cases st)
  case (Pair cs argv)
  show ?thesis
  proof (cases cs)
    case (Cons c nextchar)
    then show ?thesis using assms Pair getopt_char_shrinks [of optstring c nextchar argv r st']
      by (simp add: getopt_def state_size_def)
  next
    case Nil
    show ?thesis
    proof (cases "dropWhile operand argv")
      case ws: (Cons w ws)
      then have "\<not> operand w" by (metis hd_dropWhile list.distinct(1) list.sel(1))
      then have len: "2 \<le> length w" by (auto simp: operand_def split: list.splits)
      have "getopt_char optstring (w ! 1) (drop 2 w) ws = (r, st')"
        using assms Pair Nil ws by (simp add: getopt_def split: if_splits)
      from getopt_char_shrinks [OF this] len dropWhile_size [of operand argv] show ?thesis
        by (simp add: Pair Nil ws state_size_def)
    next
      case none: Nil
      have "getopt optstring st = (No_more, [], [])" by (simp add: getopt_def Pair Nil none)
      then show ?thesis using assms by simp
    qed
  qed
qed

text \<open>All results of a loop over \<open>getopt\<close>, up to the first unknown option or the end.\<close>

function getopt_all :: "string \<Rightarrow> getopt_state \<Rightarrow> option_result list" where
  "getopt_all optstring st =
     (case getopt optstring st of
        (Option c arg, st') \<Rightarrow> Option c arg # getopt_all optstring st'
      | (r, _) \<Rightarrow> [r])"
  by pat_completeness auto
termination
  by (relation "measure (\<lambda>(optstring, st). state_size st)") (auto dest: getopt_shrinks [OF sym])

declare getopt_all.simps [simp del]

section \<open>Writing a command line\<close>

text \<open>
  A command line as a user may write it: operands, and words that start with a dash and hold some flags
  and then perhaps an option with an argument, attached (\<open>-p58000\<close>) or in the next word (\<open>-p 58000\<close>).
\<close>

datatype command_word = Operand string | Flags string | Valued string char string bool

fun written :: "command_word \<Rightarrow> string list" where
  "written (Operand w) = [w]"
| "written (Flags fs) = [CHR ''-'' # fs]"
| "written (Valued fs c arg attached) =
     (if attached then [CHR ''-'' # fs @ c # arg] else [CHR ''-'' # fs @ [c], arg])"

fun meant :: "command_word \<Rightarrow> option_result list" where
  "meant (Operand w) = []"
| "meant (Flags fs) = map (\<lambda>c. Option c None) fs"
| "meant (Valued fs c arg attached) = map (\<lambda>c. Option c None) fs @ [Option c (Some arg)]"

fun well_written :: "string \<Rightarrow> command_word \<Rightarrow> bool" where
  "well_written s (Operand w) = operand w"
| "well_written s (Flags fs) = (fs \<noteq> [] \<and> (\<forall>c \<in> set fs. takes_argument s c = Some False))"
| "well_written s (Valued fs c arg attached) =
     ((\<forall>c \<in> set fs. takes_argument s c = Some False) \<and> takes_argument s c = Some True \<and> (attached \<longrightarrow> arg \<noteq> []))"

lemma getopt_flags:
  "\<forall>c \<in> set fs. takes_argument s c = Some False \<Longrightarrow>
     getopt_all s (fs @ nextchar, argv) = map (\<lambda>c. Option c None) fs @ getopt_all s (nextchar, argv)"
  by (induction fs) (simp_all add: getopt_all.simps [of s "(c # cs, a)" for c cs a] getopt_def getopt_char_def)

lemma getopt_value:
  assumes "takes_argument s c = Some True"
  shows "arg \<noteq> [] \<Longrightarrow> getopt_all s (c # arg, argv) = Option c (Some arg) # getopt_all s ([], argv)"
    and "getopt_all s ([c], arg # argv) = Option c (Some arg) # getopt_all s ([], argv)"
  using assms by (simp_all add: getopt_all.simps [of s "(c # cs, a)" for c cs a] getopt_def getopt_char_def)

lemma getopt_operand: "operand w \<Longrightarrow> getopt_all s ([], w # argv) = getopt_all s ([], argv)"
  by (subst (1 2) getopt_all.simps) (simp add: getopt_def)

text \<open>A word of options is read as if \<open>getopt\<close> stood behind its dash.\<close>

lemma getopt_dash:
  assumes "takes_argument s c \<noteq> None" "takes_argument s CHR ''-'' = None"
  shows "getopt_all s ([], (CHR ''-'' # c # cs) # argv) = getopt_all s (c # cs, argv)"
proof -
  have "c \<noteq> CHR ''-''" using assms by auto
  then show ?thesis by (subst (1 2) getopt_all.simps) (simp add: getopt_def operand_def)
qed

lemma getopt_word:
  assumes "well_written s w" "takes_argument s CHR ''-'' = None"
  shows "getopt_all s ([], written w @ argv) = meant w @ getopt_all s ([], argv)"
proof (cases w)
  case (Operand x)
  then show ?thesis using assms(1) by (simp add: getopt_operand)
next
  case (Flags fs)
  then obtain c cs where fs: "fs = c # cs" using assms(1) by (cases fs) auto
  then have "takes_argument s c \<noteq> None" using assms(1) Flags by simp
  then have "getopt_all s ([], written w @ argv) = getopt_all s (fs @ [], argv)"
    using getopt_dash [OF _ assms(2)] Flags fs by simp
  then show ?thesis using getopt_flags [of fs s "[]" argv] assms(1) Flags by simp
next
  case (Valued fs c arg attached)
  have hd: "getopt_all s ([], (CHR ''-'' # fs @ c # rest) # argv') = getopt_all s (fs @ c # rest, argv')" for rest argv'
    using getopt_dash [OF _ assms(2)] assms(1) Valued by (cases fs) auto
  show ?thesis
    using hd [of arg argv] hd [of "[]" "arg # argv"] getopt_flags [of fs s "c # arg" argv] getopt_flags [of fs s "[c]" "arg # argv"]
      getopt_value [of s c arg argv] assms(1) Valued by (cases attached) auto
qed

lemma getopt_end:
  "getopt_all s ([], []) = [No_more]" "getopt_all s ([], ''--'' # ws) = [No_more]"
  by (simp_all add: getopt_all.simps [of s "([], a)" for a] getopt_def operand_def)

text \<open>\<open>getopt\<close> reads back every command line that is written with known options.\<close>

lemma getopt_reads_back:
  assumes "\<forall>w \<in> set ws. well_written s w" "takes_argument s CHR ''-'' = None" "rest = [] \<or> hd rest = ''--''"
  shows "getopt_all s ([], concat (map written ws) @ rest) = concat (map meant ws) @ [No_more]"
  using assms
proof (induction ws)
  case Nil
  then show ?case using getopt_end by (cases rest) auto
qed (simp add: getopt_word)

lemma meant_known:
  "well_written s w \<Longrightarrow> r \<in> set (meant w) \<Longrightarrow> \<exists>c arg. r = Option c arg \<and> takes_argument s c = Some (arg \<noteq> None)"
  by (cases w) auto

lemma getopt_all_cons:
  assumes "getopt_all s st = Option c arg # rs"
  obtains st' where "getopt s st = (Option c arg, st')" "getopt_all s st' = rs"
  using assms by (subst (asm) getopt_all.simps) (auto split: prod.splits option_result.splits)

lemma getopt_all_done: "getopt_all s st = [No_more] \<Longrightarrow> fst (getopt s st) = No_more"
  by (subst (asm) getopt_all.simps) (auto split: prod.splits option_result.splits)

end
