(* ===== verification/TasksQueue.thy ===== *)
theory TasksQueue
  imports Prelude Runs "HOL-Library.Word" "HOL-Library.Multiset" "HOL-Library.Sublist"
begin

text \<open>
  \<open>server/tasks_queue.c\<close> and the threads of \<open>server/server.c\<close> that meet in it. The queue is a
  ring of \<open>THREAD_POOL_SZ\<close> slots (the array has twice as many, half of them never used) with
  \<open>size\<close>, \<open>head\<close> and \<open>tail\<close>. \<open>enqueue\<close> and \<open>dequeue\<close> work under the queue's mutex, so
  one call is one atomic function, except that it blocks on a condition variable when the queue
  is full or empty: then the model returns \<open>None\<close> and the caller waits.

  The locale \<open>bounded_fifo\<close> is what the threads rely on; \<open>tq\<close> interprets it on the ring. The
  second half is the step relation of the accepting thread and the worker threads, with the
  waits and the signals (sent after the mutex is released) as steps of their own, and the measure that
  every step without a new client or a spurious wake-up lowers.
\<close>

section \<open>The ring\<close>

record tcp_client =
  conn_fd :: int
  ipv4 :: string
  cport :: int

definition THREAD_POOL_SZ :: nat where "THREAD_POOL_SZ = 30"

record tasks_queue =
  tasks :: "tcp_client list"
  qsize :: nat
  head :: nat
  tail :: nat

text \<open>\<open>garbage\<close> is what \<open>malloc\<close> leaves in the array.\<close>

definition init_queue :: "tcp_client list \<Rightarrow> tasks_queue" where
  "init_queue garbage = \<lparr>tasks = garbage, qsize = 0, head = 0, tail = 0\<rparr>"

definition enqueue :: "tcp_client \<Rightarrow> tasks_queue \<Rightarrow> tasks_queue option" where
  "enqueue task q =
     (if qsize q = THREAD_POOL_SZ then None
      else Some (q\<lparr>tasks := (tasks q)[head q := task], head := (head q + 1) mod THREAD_POOL_SZ,
                   qsize := qsize q + 1\<rparr>))"

definition dequeue :: "tasks_queue \<Rightarrow> (tcp_client \<times> tasks_queue) option" where
  "dequeue q =
     (if qsize q = 0 then None
      else Some (tasks q ! tail q, q\<lparr>tail := (tail q + 1) mod THREAD_POOL_SZ, qsize := qsize q - 1\<rparr>))"

definition queue_ok :: "tasks_queue \<Rightarrow> bool" where
  "queue_ok q \<longleftrightarrow> length (tasks q) = THREAD_POOL_SZ * 2 \<and> tail q < THREAD_POOL_SZ
     \<and> qsize q \<le> THREAD_POOL_SZ \<and> head q = (tail q + qsize q) mod THREAD_POOL_SZ"

definition queue_list :: "tasks_queue \<Rightarrow> tcp_client list" where
  "queue_list q = map (\<lambda>i. tasks q ! ((tail q + i) mod THREAD_POOL_SZ)) [0..<qsize q]"

lemma length_queue_list [simp]: "length (queue_list q) = qsize q"
  by (simp add: queue_list_def)

lemma init_queue_ok:
  "length garbage = THREAD_POOL_SZ * 2 \<Longrightarrow> queue_ok (init_queue garbage) \<and> queue_list (init_queue garbage) = []"
  by (simp add: queue_ok_def init_queue_def queue_list_def THREAD_POOL_SZ_def)

text \<open>A slot in use is not the one the next task goes to.\<close>

lemma ring_distinct:
  assumes "i < s" "s < (30::nat)" "t < 30"
  shows "(t + i) mod 30 \<noteq> (t + s) mod 30"
proof
  assume "(t + i) mod 30 = (t + s) mod 30"
  then have "30 dvd (t + s) - (t + i)" using assms by (intro mod_eq_dvd_iff_nat [THEN iffD1]) auto
  then show False using assms nat_dvd_not_less [of "s - i" 30] by simp
qed

lemma enqueue_full: "queue_ok q \<Longrightarrow> enqueue t q = None \<longleftrightarrow> length (queue_list q) = THREAD_POOL_SZ"
  by (simp add: enqueue_def)

lemma enqueue_list:
  assumes "queue_ok q" "enqueue t q = Some q'"
  shows "queue_ok q' \<and> queue_list q' = queue_list q @ [t]"
proof
  have q': "q' = q\<lparr>tasks := (tasks q)[head q := t], head := (head q + 1) mod THREAD_POOL_SZ,
                   qsize := qsize q + 1\<rparr>"
    and lt: "qsize q < 30"
    using assms by (auto simp: enqueue_def queue_ok_def THREAD_POOL_SZ_def split: if_splits)
  have h: "head q = (tail q + qsize q) mod 30" "tail q < 30" "length (tasks q) = 60"
    using assms(1) by (auto simp: queue_ok_def THREAD_POOL_SZ_def)
  show "queue_ok q'"
    using assms(1) lt by (simp add: q' queue_ok_def THREAD_POOL_SZ_def mod_Suc_eq)
  have old: "(tasks q)[head q := t] ! ((tail q + i) mod 30) = tasks q ! ((tail q + i) mod 30)"
    if "i < qsize q" for i
    using ring_distinct [OF that lt h(2)] h(1) by simp
  have new: "(tasks q)[head q := t] ! ((tail q + qsize q) mod 30) = t"
    using h by simp
  show "queue_list q' = queue_list q @ [t]"
    using old new by (simp add: q' queue_list_def THREAD_POOL_SZ_def)
qed

lemma dequeue_empty: "dequeue q = None \<longleftrightarrow> queue_list q = []"
  by (simp add: dequeue_def flip: length_0_conv)

lemma dequeue_list:
  assumes "queue_ok q" "dequeue q = Some (t, q')"
  shows "queue_ok q' \<and> queue_list q = t # queue_list q'"
proof
  have q': "q' = q\<lparr>tail := (tail q + 1) mod THREAD_POOL_SZ, qsize := qsize q - 1\<rparr>"
    and t: "t = tasks q ! tail q" and pos: "0 < qsize q"
    using assms by (auto simp: dequeue_def split: if_splits)
  have h: "tail q < 30" using assms(1) by (simp add: queue_ok_def THREAD_POOL_SZ_def)
  have "(Suc (tail q) mod 30 + (qsize q - 1)) mod 30 = (Suc (tail q) + (qsize q - 1)) mod 30"
    by (rule mod_add_left_eq)
  then show "queue_ok q'"
    using assms(1) pos by (auto simp: q' queue_ok_def THREAD_POOL_SZ_def)
  have "[0..<qsize q] = 0 # map Suc [0..<qsize q - 1]"
    using pos by (cases "qsize q") (simp_all add: upt_conv_Cons map_Suc_upt del: upt_Suc)
  then show "queue_list q = t # queue_list q'"
    using h by (simp add: q' t queue_list_def THREAD_POOL_SZ_def mod_simps comp_def)
qed

section \<open>The interface of the threads\<close>

locale bounded_fifo =
  fixes contents :: "'q \<Rightarrow> 'a list"
    and ok :: "'q \<Rightarrow> bool"
    and cap :: nat
    and enq :: "'a \<Rightarrow> 'q \<Rightarrow> 'q option"
    and deq :: "'q \<Rightarrow> ('a \<times> 'q) option"
  assumes cap_pos: "0 < cap"
    and bounded: "ok q \<Longrightarrow> length (contents q) \<le> cap"
    and enq_blocks: "ok q \<Longrightarrow> enq x q = None \<longleftrightarrow> length (contents q) = cap"
    and enq_law: "ok q \<Longrightarrow> enq x q = Some q' \<Longrightarrow> ok q' \<and> contents q' = contents q @ [x]"
    and deq_blocks: "ok q \<Longrightarrow> deq q = None \<longleftrightarrow> contents q = []"
    and deq_law: "ok q \<Longrightarrow> deq q = Some (x, q') \<Longrightarrow> ok q' \<and> contents q = x # contents q'"
begin

lemma enq_progress: "ok q \<Longrightarrow> length (contents q) < cap \<Longrightarrow> \<exists>q'. enq x q = Some q'"
  using enq_blocks [of q x] by (cases "enq x q") auto

lemma deq_progress: "ok q \<Longrightarrow> contents q \<noteq> [] \<Longrightarrow> \<exists>x q'. deq q = Some (x, q')"
  using deq_blocks [of q] by (cases "deq q") auto

text \<open>What goes into an empty queue comes out of it.\<close>

lemma enq_then_deq:
  assumes "ok q" "contents q = []" "enq x q = Some q'"
  shows "\<exists>q''. deq q' = Some (x, q'') \<and> ok q'' \<and> contents q'' = []"
proof -
  have q': "ok q'" "contents q' = [x]" using enq_law [OF assms(1,3)] assms(2) by auto
  then obtain y q'' where "deq q' = Some (y, q'')" using deq_progress by fastforce
  with deq_law [OF q'(1) this] q'(2) show ?thesis by auto
qed

end

interpretation tq: bounded_fifo queue_list queue_ok THREAD_POOL_SZ enqueue dequeue
proof (unfold_locales, goal_cases)
  case 1
  show ?case by (simp add: THREAD_POOL_SZ_def)
next
  case (2 q)
  then show ?case by (simp add: queue_ok_def)
next
  case (3 q x)
  then show ?case by (rule enqueue_full)
next
  case (4 q x q')
  then show ?case by (rule enqueue_list)
next
  case (5 q)
  show ?case by (rule dequeue_empty)
next
  case (6 q x q')
  then show ?case by (rule dequeue_list)
qed

section \<open>The threads\<close>

text \<open>
  The accepting thread (\<open>tcp_server_thread_fn\<close>) is between two clients, about to enqueue one,
  waiting on \<open>not_full\<close> with it, or has released the mutex and is about to signal
  \<open>not_empty\<close>. A worker (\<open>tcp_worker_thread_fn\<close>) is about to enter \<open>dequeue\<close>, waits on
  \<open>not_empty\<close>, has its task and is about to signal \<open>not_full\<close>, or serves its client.
\<close>

datatype producer = P_accept | P_enq tcp_client | P_wait tcp_client | P_signal

datatype worker = W_ready | W_wait | W_signal tcp_client | W_serve tcp_client

record pool =
  queue :: tasks_queue
  producer :: producer
  workers :: "worker list"
  arrived :: "tcp_client list"
  taken :: "tcp_client list"

text \<open>\<open>char conn_fd\<close> in \<open>tcp_server_thread_fn\<close> keeps the low 8 bits of the descriptor.\<close>

definition accepted_fd :: "int \<Rightarrow> int" where
  "accepted_fd fd = sint (word_of_int fd :: 8 word)"

definition accept_client :: "int \<Rightarrow> string \<Rightarrow> int \<Rightarrow> tcp_client option" where
  "accept_client fd ip p =
     (if accepted_fd fd < 0 then None
      else Some \<lparr>conn_fd = accepted_fd fd, ipv4 = ip, cport = p\<rparr>)"

text \<open>
  What the threads do with the clients they have; then all steps, with the arrival of a client and the
  spurious wake-ups POSIX allows.
\<close>

inductive work_step :: "pool \<Rightarrow> pool \<Rightarrow> bool" where
  enq: "producer s = P_enq t \<Longrightarrow> enqueue t (queue s) = Some q \<Longrightarrow>
    work_step s (s\<lparr>queue := q, producer := P_signal, arrived := arrived s @ [t]\<rparr>)"
| enq_wait: "producer s = P_enq t \<Longrightarrow> enqueue t (queue s) = None \<Longrightarrow> work_step s (s\<lparr>producer := P_wait t\<rparr>)"
| signal_not_empty: "producer s = P_signal \<Longrightarrow> i < length (workers s) \<Longrightarrow> workers s ! i = W_wait \<Longrightarrow>
    work_step s (s\<lparr>producer := P_accept, workers := (workers s)[i := W_ready]\<rparr>)"
| signal_nobody: "producer s = P_signal \<Longrightarrow> W_wait \<notin> set (workers s) \<Longrightarrow> work_step s (s\<lparr>producer := P_accept\<rparr>)"
| deq: "i < length (workers s) \<Longrightarrow> workers s ! i = W_ready \<Longrightarrow> dequeue (queue s) = Some (t, q) \<Longrightarrow>
    work_step s (s\<lparr>queue := q, workers := (workers s)[i := W_signal t], taken := taken s @ [t]\<rparr>)"
| deq_wait: "i < length (workers s) \<Longrightarrow> workers s ! i = W_ready \<Longrightarrow> dequeue (queue s) = None \<Longrightarrow>
    work_step s (s\<lparr>workers := (workers s)[i := W_wait]\<rparr>)"
| signal_not_full: "i < length (workers s) \<Longrightarrow> workers s ! i = W_signal t \<Longrightarrow>
    work_step s (s\<lparr>workers := (workers s)[i := W_serve t],
                   producer := (case producer s of P_wait u \<Rightarrow> P_enq u | p \<Rightarrow> p)\<rparr>)"
| served: "i < length (workers s) \<Longrightarrow> workers s ! i = W_serve t \<Longrightarrow>
    work_step s (s\<lparr>workers := (workers s)[i := W_ready]\<rparr>)"

inductive pool_step :: "pool \<Rightarrow> pool \<Rightarrow> bool" where
  accept: "producer s = P_accept \<Longrightarrow> accept_client fd ip p = Some t \<Longrightarrow> pool_step s (s\<lparr>producer := P_enq t\<rparr>)"
| work: "work_step s s' \<Longrightarrow> pool_step s s'"
| spurious_worker: "i < length (workers s) \<Longrightarrow> workers s ! i = W_wait \<Longrightarrow>
    pool_step s (s\<lparr>workers := (workers s)[i := W_ready]\<rparr>)"
| spurious_producer: "producer s = P_wait t \<Longrightarrow> pool_step s (s\<lparr>producer := P_enq t\<rparr>)"

inductive_cases work_stepE: "work_step s s'"
inductive_cases pool_stepE: "pool_step s s'"

definition pool_init :: "tcp_client list \<Rightarrow> pool" where
  "pool_init garbage = \<lparr>queue = init_queue garbage, producer = P_accept,
     workers = replicate THREAD_POOL_SZ W_ready, arrived = [], taken = []\<rparr>"

inductive pool_reachable :: "pool \<Rightarrow> bool" where
  init: "length garbage = THREAD_POOL_SZ * 2 \<Longrightarrow> pool_reachable (pool_init garbage)"
| step: "pool_reachable s \<Longrightarrow> pool_step s s' \<Longrightarrow> pool_reachable s'"

section \<open>The invariant\<close>

definition ready_count :: "pool \<Rightarrow> nat" where
  "ready_count s = count (mset (workers s)) W_ready"

definition pending :: "pool \<Rightarrow> nat" where
  "pending s = (if producer s = P_signal then 1 else 0)"

definition no_lost_client :: "pool \<Rightarrow> bool" where
  "no_lost_client s \<longleftrightarrow> queue_ok (queue s) \<and> arrived s = taken s @ queue_list (queue s)"

definition no_lost_wakeup :: "pool \<Rightarrow> bool" where
  "no_lost_wakeup s \<longleftrightarrow>
     (W_wait \<in> set (workers s) \<longrightarrow> length (queue_list (queue s)) \<le> pending s + ready_count s)
     \<and> (\<forall>t. producer s = P_wait t \<longrightarrow>
           length (queue_list (queue s)) = THREAD_POOL_SZ \<or> (\<exists>u. W_signal u \<in> set (workers s)))"

lemma ready_count_update:
  assumes "i < length (workers s)"
  shows "count (mset ((workers s)[i := w])) W_ready + (if workers s ! i = W_ready then 1 else 0)
    = ready_count s + (if w = W_ready then 1 else 0)"
proof -
  have "0 < count (mset (workers s)) (workers s ! i)" using assms by simp
  then obtain n where "count (mset (workers s)) (workers s ! i) = Suc n" by (metis gr0_implies_Suc)
  then show ?thesis using assms by (auto simp: ready_count_def mset_update)
qed

lemma set_update_other: "x \<in> set xs \<Longrightarrow> xs ! i \<noteq> x \<Longrightarrow> x \<in> set (xs[i := w])"
  by (metis in_set_conv_nth length_list_update nth_list_update_neq)

lemma set_update_back: "x \<in> set (xs[i := w]) \<Longrightarrow> x \<noteq> w \<Longrightarrow> x \<in> set xs"
  using set_update_subset_insert [of xs i w] by auto

lemma no_lost_client_step: "pool_step s s' \<Longrightarrow> no_lost_client s \<Longrightarrow> no_lost_client s'"
  by (erule pool_stepE; (erule work_stepE)?) (auto simp: no_lost_client_def dest: tq.enq_law tq.deq_law)

text \<open>A step that leaves the queue alone and does not put a worker to sleep.\<close>

lemma no_lost_wakeup_worker:
  assumes inv: "no_lost_wakeup s" and i: "i < length (workers s)" and w: "w \<noteq> W_wait"
    and q: "queue s' = queue s" and ws: "workers s' = (workers s)[i := w]"
    and count: "pending s + (if workers s ! i = W_ready then 1 else 0) \<le> pending s' + (if w = W_ready then 1 else 0)"
    and prod: "\<And>t. producer s' = P_wait t \<Longrightarrow> producer s = P_wait t \<and> (\<forall>u. workers s ! i \<noteq> W_signal u)"
  shows "no_lost_wakeup s'"
proof -
  have "length (queue_list (queue s')) \<le> pending s' + ready_count s'" if "W_wait \<in> set (workers s')"
  proof -
    have "W_wait \<in> set (workers s)" using that w set_update_back [of W_wait "workers s" i w] ws by simp
    then have "length (queue_list (queue s)) \<le> pending s + ready_count s"
      using inv by (simp add: no_lost_wakeup_def)
    then show ?thesis using ready_count_update [OF i, of w] count q ws by (simp add: ready_count_def)
  qed
  moreover have "length (queue_list (queue s')) = THREAD_POOL_SZ \<or> (\<exists>u. W_signal u \<in> set (workers s'))"
    if p: "producer s' = P_wait t" for t
  proof -
    have "length (queue_list (queue s)) = THREAD_POOL_SZ \<or> (\<exists>u. W_signal u \<in> set (workers s))"
      using inv prod [OF p] unfolding no_lost_wakeup_def by blast
    then show ?thesis using prod [OF p] q ws by (metis set_update_other)
  qed
  ultimately show ?thesis by (simp add: no_lost_wakeup_def)
qed

lemma no_lost_wakeup_work:
  assumes step: "work_step s s'" and ok: "queue_ok (queue s)" and inv: "no_lost_wakeup s"
  shows "no_lost_wakeup s'"
  using step
proof cases
  case (enq t q)
  then show ?thesis using inv tq.enq_law [OF ok enq(3)]
    by (auto simp: no_lost_wakeup_def pending_def ready_count_def)
next
  case (enq_wait t)
  then show ?thesis using inv tq.enq_blocks [OF ok, of t]
    by (auto simp: no_lost_wakeup_def pending_def ready_count_def)
next
  case (signal_not_empty i)
  show ?thesis
    by (rule no_lost_wakeup_worker [OF inv signal_not_empty(3), of W_ready])
      (use signal_not_empty in \<open>auto simp: pending_def\<close>)
next
  case signal_nobody
  then show ?thesis using inv by (simp add: no_lost_wakeup_def)
next
  case (deq i t q)
  have len: "length (queue_list (queue s)) = Suc (length (queue_list q))"
    using tq.deq_law [OF ok deq(4)] by simp
  have "W_wait \<in> set ((workers s)[i := W_signal t]) \<Longrightarrow> W_wait \<in> set (workers s)"
    using set_update_back [of W_wait "workers s" i "W_signal t"] by simp
  moreover have "W_signal t \<in> set ((workers s)[i := W_signal t])" using deq by (simp add: set_update_memI)
  ultimately show ?thesis
    using inv ready_count_update [OF deq(2), of "W_signal t"] deq(1,3) len
    by (auto simp: no_lost_wakeup_def pending_def ready_count_def)
next
  case (deq_wait i)
  have "queue_list (queue s) = []" using tq.deq_blocks [OF ok] deq_wait by simp
  then have "length (queue_list (queue s)) = 0" by simp
  moreover have "W_signal u \<in> set ((workers s)[i := W_wait])" if "W_signal u \<in> set (workers s)" for u
    using that deq_wait by (intro set_update_other) auto
  ultimately show ?thesis
    using inv deq_wait(1) by (auto simp: no_lost_wakeup_def THREAD_POOL_SZ_def)
next
  case (signal_not_full i t)
  show ?thesis
    by (rule no_lost_wakeup_worker [OF inv signal_not_full(2), of "W_serve t"])
      (use signal_not_full in \<open>auto simp: pending_def split: producer.splits\<close>)
next
  case (served i t)
  show ?thesis
    by (rule no_lost_wakeup_worker [OF inv served(2), of W_ready])
      (use served in \<open>auto simp: pending_def\<close>)
qed

lemma no_lost_wakeup_step:
  assumes step: "pool_step s s'" and ok: "queue_ok (queue s)" and inv: "no_lost_wakeup s"
  shows "no_lost_wakeup s'"
  using step
proof cases
  case (accept fd ip p t)
  then show ?thesis using inv by (simp add: no_lost_wakeup_def pending_def ready_count_def)
next
  case work
  then show ?thesis using no_lost_wakeup_work [OF _ ok inv] by simp
next
  case (spurious_worker i)
  show ?thesis
    by (rule no_lost_wakeup_worker [OF inv spurious_worker(2), of W_ready])
      (use spurious_worker in \<open>auto simp: pending_def\<close>)
next
  case (spurious_producer t)
  then show ?thesis using inv by (simp add: no_lost_wakeup_def pending_def ready_count_def)
qed

lemma pool_invariants: "pool_reachable s \<Longrightarrow> no_lost_client s \<and> no_lost_wakeup s"
proof (induction rule: pool_reachable.induct)
  case (init garbage)
  then show ?case using init_queue_ok [of garbage]
    by (auto simp: pool_init_def no_lost_client_def no_lost_wakeup_def)
next
  case (step s s')
  then show ?case using no_lost_client_step no_lost_wakeup_step by (auto simp: no_lost_client_def)
qed

section \<open>Properties\<close>

text \<open>
  C33. The task queue is a bounded FIFO queue: on the ring, \<open>enqueue\<close> blocks exactly when 30 clients
  are waiting and otherwise appends its client to them, and \<open>dequeue\<close> blocks exactly when none is
  waiting and otherwise takes the first one; both keep the ring well formed.
\<close>

theorem tasks_queue_refines_fifo:
  assumes "queue_ok q"
  shows "(case enqueue t q of
            None \<Rightarrow> length (queue_list q) = THREAD_POOL_SZ
          | Some q' \<Rightarrow> length (queue_list q) < THREAD_POOL_SZ \<and> queue_ok q' \<and> queue_list q' = queue_list q @ [t])
     \<and> (case dequeue q of
            None \<Rightarrow> queue_list q = []
          | Some (u, q') \<Rightarrow> queue_ok q' \<and> queue_list q = u # queue_list q')"
proof
  show "case enqueue t q of
            None \<Rightarrow> length (queue_list q) = THREAD_POOL_SZ
          | Some q' \<Rightarrow> length (queue_list q) < THREAD_POOL_SZ \<and> queue_ok q' \<and> queue_list q' = queue_list q @ [t]"
    using tq.enq_blocks [OF assms, of t] tq.enq_law [OF assms, of t] tq.bounded [OF assms]
    by (auto split: option.splits)
  show "case dequeue q of
            None \<Rightarrow> queue_list q = []
          | Some (u, q') \<Rightarrow> queue_ok q' \<and> queue_list q = u # queue_list q'"
    using tq.deq_blocks [OF assms] tq.deq_law [OF assms] by (auto split: option.splits)
qed

definition some_client :: tcp_client where
  "some_client = \<lparr>conn_fd = 7, ipv4 = ''10.0.0.1'', cport = 4000\<rparr>"

lemma tasks_queue_refines_fifo_witness:
  "case enqueue some_client (init_queue (replicate 60 some_client)) of
     None \<Rightarrow> False | Some q' \<Rightarrow> queue_list q' = [some_client]"
proof -
  let ?q = "init_queue (replicate 60 some_client)"
  have q: "queue_ok ?q \<and> queue_list ?q = []" by (rule init_queue_ok) (simp add: THREAD_POOL_SZ_def)
  moreover have "qsize ?q \<noteq> THREAD_POOL_SZ" by (simp add: init_queue_def THREAD_POOL_SZ_def)
  ultimately show ?thesis
    using tasks_queue_refines_fifo [of ?q some_client] by (auto split: option.splits)
qed

text \<open>
  C29. No client is lost, duplicated or overtaken between the accepting thread and the workers: in every
  reachable state of the 31 threads, under every interleaving and with spurious wake-ups, the clients
  enqueued so far are those the workers took, in order, followed by those in the queue, at most 30.
\<close>

theorem pool_serves_in_order:
  assumes "pool_reachable s"
  shows "arrived s = taken s @ queue_list (queue s) \<and> length (queue_list (queue s)) \<le> THREAD_POOL_SZ"
  using pool_invariants [OF assms] tq.bounded by (auto simp: no_lost_client_def)

text \<open>One client has been enqueued while all thirty workers sleep; its signal is still to be sent.\<close>

definition one_waiting :: pool where
  "one_waiting = (pool_init (replicate 60 some_client))\<lparr>producer := P_signal, workers := replicate THREAD_POOL_SZ W_wait,
     queue := the (enqueue some_client (init_queue (replicate 60 some_client))), arrived := [some_client]\<rparr>"

lemma first_enqueue: "\<exists>q. enqueue some_client (init_queue (replicate 60 some_client)) = Some q \<and> queue_list q = [some_client]"
proof -
  let ?q = "init_queue (replicate 60 some_client)"
  have q: "queue_ok ?q \<and> queue_list ?q = []" by (rule init_queue_ok) (simp add: THREAD_POOL_SZ_def)
  moreover obtain q' where "enqueue some_client ?q = Some q'"
    using q enqueue_full [of ?q some_client] by (cases "enqueue some_client ?q") (auto simp: THREAD_POOL_SZ_def)
  ultimately show ?thesis using enqueue_list [of ?q some_client q'] by auto
qed

lemma sleepers_reachable:
  assumes "k \<le> THREAD_POOL_SZ"
  shows "pool_reachable ((pool_init (replicate 60 some_client))
     \<lparr>workers := replicate k W_wait @ replicate (THREAD_POOL_SZ - k) W_ready\<rparr>)"
  using assms
proof (induction k)
  case 0
  have "pool_reachable (pool_init (replicate 60 some_client))"
    by (rule pool_reachable.init) (simp add: THREAD_POOL_SZ_def)
  then show ?case by (simp add: pool_init_def)
next
  case (Suc k)
  let ?s = "(pool_init (replicate 60 some_client))\<lparr>workers := replicate k W_wait @ replicate (THREAD_POOL_SZ - k) W_ready\<rparr>"
  have len: "THREAD_POOL_SZ - k = Suc (THREAD_POOL_SZ - Suc k)" using Suc.prems by simp
  have "work_step ?s (?s\<lparr>workers := (workers ?s)[k := W_wait]\<rparr>)"
    by (rule work_step.deq_wait) (simp_all add: len nth_append pool_init_def dequeue_def init_queue_def)
  then have "pool_reachable (?s\<lparr>workers := (workers ?s)[k := W_wait]\<rparr>)"
    using Suc by (blast intro: pool_reachable.step pool_step.work Suc_leD)
  moreover have "(workers ?s)[k := W_wait] = replicate (Suc k) W_wait @ replicate (THREAD_POOL_SZ - Suc k) W_ready"
    unfolding len by (simp add: list_update_append) (simp flip: replicate_append_same)
  ultimately show ?case by simp
qed

lemma one_waiting: "pool_reachable one_waiting" "queue_list (queue one_waiting) = [some_client]"
proof -
  let ?s = "(pool_init (replicate 60 some_client))\<lparr>workers := replicate THREAD_POOL_SZ W_wait\<rparr>"
  obtain q where q: "enqueue some_client (init_queue (replicate 60 some_client)) = Some q" "queue_list q = [some_client]"
    using first_enqueue by blast
  have r: "pool_reachable ?s" using sleepers_reachable [OF order_refl] by simp
  have "accept_client 7 ''10.0.0.1'' 4000 = Some some_client"
    by (simp add: accept_client_def accepted_fd_def some_client_def)
  then have "pool_step ?s (?s\<lparr>producer := P_enq some_client\<rparr>)"
    by (intro pool_step.accept) (simp_all add: pool_init_def)
  moreover have "work_step (?s\<lparr>producer := P_enq some_client\<rparr>) one_waiting"
    using work_step.enq [of "?s\<lparr>producer := P_enq some_client\<rparr>" some_client q] q(1)
    by (simp add: one_waiting_def pool_init_def)
  ultimately show "pool_reachable one_waiting" using r by (blast intro: pool_reachable.step pool_step.work)
  show "queue_list (queue one_waiting) = [some_client]" using q by (simp add: one_waiting_def)
qed

lemma pool_serves_in_order_witness:
  "pool_reachable one_waiting \<and> queue_list (queue one_waiting) = [some_client] \<and> arrived one_waiting = taken one_waiting @ [some_client]"
  using pool_serves_in_order [OF one_waiting(1)] one_waiting by simp

lemma all_asleep:
  assumes inv: "no_lost_wakeup s" and "\<forall>w \<in> set (workers s). w = W_wait" "workers s \<noteq> []"
  shows "queue_list (queue s) = [] \<or> (producer s = P_signal \<and> length (queue_list (queue s)) = 1)"
    "producer s \<noteq> P_wait t"
proof -
  obtain w ws where "workers s = w # ws" using assms(3) by (cases "workers s") auto
  moreover have "W_ready \<notin> set (workers s)" using assms(2) by auto
  ultimately have idle: "W_wait \<in> set (workers s)" "ready_count s = 0" "\<forall>u. W_signal u \<notin> set (workers s)"
    using assms(2) by (auto simp: ready_count_def count_mset)
  then have len: "length (queue_list (queue s)) \<le> pending s" using inv by (simp add: no_lost_wakeup_def)
  then show "queue_list (queue s) = [] \<or> (producer s = P_signal \<and> length (queue_list (queue s)) = 1)"
    by (cases "queue_list (queue s) = []") (auto simp: pending_def le_Suc_eq split: if_splits simp flip: length_0_conv)
  show "producer s \<noteq> P_wait t"
  proof
    assume p: "producer s = P_wait t"
    then have "length (queue_list (queue s)) = THREAD_POOL_SZ" using inv idle(3) unfolding no_lost_wakeup_def by blast
    then show False using len p by (simp add: pending_def THREAD_POOL_SZ_def)
  qed
qed

text \<open>
  C30. No wake-up is lost although the condition variables are signalled after the mutex is released:
  while clients are queued, it never happens that all workers sleep with no signal on its way, and the
  accepting thread never sleeps on a queue with room unless a worker is about to wake it; so the pool
  cannot deadlock.
\<close>

theorem pool_no_lost_wakeup:
  assumes "pool_reachable s"
  shows "((\<forall>w \<in> set (workers s). w = W_wait) \<and> workers s \<noteq> [] \<longrightarrow>
            queue_list (queue s) = [] \<or> (producer s = P_signal \<and> length (queue_list (queue s)) = 1))
     \<and> (\<forall>t. producer s = P_wait t \<longrightarrow> workers s \<noteq> [] \<longrightarrow> (\<exists>w \<in> set (workers s). w \<noteq> W_wait))"
proof (intro conjI impI allI)
  assume "(\<forall>w \<in> set (workers s). w = W_wait) \<and> workers s \<noteq> []"
  then show "queue_list (queue s) = [] \<or> (producer s = P_signal \<and> length (queue_list (queue s)) = 1)"
    using all_asleep(1) pool_invariants [OF assms] by blast
next
  fix t
  assume "producer s = P_wait t" "workers s \<noteq> []"
  then show "\<exists>w \<in> set (workers s). w \<noteq> W_wait" using all_asleep(2) pool_invariants [OF assms] by blast
qed

lemma pool_no_lost_wakeup_witness:
  "workers one_waiting = replicate THREAD_POOL_SZ W_wait \<and> queue_list (queue one_waiting) = [some_client]
     \<and> producer one_waiting = P_signal"
proof -
  have "workers one_waiting = replicate THREAD_POOL_SZ W_wait" by (simp add: one_waiting_def)
  moreover have "(\<forall>w \<in> set (workers one_waiting). w = W_wait) \<and> workers one_waiting \<noteq> []"
    by (simp add: one_waiting_def THREAD_POOL_SZ_def)
  ultimately show ?thesis using pool_no_lost_wakeup [OF one_waiting(1)] one_waiting(2) by simp
qed

section \<open>Draining\<close>

text \<open>What is still to be done: every work step lowers it.\<close>

fun producer_work :: "producer \<Rightarrow> nat" where
  "producer_work P_accept = 0"
| "producer_work P_signal = 2"
| "producer_work (P_wait t) = 6"
| "producer_work (P_enq t) = 7"

fun worker_work :: "worker \<Rightarrow> nat" where
  "worker_work W_wait = 0"
| "worker_work W_ready = 1"
| "worker_work (W_serve t) = 2"
| "worker_work (W_signal t) = 4"

definition remaining :: "pool \<Rightarrow> nat" where
  "remaining s = producer_work (producer s) + sum_list (map worker_work (workers s)) + 4 * qsize (queue s)"

lemma workers_work_update:
  "i < length ws \<Longrightarrow> sum_list (map worker_work (ws[i := w])) + worker_work (ws ! i) = sum_list (map worker_work ws) + worker_work w"
proof (induction ws arbitrary: i)
  case (Cons v ws)
  then show ?case by (cases i) (auto simp: add.commute add.left_commute)
qed simp

lemma work_decreases: "work_step s s' \<Longrightarrow> remaining s' < remaining s"
proof (induction rule: work_step.induct)
  case (enq s t q)
  then show ?case by (auto simp: remaining_def enqueue_def split: if_splits)
next
  case (signal_not_empty s i)
  then show ?case using workers_work_update [of i "workers s" W_ready] by (simp add: remaining_def)
next
  case (deq i s t q)
  then show ?case using workers_work_update [of i "workers s" "W_signal t"]
    by (auto simp: remaining_def dequeue_def split: if_splits)
next
  case (deq_wait i s)
  then show ?case using workers_work_update [of i "workers s" W_wait] by (simp add: remaining_def)
next
  case (signal_not_full i s t)
  then show ?case using workers_work_update [of i "workers s" "W_serve t"]
    by (cases "producer s") (simp_all add: remaining_def)
next
  case (served i s t)
  then show ?case using workers_work_update [of i "workers s" W_ready] by (simp add: remaining_def)
qed (simp_all add: remaining_def)

lemma pool_has_workers:
  assumes "pool_reachable s"
  shows "workers s \<noteq> []"
proof -
  have keep: "length (workers s') = length (workers s)" if "pool_step s s'" for s s'
    using that by (auto elim!: pool_stepE work_stepE)
  have "length (workers s) = THREAD_POOL_SZ"
    using assms by (induction rule: pool_reachable.induct) (auto simp: pool_init_def dest: keep)
  then show ?thesis by (auto simp: THREAD_POOL_SZ_def)
qed

text \<open>The pool as an instance: the invariants, the clients enqueued so far, and the work that is left.\<close>

definition pool_ok :: "pool \<Rightarrow> bool" where
  "pool_ok s \<longleftrightarrow> no_lost_client s \<and> no_lost_wakeup s \<and> workers s \<noteq> []"

definition arrivals_kept :: "pool \<Rightarrow> pool \<Rightarrow> bool" where
  "arrivals_kept s s' \<longleftrightarrow> prefix (arrived s) (arrived s')"

lemma pool_ok_step:
  assumes "pool_step s s'" "pool_ok s"
  shows "pool_ok s' \<and> arrivals_kept s s'"
proof -
  have "length (workers s') = length (workers s)" "arrivals_kept s s'"
    using assms(1) by (auto simp: arrivals_kept_def elim!: pool_stepE work_stepE)
  moreover have "no_lost_client s'" "no_lost_wakeup s'"
    using assms no_lost_client_step no_lost_wakeup_step by (auto simp: pool_ok_def no_lost_client_def)
  ultimately show ?thesis using assms(2) by (auto simp: pool_ok_def)
qed

interpretation wk: settling work_step pool_ok arrivals_kept remaining
  by unfold_locales
    (use pool_ok_step pool_step.work work_decreases in \<open>auto simp: arrivals_kept_def\<close>)

lemma reachable_ok: "pool_reachable s \<Longrightarrow> pool_ok s"
  using pool_invariants pool_has_workers by (simp add: pool_ok_def)

lemma worker_moves:
  assumes "i < length (workers s)" "workers s ! i \<noteq> W_wait"
  shows "\<exists>s'. work_step s s'"
proof (cases "workers s ! i")
  case W_ready
  then show ?thesis using assms work_step.deq work_step.deq_wait
    by (cases "dequeue (queue s)") (blast, metis surj_pair)
qed (use assms work_step.signal_not_full work_step.served in blast)+

lemma producer_moves:
  assumes "producer s = P_signal \<or> producer s = P_enq t"
  shows "\<exists>s'. work_step s s'"
  using assms work_step.enq work_step.enq_wait work_step.signal_not_empty work_step.signal_nobody
  by (metis in_set_conv_nth not_Some_eq)

text \<open>
  C12. The pool always finishes its work. From every state the threads can reach, at most \<open>remaining s\<close> steps
  are possible before a new client arrives or a thread wakes up without a signal, in whatever order they
  are taken; such a run can always be completed; and when no step is left, every client that was enqueued has been taken and served, in the
  order of arrival, all workers wait and the accepting thread is ready for the next one.
\<close>

theorem pool_drains:
  assumes "pool_reachable s"
  shows "(\<forall>n s'. (work_step ^^ n) s s' \<longrightarrow> n \<le> remaining s) \<and> (\<exists>s'. work_step\<^sup>*\<^sup>* s s' \<and> (\<nexists>s''. work_step s' s'')) \<and>
     (\<forall>s'. work_step\<^sup>*\<^sup>* s s' \<and> (\<nexists>s''. work_step s' s'') \<longrightarrow>
        taken s' = arrived s' \<and> prefix (arrived s) (arrived s') \<and> producer s' = P_accept \<and> (\<forall>w \<in> set (workers s'). w = W_wait))"
proof (intro conjI allI impI)
  show "n \<le> remaining s" if "(work_step ^^ n) s s'" for n s' using wk.run_bounded [OF that] by simp
  show "\<exists>s'. work_step\<^sup>*\<^sup>* s s' \<and> (\<nexists>s''. work_step s' s'')" using wk.finishes by (simp add: wk.stuck_def)
next
  fix s'
  assume run: "work_step\<^sup>*\<^sup>* s s' \<and> (\<nexists>s''. work_step s' s'')"
  have ok: "pool_ok s'" "arrivals_kept s s'" using wk.run_keeps reachable_ok [OF assms] run by blast+
  have wait: "\<forall>w \<in> set (workers s'). w = W_wait" using worker_moves run by (metis in_set_conv_nth)
  note sleep = all_asleep [OF _ wait]
  have idle: "producer s' = P_accept"
  proof (cases "producer s'")
    case (P_wait t)
    then show ?thesis using all_asleep(2) [OF _ wait, of t] ok(1) by (simp add: pool_ok_def)
  qed (use producer_moves run in blast)+
  moreover have "queue_list (queue s') = []" using sleep(1) ok(1) idle by (simp add: pool_ok_def)
  then have "taken s' = arrived s'" using ok(1) by (simp add: pool_ok_def no_lost_client_def)
  ultimately show "taken s' = arrived s'" "prefix (arrived s) (arrived s')" "producer s' = P_accept" "\<forall>w \<in> set (workers s'). w = W_wait"
    using ok(2) wait by (simp_all add: arrivals_kept_def)
qed

lemma pool_drains_witness:
  "\<exists>s s'. pool_reachable s \<and> arrived s = [some_client] \<and> taken s = [] \<and> work_step\<^sup>*\<^sup>* s s' \<and> hd (taken s') = some_client"
proof -
  let ?s = "pool_init (replicate 60 some_client)"
  let ?s1 = "?s\<lparr>producer := P_enq some_client\<rparr>"
  have r: "pool_reachable ?s" by (rule pool_reachable.init) (simp add: THREAD_POOL_SZ_def)
  have "accept_client 7 ''10.0.0.1'' 4000 = Some some_client"
    by (simp add: accept_client_def accepted_fd_def some_client_def)
  then have "pool_step ?s ?s1" by (intro pool_step.accept) (simp_all add: pool_init_def)
  then have r1: "pool_reachable ?s1" by (rule pool_reachable.step [OF r])
  obtain q where q: "enqueue some_client (queue ?s1) = Some q"
    by (simp add: pool_init_def enqueue_def init_queue_def THREAD_POOL_SZ_def)
  define s2 where "s2 = ?s1\<lparr>queue := q, producer := P_signal, arrived := arrived ?s1 @ [some_client]\<rparr>"
  have step: "work_step ?s1 s2" unfolding s2_def by (rule work_step.enq [OF _ q]) simp
  then have r2: "pool_reachable s2" by (rule pool_reachable.step [OF r1 pool_step.work])
  have a2: "arrived s2 = [some_client]" "taken s2 = []" by (simp_all add: s2_def pool_init_def)
  obtain s' where run: "work_step\<^sup>*\<^sup>* s2 s'" "\<nexists>s''. work_step s' s''" using wk.finishes [of s2] by (auto simp: wk.stuck_def)
  then have "taken s' = arrived s'" "prefix (arrived s2) (arrived s')" using pool_drains [OF r2] by blast+
  then have "hd (taken s') = some_client" using a2(1) by (auto simp: prefix_def)
  then show ?thesis using r2 a2 run(1) by blast
qed

text \<open>
  \<open>tcp_server_thread_fn\<close> stores the accepted descriptor in a \<open>char\<close>: below 128 it is handed
  on unchanged, from 128 to 255 the accepted connection is treated as an error and never served nor
  closed, and descriptor \<open>256 + k\<close> is served as descriptor \<open>k\<close>, another connection.
\<close>

theorem accept_truncates_descriptor:
  "accept_client fd ip p =
     (if fd mod 256 < 128 then Some \<lparr>conn_fd = fd mod 256, ipv4 = ip, cport = p\<rparr> else None)"
proof -
  let ?r = "fd mod 256"
  have r: "0 \<le> ?r" "?r < 256" by simp_all
  have "accepted_fd fd = (fd + 128) mod 256 - 128"
    by (simp add: accepted_fd_def signed_of_int signed_take_bit_eq_take_bit_shift take_bit_eq_mod)
  also have "(fd + 128) mod 256 = (?r + 128) mod 256" by (simp add: mod_simps)
  also have "\<dots> = (if ?r < 128 then ?r + 128 else ?r - 128)"
  proof (cases "?r < 128")
    case True
    then have "(?r + 128) mod 256 = ?r + 128" using r by (intro mod_pos_pos_trivial) auto
    with True show ?thesis by simp
  next
    case False
    have "(?r + 128) mod 256 = (?r - 128 + 256) mod 256" by (rule arg_cong [where f = "\<lambda>x. x mod 256"]) simp
    also have "\<dots> = (?r - 128) mod 256" by (rule mod_add_self2)
    also have "\<dots> = ?r - 128" using r False by (intro mod_pos_pos_trivial) auto
    finally show ?thesis using False by simp
  qed
  finally have "accepted_fd fd = (if ?r < 128 then ?r else ?r - 256)" by simp
  then show ?thesis using r by (simp add: accept_client_def)
qed

end
