(* ===== verification/ServerMain.thy ===== *)
theory ServerMain
  imports Getopt ServerRun TasksQueue
begin

text \<open>
  \<open>server/main.c\<close> and the start of \<open>server/server.c\<close>: the options, the log file, the database, and the
  threads. What the system answers is a parameter (\<open>start_env\<close>). The messages that are logged are left
  out, and so is everything after the threads run, which the other theories model.
\<close>

section \<open>Options\<close>

definition DEFAULT_PORT :: string where "DEFAULT_PORT = ''58078''"
definition LOG_NORMAL :: nat where "LOG_NORMAL = 0"
definition LOG_VERBOSE :: nat where "LOG_VERBOSE = 1"
definition LOG_DEBUG :: nat where "LOG_DEBUG = 2"

lemmas log_levels = LOG_NORMAL_def LOG_VERBOSE_def LOG_DEBUG_def

record server_args =
  g_level :: nat
  as_port :: string
  log_file :: "string option"

definition default_args :: server_args where
  "default_args = \<lparr>g_level = LOG_NORMAL, as_port = DEFAULT_PORT, log_file = None\<rparr>"

text \<open>A part of the program that may call \<open>exit\<close>.\<close>

datatype 'a run = Exit int | Goes_on 'a

function server_options :: "getopt_state \<Rightarrow> server_args \<Rightarrow> server_args run" where
  "server_options st a =
     (case getopt ''hdvp:o:'' st of
        (No_more, _) \<Rightarrow> Goes_on a
      | (Bad_option, _) \<Rightarrow> Exit 1
      | (Option opt optarg, st') \<Rightarrow>
          if opt = CHR ''h'' then Exit 0
          else if opt = CHR ''v'' then
            server_options st' (if g_level a = LOG_NORMAL then a\<lparr>g_level := LOG_VERBOSE\<rparr> else a)
          else if opt = CHR ''d'' then server_options st' (a\<lparr>g_level := LOG_DEBUG\<rparr>)
          else if opt = CHR ''p'' then
            server_options st' (if is_valid_port (the optarg) then a\<lparr>as_port := the optarg\<rparr> else a)
          else if opt = CHR ''o'' then server_options st' (a\<lparr>log_file := optarg\<rparr>)
          else Exit 1)"
  by pat_completeness auto
termination
  by (relation "measure (\<lambda>(st, a). state_size st)") (auto dest: getopt_shrinks [OF sym])

declare server_options.simps [simp del]

section \<open>Starting the server\<close>

record start_env =
  log_opens :: "string \<Rightarrow> bool"
  dup2_works :: "nat \<Rightarrow> bool"
  sigpipe_ignored :: bool
  queue_made :: bool
  thread_made :: "nat \<Rightarrow> bool"
  socket_made :: bool
  port_bound :: "int \<Rightarrow> bool"
  listens :: bool

datatype server_thread = Worker nat | Udp_server string | Tcp_server string

fun launch_workers :: "start_env \<Rightarrow> nat \<Rightarrow> nat \<Rightarrow> server_thread list run" where
  "launch_workers os i 0 = Goes_on []"
| "launch_workers os i (Suc n) =
     (if \<not> thread_made os i then Exit 1
      else case launch_workers os (i + 1) n of Exit k \<Rightarrow> Exit k | Goes_on ts \<Rightarrow> Goes_on (Worker i # ts))"

text \<open>The threads in the order they are created, and the database they work on.\<close>

definition server :: "start_env \<Rightarrow> fsys \<Rightarrow> string \<Rightarrow> (server_thread list \<times> db) run" where
  "server os cwd port =
     (case init_database cwd of
        None \<Rightarrow> Exit 1
      | Some (rc, d) \<Rightarrow>
     if rc \<noteq> 0 then Exit 1
     else if \<not> sigpipe_ignored os then Exit 1
     else if \<not> queue_made os then Exit 1
     else case launch_workers os 0 THREAD_POOL_SZ of
        Exit k \<Rightarrow> Exit k
      | Goes_on pool \<Rightarrow>
     if \<not> thread_made os THREAD_POOL_SZ then Exit 1
     else if \<not> thread_made os (THREAD_POOL_SZ + 1) then Exit 1
     else Goes_on (pool @ [Udp_server port, Tcp_server port], d))"

definition redirect_log :: "start_env \<Rightarrow> string option \<Rightarrow> bool" where
  "redirect_log os log =
     (case log of
        None \<Rightarrow> True
      | Some f \<Rightarrow> if \<not> log_opens os f then False else if \<not> dup2_works os 1 then False else dup2_works os 2)"

definition server_main :: "start_env \<Rightarrow> fsys \<Rightarrow> string list \<Rightarrow> (nat \<times> server_thread list \<times> db) run" where
  "server_main os cwd argv =
     (case server_options ([], argv) default_args of
        Exit k \<Rightarrow> Exit k
      | Goes_on a \<Rightarrow>
     if \<not> redirect_log os (log_file a) then Exit 1
     else case server os cwd (as_port a) of
        Exit k \<Rightarrow> Exit k
      | Goes_on (ts, d) \<Rightarrow> Goes_on (g_level a, ts, d))"

text \<open>The two listening threads take the port number from the text; \<open>htons\<close> keeps sixteen bits.\<close>

definition udp_socket :: "start_env \<Rightarrow> string \<Rightarrow> int run" where
  "udp_socket os port =
     (let sin_port = atoi port mod 65536
      in if \<not> socket_made os then Exit 1 else if \<not> port_bound os sin_port then Exit 1 else Goes_on sin_port)"

definition tcp_socket :: "start_env \<Rightarrow> string \<Rightarrow> int run" where
  "tcp_socket os port =
     (let sin_port = atoi port mod 65536
      in if \<not> socket_made os then Exit 1 else if \<not> port_bound os sin_port then Exit 1
         else if \<not> listens os then Exit 1 else Goes_on sin_port)"

section \<open>What a command line means\<close>

text \<open>The last valid port, the highest log level, the last log file.\<close>

definition ports :: "option_result list \<Rightarrow> string list" where
  "ports opts = [p. Option c (Some p) \<leftarrow> opts, c = CHR ''p'' \<and> is_valid_port p]"

definition logs :: "option_result list \<Rightarrow> string option list" where
  "logs opts = [Some f. Option c (Some f) \<leftarrow> opts, c = CHR ''o'']"

definition chosen_port :: "option_result list \<Rightarrow> string" where
  "chosen_port opts = last (DEFAULT_PORT # ports opts)"

definition chosen_level :: "option_result list \<Rightarrow> nat" where
  "chosen_level opts = (if Option CHR ''d'' None \<in> set opts then LOG_DEBUG
     else if Option CHR ''v'' None \<in> set opts then LOG_VERBOSE else LOG_NORMAL)"

definition chosen_log :: "option_result list \<Rightarrow> string option" where
  "chosen_log opts = last (None # logs opts)"

lemma chosen_port_valid: "is_valid_port (chosen_port opts)"
proof -
  have d: "is_valid_port DEFAULT_PORT" by code_simp
  have "is_valid_port p" if "p \<in> set (ports opts)" for p using that by (auto simp: ports_def)
  then show ?thesis using d last_in_set [of "ports opts"] by (auto simp: chosen_port_def)
qed

lemma server_letters:
  "takes_argument ''hdvp:o:'' c = Some False \<longleftrightarrow> c \<in> {CHR ''h'', CHR ''d'', CHR ''v''}"
  "takes_argument ''hdvp:o:'' c = Some True \<longleftrightarrow> c \<in> {CHR ''p'', CHR ''o''}"
  by (auto simp: takes_argument_def)

lemma server_options_meaning:
  assumes "getopt_all ''hdvp:o:'' st = opts @ [No_more]"
    "\<forall>r \<in> set opts. \<exists>c arg. r = Option c arg \<and> takes_argument ''hdvp:o:'' c = Some (arg \<noteq> None)"
  shows "server_options st a =
     (if Option CHR ''h'' None \<in> set opts then Exit 0
      else Goes_on \<lparr>g_level = (if Option CHR ''d'' None \<in> set opts then LOG_DEBUG
                              else if Option CHR ''v'' None \<in> set opts \<and> g_level a = LOG_NORMAL then LOG_VERBOSE
                              else g_level a),
                    as_port = last (as_port a # ports opts), log_file = last (log_file a # logs opts)\<rparr>)"
  using assms
proof (induction opts arbitrary: st a)
  case Nil
  then obtain st' where "getopt ''hdvp:o:'' st = (No_more, st')"
    using getopt_all_done [of "''hdvp:o:''" st] by (cases "getopt ''hdvp:o:'' st") auto
  then show ?case by (simp add: server_options.simps [of st] ports_def logs_def)
next
  case (Cons r opts)
  obtain c arg where r: "r = Option c arg" "takes_argument ''hdvp:o:'' c = Some (arg \<noteq> None)" using Cons.prems(2) by auto
  obtain st' where st': "getopt ''hdvp:o:'' st = (Option c arg, st')" "getopt_all ''hdvp:o:'' st' = opts @ [No_more]"
    using Cons.prems(1) r(1) by (auto elim: getopt_all_cons)
  have known: "\<forall>r \<in> set opts. \<exists>c arg. r = Option c arg \<and> takes_argument ''hdvp:o:'' c = Some (arg \<noteq> None)"
    using Cons.prems(2) by simp
  note IH = Cons.IH [OF st'(2) known]
  show ?case
  proof (cases arg)
    case None
    then consider "c = CHR ''h''" | "c = CHR ''d''" | "c = CHR ''v''" using r(2) server_letters(1) [of c] by auto
    then show ?thesis
      by cases (simp_all add: None server_options.simps [of st] st'(1) IH r(1) ports_def logs_def log_levels)
  next
    case (Some x)
    then consider "c = CHR ''p''" | "c = CHR ''o''" using r(2) server_letters(2) [of c] by auto
    then show ?thesis
      by cases (simp_all add: Some server_options.simps [of st] st'(1) IH r(1) ports_def logs_def log_levels)
  qed
qed

lemma launch_all: "(\<forall>k < n. thread_made os (i + k)) \<Longrightarrow> launch_workers os i n = Goes_on (map Worker [i..<i + n])"
proof (induction n arbitrary: i)
  case (Suc n)
  have "\<forall>k < n. thread_made os (i + 1 + k)" using Suc.prems by (metis Suc_mono add.assoc add.commute plus_1_eq_Suc)
  moreover have "thread_made os i" using Suc.prems by (metis add.right_neutral zero_less_Suc)
  ultimately show ?case using Suc.IH [of "i + 1"] by (simp add: upt_conv_Cons)
qed simp

lemma launch_fails: "\<not> (\<forall>k < n. thread_made os (i + k)) \<Longrightarrow> launch_workers os i n = Exit 1"
proof (induction n arbitrary: i)
  case (Suc n)
  show ?case
  proof (cases "thread_made os i")
    case True
    obtain k where "k < Suc n" "\<not> thread_made os (i + k)" using Suc.prems by blast
    with True have "k - 1 < n \<and> \<not> thread_made os (i + 1 + (k - 1))" by (cases k) auto
    then have "launch_workers os (i + 1) n = Exit 1" using Suc.IH [of "i + 1"] by blast
    then show ?thesis using True by simp
  qed simp
qed simp

text \<open>Everything the system must do for the server to start.\<close>

definition system_ready :: "start_env \<Rightarrow> string option \<Rightarrow> bool" where
  "system_ready os log \<longleftrightarrow> redirect_log os log \<and> sigpipe_ignored os \<and> queue_made os
     \<and> (\<forall>k < THREAD_POOL_SZ + 2. thread_made os k)"

lemma server_starts:
  assumes "init_database cwd = Some (0, d)"
  shows "server os cwd port =
     (if sigpipe_ignored os \<and> queue_made os \<and> (\<forall>k < THREAD_POOL_SZ + 2. thread_made os k)
      then Goes_on (map Worker [0..<THREAD_POOL_SZ] @ [Udp_server port, Tcp_server port], d) else Exit 1)"
proof -
  have split: "(\<forall>k < THREAD_POOL_SZ + 2. thread_made os k)
      \<longleftrightarrow> (\<forall>k < THREAD_POOL_SZ. thread_made os (0 + k)) \<and> thread_made os THREAD_POOL_SZ \<and> thread_made os (THREAD_POOL_SZ + 1)"
    by (auto simp: less_Suc_eq numeral_2_eq_2)
  show ?thesis
  proof (cases "\<forall>k < THREAD_POOL_SZ. thread_made os (0 + k)")
    case True
    then show ?thesis unfolding split server_def assms launch_all [OF True] by simp
  next
    case False
    then show ?thesis unfolding split server_def assms launch_fails [OF False] by simp
  qed
qed

lemma listening_sockets:
  assumes "is_valid_port p" "socket_made os" "\<forall>n. port_bound os n" "listens os"
  shows "udp_socket os p = Goes_on (atoi p) \<and> tcp_socket os p = Goes_on (atoi p)"
  using assms by (simp add: udp_socket_def tcp_socket_def is_valid_port_def Let_def)

text \<open>
  C16. The server starts as its command line says. However the options are written (clusters of flags,
  arguments attached or in the next word, operands between them, anything behind \<open>--\<close>), the program ends
  with 0 when \<open>-h\<close> is among them, with 1 when the system refuses something, and otherwise runs thirty
  workers and the two listening threads on the restored database, at the highest log level asked for,
  on the last valid port given or else 58078, which both sockets are bound to unchanged.
\<close>

theorem server_main_starts:
  assumes "\<forall>w \<in> set ws. well_written ''hdvp:o:'' w" "rest = [] \<or> hd rest = ''--''" "init_database cwd = Some (0, d)"
  shows "server_main os cwd (concat (map written ws) @ rest) =
     (let opts = concat (map meant ws); p = chosen_port opts
      in if Option CHR ''h'' None \<in> set opts then Exit 0
         else if system_ready os (chosen_log opts)
         then Goes_on (chosen_level opts, map Worker [0..<THREAD_POOL_SZ] @ [Udp_server p, Tcp_server p], d)
         else Exit 1)
     \<and> (socket_made os \<and> (\<forall>n. port_bound os n) \<and> listens os \<longrightarrow>
          (let p = chosen_port (concat (map meant ws)) in udp_socket os p = Goes_on (atoi p) \<and> tcp_socket os p = Goes_on (atoi p)))"
proof -
  let ?opts = "concat (map meant ws)"
  have all: "getopt_all ''hdvp:o:'' ([], concat (map written ws) @ rest) = ?opts @ [No_more]"
    using assms(1,2) by (intro getopt_reads_back) (auto simp: takes_argument_def)
  have known: "\<forall>r \<in> set ?opts. \<exists>c arg. r = Option c arg \<and> takes_argument ''hdvp:o:'' c = Some (arg \<noteq> None)"
    using assms(1) meant_known by fastforce
  have o: "server_options ([], concat (map written ws) @ rest) default_args =
     (if Option CHR ''h'' None \<in> set ?opts then Exit 0
      else Goes_on \<lparr>g_level = chosen_level ?opts, as_port = chosen_port ?opts, log_file = chosen_log ?opts\<rparr>)"
    using server_options_meaning [OF all known, of default_args]
    by (simp add: default_args_def chosen_level_def chosen_port_def chosen_log_def)
  have "server_main os cwd (concat (map written ws) @ rest) =
     (if Option CHR ''h'' None \<in> set ?opts then Exit 0
         else if system_ready os (chosen_log ?opts)
         then Goes_on (chosen_level ?opts, map Worker [0..<THREAD_POOL_SZ] @ [Udp_server (chosen_port ?opts), Tcp_server (chosen_port ?opts)], d)
         else Exit 1)"
    by (auto simp: server_main_def o system_ready_def server_starts [OF assms(3)])
  then show ?thesis using listening_sockets [OF chosen_port_valid, of os ?opts] by (simp add: Let_def)
qed

definition willing :: start_env where
  "willing = \<lparr>log_opens = (\<lambda>_. True), dup2_works = (\<lambda>_. True), sigpipe_ignored = True, queue_made = True,
     thread_made = (\<lambda>_. True), socket_made = True, port_bound = (\<lambda>_. True), listens = True\<rparr>"

theorem server_main_starts_witness:
  "server_main willing \<lparr>nodes = [], denied = [], full = False\<rparr> [''-vp58000'', ''x'', ''-p'', ''99999'', ''-do'', ''log'', ''--'', ''-h'']
     = Goes_on (LOG_DEBUG, map Worker [0..<THREAD_POOL_SZ] @ [Udp_server ''58000'', Tcp_server ''58000''], empty_db)"
proof -
  let ?ws = "[Valued ''v'' CHR ''p'' ''58000'' True, Operand ''x'', Valued [] CHR ''p'' ''99999'' False, Valued ''d'' CHR ''o'' ''log'' False]"
  have "\<forall>w \<in> set ?ws. well_written ''hdvp:o:'' w" by (simp add: takes_argument_def operand_def)
  moreover have "is_valid_port ''58000''" "\<not> is_valid_port ''99999''" by code_simp+
  ultimately show ?thesis
    using server_main_starts [OF _ _ first_start, of ?ws "[''--'', ''-h'']" willing]
    by (simp add: chosen_port_def ports_def chosen_level_def chosen_log_def logs_def system_ready_def redirect_log_def willing_def Let_def)
qed

end
