(* ===== verification/ClientState.thy ===== *)
theory ClientState
  imports NetIO Validators
begin

text \<open>
  What all commands of the client share: the client state of \<open>client/client.h\<close>, the error codes of
  \<open>client/command_table.h\<close>, and the exchange of one datagram with the server, \<open>send_udp_request\<close> and
  \<open>receive_udp_response\<close> of \<open>client/udp.c\<close>. The handlers of the client have the names of the handlers of
  the server; in the model they carry the suffix \<open>_c\<close>.
\<close>

section \<open>The state of the client\<close>

text \<open>
  The two credentials are arrays of 7 and 9 bytes that hold arbitrary bytes until the first login, and
  are never zero-terminated by the program. The socket and the address of the server are part of the
  network, below.
\<close>

record client_state =
  logged_in :: bool
  c_uid :: "char list"
  c_passwd :: "char list"

text \<open>\<open>memcpy\<close> of the first \<open>n\<close> bytes, and the conversion \<open>%.ns\<close>, which reads at most \<open>n\<close> bytes.\<close>

definition memcpy :: "nat \<Rightarrow> string \<Rightarrow> char list \<Rightarrow> char list" where
  "memcpy n src dst = take n src @ drop n dst"

definition fmt_prec :: "nat \<Rightarrow> char list \<Rightarrow> string" where
  "fmt_prec n arr = cstr (take n arr)"

section \<open>Error codes\<close>

definition MAX_FSIZE :: int where "MAX_FSIZE = 10000000"
definition MAX_SERVER_RESPONSE :: nat where "MAX_SERVER_RESPONSE = 65535"

definition UDP_ERR_NO_LF_MESSAGE :: int where "UDP_ERR_NO_LF_MESSAGE = 2"

definition ERR_TIMEDOUT_UDP :: int where "ERR_TIMEDOUT_UDP = 1"
definition ERR_REQUESTING_UDP :: int where "ERR_REQUESTING_UDP = 2"
definition ERR_RECEIVING_UDP :: int where "ERR_RECEIVING_UDP = 3"
definition ERR_NULL_ARGS :: int where "ERR_NULL_ARGS = 4"
definition ERR_INVALID_UID :: int where "ERR_INVALID_UID = 5"
definition ERR_INVALID_PASSWD :: int where "ERR_INVALID_PASSWD = 6"
definition ERR_INVALID_AID :: int where "ERR_INVALID_AID = 7"
definition ERR_UNKNOWN_ANSWER :: int where "ERR_UNKNOWN_ANSWER = 8"
definition ERR_FILE_DOESNT_EXIST :: int where "ERR_FILE_DOESNT_EXIST = 9"
definition ERR_INVALID_ASSET_NAME :: int where "ERR_INVALID_ASSET_NAME = 10"
definition ERR_INVALID_ASSET_FNAME :: int where "ERR_INVALID_ASSET_FNAME = 11"
definition ERR_INVALID_SV :: int where "ERR_INVALID_SV = 12"
definition ERR_INVALID_TA :: int where "ERR_INVALID_TA = 13"
definition ERR_INVALID_ASSET_FILE :: int where "ERR_INVALID_ASSET_FILE = 14"
definition ERR_TCP_CONN_TO_SERVER :: int where "ERR_TCP_CONN_TO_SERVER = 15"
definition ERR_TIMEOUT_TCP :: int where "ERR_TIMEOUT_TCP = 16"
definition ERR_RECEIVING_TCP :: int where "ERR_RECEIVING_TCP = 17"
definition ERR_SENDING_TCP :: int where "ERR_SENDING_TCP = 18"
definition ERR_NOT_LOGGED_IN :: int where "ERR_NOT_LOGGED_IN = 19"
definition ERR_ALREADY_LOGGED_IN :: int where "ERR_ALREADY_LOGGED_IN = 20"
definition ERR_NOT_LOGGED_OUT :: int where "ERR_NOT_LOGGED_OUT = 21"
definition ERR_NO_COMMAND :: int where "ERR_NO_COMMAND = 22"
definition ERR_INVALID_COMMAND :: int where "ERR_INVALID_COMMAND = 23"
definition ERR_CREAT_ASSET_FILE :: int where "ERR_CREAT_ASSET_FILE = 24"
definition ERR_WRITE_ASSET_FILE :: int where "ERR_WRITE_ASSET_FILE = 25"
definition ERR_READ_ASSET_FILE :: int where "ERR_READ_ASSET_FILE = 26"
definition ERR_INVALID_BID_VAL :: int where "ERR_INVALID_BID_VAL = 27"
definition ERR_TCP_CLOSED_CONN :: int where "ERR_TCP_CLOSED_CONN = 28"

lemmas client_err_defs = ERR_TIMEDOUT_UDP_def ERR_REQUESTING_UDP_def ERR_RECEIVING_UDP_def ERR_NULL_ARGS_def
  ERR_INVALID_UID_def ERR_INVALID_PASSWD_def ERR_INVALID_AID_def ERR_UNKNOWN_ANSWER_def
  ERR_FILE_DOESNT_EXIST_def ERR_INVALID_ASSET_NAME_def ERR_INVALID_ASSET_FNAME_def ERR_INVALID_SV_def
  ERR_INVALID_TA_def ERR_INVALID_ASSET_FILE_def ERR_TCP_CONN_TO_SERVER_def ERR_TIMEOUT_TCP_def
  ERR_RECEIVING_TCP_def ERR_SENDING_TCP_def ERR_NOT_LOGGED_IN_def ERR_ALREADY_LOGGED_IN_def
  ERR_NOT_LOGGED_OUT_def ERR_NO_COMMAND_def ERR_INVALID_COMMAND_def ERR_CREAT_ASSET_FILE_def
  ERR_WRITE_ASSET_FILE_def ERR_READ_ASSET_FILE_def ERR_INVALID_BID_VAL_def ERR_TCP_CLOSED_CONN_def

text \<open>
  A handler returns an error code, or returns 0 with the text it wrote to \<open>response\<close>, or does not return
  because it calls \<open>exit(0)\<close>. What an erroneous call left in \<open>response\<close> is never read.
\<close>

datatype client_reply = Code int | Response string | Exits

section \<open>The UDP socket\<close>

text \<open>
  The network as the client sees it during one command: whether \<open>sendto\<close> fails, what the next
  \<open>recvfrom\<close> delivers after a request (nothing is assumed about it: a server's reply, a late or forged
  datagram, a time-out), and the value \<open>errno\<close> has from earlier calls.
\<close>

datatype udp_answer = Datagram string | RecvFails sock_errno

record udp_link =
  sendto_fails :: bool
  peer :: "string \<Rightarrow> udp_answer"
  stale_errno :: "sock_errno option"

definition send_udp_request :: "string \<Rightarrow> udp_link \<Rightarrow> int \<times> string list" where
  "send_udp_request message l = (if sendto_fails l then (- 1, []) else (0, [message]))"

text \<open>The answer with its error code, the bytes stored, and \<open>errno\<close> afterwards.\<close>

definition receive_udp_response :: "nat \<Rightarrow> udp_answer \<Rightarrow> udp_link \<Rightarrow> int \<times> string \<times> sock_errno option" where
  "receive_udp_response response_size answer l =
     (case answer of
        RecvFails e \<Rightarrow> (1, [], Some e)
      | Datagram dg \<Rightarrow>
          let buffer = take response_size dg; n = length buffer
          in if n = 0 then (1, [], stale_errno l)
             else if buffer ! (n - 1) \<noteq> LF then (UDP_ERR_NO_LF_MESSAGE, buffer, stale_errno l)
             else (0, buffer, stale_errno l))"

text \<open>
  The lines every handler repeats: send the request, receive into a zeroed buffer with room for a
  terminating zero, map the errors. The result is the buffer as a C string; the second component is what
  was sent.
\<close>

definition udp_exchange :: "string \<Rightarrow> nat \<Rightarrow> udp_link \<Rightarrow> (int + string) \<times> string list" where
  "udp_exchange request response_size l =
     (case send_udp_request request l of
        (rc, sent) \<Rightarrow>
     if rc \<noteq> 0 then (Inl ERR_REQUESTING_UDP, sent)
     else case receive_udp_response response_size (peer l request) l of
            (err, buffer, errno) \<Rightarrow>
     if err \<noteq> 0 then
       (if err = UDP_ERR_NO_LF_MESSAGE then (Inl ERR_UNKNOWN_ANSWER, sent)
        else if errno = Some EAGAIN then (Inl ERR_TIMEDOUT_UDP, sent)
        else (Inl ERR_RECEIVING_UDP, sent))
     else (Inr (cstr buffer), sent))"

lemma udp_exchange_answer:
  assumes "\<not> sendto_fails l" "peer l request = Datagram (msg @ [LF])" "length msg < m" "NUL \<notin> set msg"
  shows "udp_exchange request m l = (Inr (msg @ [LF]), [request])"
  using assms by (simp add: udp_exchange_def send_udp_request_def receive_udp_response_def cstr_no_nul Let_def)

lemma udp_exchange_cases:
  obtains code where "udp_exchange request m l = (Inl code, snd (udp_exchange request m l))"
      "code \<in> {ERR_TIMEDOUT_UDP, ERR_REQUESTING_UDP, ERR_RECEIVING_UDP, ERR_UNKNOWN_ANSWER}"
  | s where "udp_exchange request m l = (Inr s, [request])" "length s \<le> m" "NUL \<notin> set s"
proof (cases "udp_exchange request m l")
  case (Pair r sent)
  show ?thesis
  proof (cases r)
    case (Inl code)
    then have "code \<in> {ERR_TIMEDOUT_UDP, ERR_REQUESTING_UDP, ERR_RECEIVING_UDP, ERR_UNKNOWN_ANSWER}"
      using Pair by (auto simp: udp_exchange_def split: prod.splits if_splits)
    then show ?thesis using that(1) Pair Inl by simp
  next
    case (Inr s)
    have len: "length (cstr b) \<le> length b" for b :: string
      by (simp add: cstr_def length_takeWhile_le)
    obtain b where "s = cstr b" "length b \<le> m" "sent = [request]"
      using Pair Inr
      by (auto simp: udp_exchange_def send_udp_request_def receive_udp_response_def Let_def
        split: prod.splits if_splits udp_answer.splits)
    then show ?thesis using that(2) [of s] Pair Inr len [of b] by simp
  qed
qed

section \<open>The credentials of a logged-in client\<close>

definition client_ok :: "client_state \<Rightarrow> bool" where
  "client_ok c \<longleftrightarrow> length (c_uid c) = 7 \<and> length (c_passwd c) = 9
     \<and> (logged_in c \<longrightarrow> is_valid_uid (take 6 (c_uid c)) \<and> is_valid_passwd (take 8 (c_passwd c)))"

lemma fmt_prec_all [simp]: "NUL \<notin> set w \<Longrightarrow> length w \<le> n \<Longrightarrow> fmt_prec n w = w"
  by (simp add: fmt_prec_def cstr_no_nul)

lemma fmt_prec_array: "NUL \<notin> set (take n arr) \<Longrightarrow> fmt_prec n arr = take n arr"
  by (simp add: fmt_prec_def cstr_no_nul)

lemma fmt_prec_valid [simp]:
  "is_valid_uid u \<Longrightarrow> fmt_prec 6 u = u"
  "is_valid_passwd p \<Longrightarrow> fmt_prec 8 p = p"
  "is_valid_aid a \<Longrightarrow> fmt_prec 3 a = a"
  using valid_uid_clean valid_passwd_clean valid_aid_clean
  by (auto simp: is_valid_uid_iff is_valid_passwd_iff is_valid_aid_iff)

lemma client_okD:
  assumes "client_ok c" "logged_in c"
  shows "is_valid_uid (take 6 (c_uid c))" "is_valid_passwd (take 8 (c_passwd c))"
    "fmt_prec 6 (c_uid c) = take 6 (c_uid c)" "fmt_prec 8 (c_passwd c) = take 8 (c_passwd c)"
  using assms valid_uid_clean valid_passwd_clean by (auto simp: client_ok_def intro!: fmt_prec_array)

lemma take_memcpy [simp]: "length src = n \<Longrightarrow> take n (memcpy n src dst) = src"
  by (simp add: memcpy_def)

lemma length_memcpy [simp]: "length src = n \<Longrightarrow> n \<le> length dst \<Longrightarrow> length (memcpy n src dst) = length dst"
  by (simp add: memcpy_def)

end
