(* ===== verification/ClientTcp.thy ===== *)
theory ClientTcp
  imports ClientState TcpServer
begin

text \<open>
  The TCP commands of the client, \<open>client/tcp.c\<close>: \<open>open\<close>, \<open>close\<close>, \<open>showasset\<close> and \<open>bid\<close>. Each
  opens one connection, sends one request and reads one reply. None of them changes the client state.
\<close>

section \<open>The environment of a command\<close>

text \<open>
  \<open>dial\<close> is the connection \<open>open_tcp_connection_to_server\<close> gets (\<open>None\<close>: \<open>socket\<close>, \<open>setsockopt\<close> or
  \<open>connect\<close> failed), with what the server will send on it. The working directory of the client is a map
  from file names to contents; \<open>unreadable\<close> and \<open>uncreatable\<close> are the names whose \<open>open\<close> fails,
  \<open>file_rcaps\<close> and \<open>file_wcaps\<close> how \<open>read\<close> and \<open>write\<close> answer on a file, \<open>recv_garbage\<close> what the
  receive buffer holds initially.
\<close>

record client_io =
  dial :: "conn option"
  unreadable :: "string \<Rightarrow> bool"
  uncreatable :: "string \<Rightarrow> bool"
  file_rcaps :: "cap list"
  file_wcaps :: "cap list"
  recv_garbage :: mem

type_synonym disk = "string \<rightharpoonup> string"

type_synonym tcp_cmd_result = "(client_reply \<times> conn option \<times> disk) outcome"

definition open_tcp_connection_to_server :: "client_io \<Rightarrow> conn option" where
  "open_tcp_connection_to_server io = dial io"

section \<open>Shared steps\<close>

text \<open>
  The reading of one field: \<open>n\<close> bytes into a zeroed array of \<open>cells\<close> bytes, then the three error
  branches. The variable \<open>err\<close> these branches test is not always the result of the call, which
  \<open>err_seen\<close> records. The result is an error code or the field as a C string.
\<close>

definition read_field :: "(int \<Rightarrow> int) \<Rightarrow> nat \<Rightarrow> nat \<Rightarrow> conn \<Rightarrow> ((int + string) \<times> conn) outcome" where
  "read_field err_seen cells n c =
     bind_ok (read_tcp_stream (replicate cells NUL) n c) (\<lambda>(err, buff, c1).
     Inr (if err \<noteq> 0 then
            (if c_errno c1 = Some EAGAIN then (Inl ERR_TIMEOUT_TCP, c1)
             else if err_seen err = ERR_TCP_READ_CLOSED then (Inl ERR_TCP_CLOSED_CONN, c1)
             else (Inl ERR_RECEIVING_TCP, c1))
          else (Inr (cstr buff), c1)))"

text \<open>\<open>message\<close> in an array of \<open>cells\<close> zeroed bytes.\<close>

definition in_array :: "nat \<Rightarrow> string \<Rightarrow> char list" where
  "in_array cells message = message @ replicate (cells - length message) NUL"

definition send_error :: "sock_errno option \<Rightarrow> int" where
  "send_error errno = (if errno = Some EPIPE then ERR_TCP_CLOSED_CONN else ERR_SENDING_TCP)"

section \<open>open\<close>

definition determine_open_response_error :: "string \<Rightarrow> client_reply" where
  "determine_open_response_error status =
     (if status = ''ERR'' then Response (''Received an error message for the open command from the server'' @ [LF])
      else if status = ''NLG'' then Response (''User is not logged in'' @ [LF])
      else if status = ''NOK'' then Response (''Auction could not be started by the AS'' @ [LF])
      else Code ERR_UNKNOWN_ANSWER)"

text \<open>The reply: \<open>ROA\<close>, the status, the identifier, a line feed.\<close>

definition open_reply_c :: "conn \<Rightarrow> (client_reply \<times> conn) outcome" where
  "open_reply_c c =
     bind_ok (read_field id 8 4 c) (\<lambda>(command, c1).
     case command of
       Inl code \<Rightarrow> Inr (Code code, c1)
     | Inr command \<Rightarrow>
     if command \<noteq> ''ROA '' then Inr (Code ERR_UNKNOWN_ANSWER, c1)
     else bind_ok (read_field id 4 3 c1) (\<lambda>(status, c2).
     case status of
       Inl code \<Rightarrow> Inr (Code code, c2)
     | Inr status \<Rightarrow>
     if status \<noteq> ''OK '' then
       (case is_lf_in_stream c2 of (lf, c3) \<Rightarrow>
          if \<not> lf then Inr (Code ERR_UNKNOWN_ANSWER, c3) else Inr (determine_open_response_error status, c3))
     else bind_ok (read_field id 4 3 c2) (\<lambda>(aid_buff, c3).
     case aid_buff of
       Inl code \<Rightarrow> Inr (Code code, c3)
     | Inr aid_buff \<Rightarrow>
     case is_lf_in_stream c3 of (lf, c4) \<Rightarrow>
     if \<not> lf then Inr (Code ERR_UNKNOWN_ANSWER, c4)
     else case strtok [LF] aid_buff of
       (None, _) \<Rightarrow> Inr (Code ERR_UNKNOWN_ANSWER, c4)
     | (Some aid, _) \<Rightarrow>
     if \<not> is_valid_aid aid then Inr (Code ERR_UNKNOWN_ANSWER, c4)
     else Inr (Response (''Asset '' @ fmt_prec 3 aid @ '' successfully started by the AS'' @ [LF]), c4))))"

text \<open>
  The request, once the arguments are known. A \<open>read\<close> of the asset file that fails sets \<open>errno\<close> to a value
  other than \<open>EPIPE\<close>.
\<close>

definition open_exchange_c :: "client_io \<Rightarrow> string \<Rightarrow> string \<Rightarrow> conn \<Rightarrow> (client_reply \<times> conn) outcome" where
  "open_exchange_c io auction_info content c =
     (if length auction_info \<ge> 128 then Inl OutOfBounds
      else bind_ok (send_tcp_message (in_array 128 auction_info) (length auction_info) c) (\<lambda>(rc, c1).
      if rc \<noteq> 0 then Inr (Code (send_error (c_errno c1)), c1)
      else bind_ok (as_send_asset_file content (file_rcaps io) (int (length content)) c1) (\<lambda>(err, c2).
      if err \<noteq> 0 then
        (if err = ERR_READ_AF then Inr (Code ERR_READ_ASSET_FILE, c2)
         else Inr (Code (send_error (c_errno c2)), c2))
      else open_reply_c c2)))"

definition handle_open_c :: "client_io \<Rightarrow> string \<Rightarrow> client_state \<Rightarrow> disk \<Rightarrow> tcp_cmd_result" where
  "handle_open_c io input client files =
     (let fail = (\<lambda>code. Inr (Code code, None, files)) in
     if \<not> logged_in client then fail ERR_NOT_LOGGED_IN
     else case strtok [SP] input of
       (None, _) \<Rightarrow> fail ERR_NULL_ARGS
     | (Some name, r1) \<Rightarrow>
     if \<not> is_valid_name name then fail ERR_INVALID_ASSET_NAME
     else case strtok [SP] r1 of
       (None, _) \<Rightarrow> fail ERR_NULL_ARGS
     | (Some asset_fname, r2) \<Rightarrow>
     if \<not> is_valid_fname asset_fname then fail ERR_INVALID_ASSET_FNAME
     else case strtok [SP] r2 of
       (None, _) \<Rightarrow> fail ERR_NULL_ARGS
     | (Some start_value, r3) \<Rightarrow>
     if \<not> is_valid_start_value start_value then fail ERR_INVALID_SV
     else case strtok [SP] r3 of
       (None, _) \<Rightarrow> fail ERR_NULL_ARGS
     | (Some time_active, _) \<Rightarrow>
     if \<not> is_valid_time_active time_active then fail ERR_INVALID_TA
     else case files asset_fname of
       None \<Rightarrow> fail ERR_INVALID_ASSET_FILE
     | Some content \<Rightarrow>
     if int (length content) > MAX_FSIZE then fail ERR_INVALID_ASSET_FILE
     else if unreadable io asset_fname then fail ERR_INVALID_ASSET_FILE
     else case open_tcp_connection_to_server io of
       None \<Rightarrow> fail ERR_TCP_CONN_TO_SERVER
     | Some c \<Rightarrow>
     bind_ok (open_exchange_c io
         (''OPA '' @ fmt_prec 6 (c_uid client) @ '' '' @ fmt_prec 8 (c_passwd client) @ '' '' @ name @ '' ''
           @ fmt_d (atoi start_value) @ '' '' @ fmt_d (atoi time_active) @ '' '' @ asset_fname @ '' ''
           @ fmt_d (int (length content)) @ '' '') content c) (\<lambda>(r, c').
     Inr (r, Some c', files)))"

section \<open>close\<close>

definition determine_close_response_error :: "string \<Rightarrow> client_reply" where
  "determine_close_response_error status =
     (if status = ''ERR'' then Response (''Received an error message for close command from the server'' @ [LF])
      else if status = ''NLG'' then Response (''User is not logged in'' @ [LF])
      else if status = ''EAU'' then Response (''Auction with given UID does not exist'' @ [LF])
      else if status = ''EOW'' then Response (''Auction is not owned by the user'' @ [LF])
      else if status = ''END'' then Response (''Auction has already ended'' @ [LF])
      else if status = ''NOK'' then Response (''Auction could not be closed by the AS'' @ [LF])
      else Code ERR_UNKNOWN_ANSWER)"

text \<open>In \<open>err = read_tcp_stream(...) != 0\<close> the comparison is done first, so \<open>err\<close> is 0 or 1.\<close>

definition err_bool :: "int \<Rightarrow> int" where
  "err_bool e = (if e \<noteq> 0 then 1 else 0)"

definition close_reply_c :: "conn \<Rightarrow> (client_reply \<times> conn) outcome" where
  "close_reply_c c =
     bind_ok (read_field id 8 4 c) (\<lambda>(command, c1).
     case command of
       Inl code \<Rightarrow> Inr (Code code, c1)
     | Inr command \<Rightarrow>
     if command \<noteq> ''RCL '' then Inr (Code ERR_UNKNOWN_ANSWER, c1)
     else bind_ok (read_field err_bool 4 3 c1) (\<lambda>(status, c2).
     case status of
       Inl code \<Rightarrow> Inr (Code code, c2)
     | Inr status \<Rightarrow>
     if status \<noteq> ''OK'' @ [LF] then
       (case is_lf_in_stream c2 of (lf, c3) \<Rightarrow>
          if \<not> lf then Inr (Code ERR_UNKNOWN_ANSWER, c3) else Inr (determine_close_response_error status, c3))
     else Inr (Response (''Auction sucessfully closed by the AS!'' @ [LF]), c2)))"

definition handle_close_c :: "client_io \<Rightarrow> string \<Rightarrow> client_state \<Rightarrow> disk \<Rightarrow> tcp_cmd_result" where
  "handle_close_c io input client files =
     (let fail = (\<lambda>code. Inr (Code code, None, files)) in
     if \<not> logged_in client then fail ERR_NOT_LOGGED_IN
     else case strtok [SP] input of
       (None, _) \<Rightarrow> fail ERR_NULL_ARGS
     | (Some aid, _) \<Rightarrow>
     if \<not> is_valid_aid aid then fail ERR_INVALID_AID
     else case open_tcp_connection_to_server io of
       None \<Rightarrow> fail ERR_TCP_CONN_TO_SERVER
     | Some c \<Rightarrow>
     let request = ''CLS '' @ fmt_prec 6 (c_uid client) @ '' '' @ fmt_prec 8 (c_passwd client) @ '' ''
           @ fmt_prec 3 aid @ [LF]
     in if length request \<ge> 32 then Inl OutOfBounds
        else bind_ok (send_tcp_message (in_array 32 request) (length request) c) (\<lambda>(rc, c1).
        if rc \<noteq> 0 then Inr (Code (send_error (c_errno c1)), Some c1, files)
        else bind_ok (close_reply_c c1) (\<lambda>(r, c2). Inr (r, Some c2, files))))"

section \<open>showasset\<close>

definition determine_show_asset_response_error :: "string \<Rightarrow> client_reply" where
  "determine_show_asset_response_error status =
     (if status = ''ERR'' then Response (''Received an error message for the show asset command from the server'' @ [LF])
      else if status = ''NOK'' then
        Response (''AS could not deliver asset (it either doesn'' @ [CHR 0x27] @ ''t exist or an internal error occurred)'' @ [LF])
      else Code ERR_UNKNOWN_ANSWER)"

definition get_show_asset_arg_len :: "nat \<Rightarrow> nat" where
  "get_show_asset_arg_len argno = (if argno = 0 then FNAME_LEN else if argno = 1 then FSIZE_STR_LEN else 0)"

text \<open>
  The two arguments, read byte by byte up to a space each. \<open>args\<close> are the complete ones; \<open>args_buffer\<close>
  holds the bytes of the current one, of which \<open>strcpy\<close> copies the part before a zero byte.
\<close>

function asset_args_loop :: "string list \<Rightarrow> string \<Rightarrow> conn \<Rightarrow> (int + string list) \<times> conn" where
  "asset_args_loop args args_buffer c =
     (if length args < 2 then
        (case recv 1 c of
           (Inl _, c') \<Rightarrow> (Inl (if c_errno c' = Some EAGAIN then ERR_TIMEOUT_TCP else ERR_RECEIVING_TCP), c')
         | (Inr bs, c') \<Rightarrow>
             if bs = [] then (Inl (if c_errno c' = Some EAGAIN then ERR_TIMEOUT_TCP else ERR_RECEIVING_TCP), c')
             else if length args_buffer + length bs - 1 > get_show_asset_arg_len (length args) then
               (Inl ERR_UNKNOWN_ANSWER, c')
             else if hd bs = SP then asset_args_loop (args @ [cstr args_buffer]) [] c'
             else asset_args_loop args (args_buffer @ bs) c')
      else (Inr args, c))"
  by pat_completeness auto
termination
proof (relation "measure (\<lambda>(args, args_buffer, c). length (concat (rx c)))", goal_cases)
  case 1
  show ?case by simp
next
  case (2 args buf c x c' bs)
  then have "recv 1 c = (Inr bs, c')" by simp
  then have "length (concat (rx c)) = length bs + length (concat (rx c'))"
    using recv_consumes [of 1 c bs c'] by (metis length_append)
  with 2 show ?case by (simp add: length_greater_0_conv [symmetric] del: length_greater_0_conv)
next
  case (3 args buf c x c' bs)
  then have "recv 1 c = (Inr bs, c')" by simp
  then have "length (concat (rx c)) = length bs + length (concat (rx c'))"
    using recv_consumes [of 1 c bs c'] by (metis length_append)
  with 3 show ?case by (simp add: length_greater_0_conv [symmetric] del: length_greater_0_conv)
qed

declare asset_args_loop.simps [simp del]

text \<open>
  The download. The file is created and truncated before the first byte arrives, and keeps what was written
  when the transfer fails. A \<open>write\<close> that fails sets \<open>errno\<close> to a value other than \<open>EAGAIN\<close>.
\<close>

definition download_c :: "client_io \<Rightarrow> string \<Rightarrow> string \<Rightarrow> int \<Rightarrow> conn \<Rightarrow> disk \<Rightarrow> (client_reply \<times> conn \<times> disk) outcome" where
  "download_c io aid fname fsize c files =
     (if uncreatable io fname then Inr (Code ERR_CREAT_ASSET_FILE, c, files)
      else bind_ok (as_recv_asset_file (recv_garbage io) (file_wcaps io) fsize c) (\<lambda>(err, content, c1).
      let files' = files(fname \<mapsto> content)
      in if err \<noteq> 0 then
           (if err \<noteq> ERR_WRITE_AF \<and> c_errno c1 = Some EAGAIN then Inr (Code ERR_TIMEOUT_TCP, c1, files')
            else if err = ERR_TCP_READ_CLOSED then Inr (Code ERR_TCP_CLOSED_CONN, c1, files')
            else if err = ERR_TCP_READ then Inr (Code ERR_RECEIVING_TCP, c1, files')
            else if err = ERR_INVALID_PROTOCOL then Inr (Code ERR_UNKNOWN_ANSWER, c1, files')
            else if err = ERR_WRITE_AF then Inr (Code ERR_WRITE_ASSET_FILE, c1, files')
            else Inr (Response (''Successfully retrieved auction '' @ fmt_prec 3 aid @ '' asset '' @ fname @ '' of size ''
                  @ fmt_d fsize @ [LF]), c1, files'))
         else Inr (Response (''Successfully retrieved auction '' @ fmt_prec 3 aid @ '' asset '' @ fname @ '' of size ''
                  @ fmt_d fsize @ [LF]), c1, files')))"

definition show_asset_reply_c :: "client_io \<Rightarrow> string \<Rightarrow> conn \<Rightarrow> disk \<Rightarrow> (client_reply \<times> conn \<times> disk) outcome" where
  "show_asset_reply_c io aid c files =
     bind_ok (read_field err_bool 8 4 c) (\<lambda>(command, c1).
     case command of
       Inl code \<Rightarrow> Inr (Code code, c1, files)
     | Inr command \<Rightarrow>
     if command \<noteq> ''RSA '' then Inr (Code ERR_UNKNOWN_ANSWER, c1, files)
     else bind_ok (read_field (\<lambda>_. 0) 4 3 c1) (\<lambda>(status, c2).
     case status of
       Inl code \<Rightarrow> Inr (Code code, c2, files)
     | Inr status \<Rightarrow>
     if status \<noteq> ''OK '' then
       (case is_lf_in_stream c2 of (lf, c3) \<Rightarrow>
          if \<not> lf then Inr (Code ERR_UNKNOWN_ANSWER, c3, files)
          else Inr (determine_show_asset_response_error status, c3, files))
     else case asset_args_loop [] [] c2 of
       (Inl code, c3) \<Rightarrow> Inr (Code code, c3, files)
     | (Inr args, c3) \<Rightarrow>
     if \<not> is_valid_fname (args ! 0) then Inr (Code ERR_UNKNOWN_ANSWER, c3, files)
     else if \<not> is_valid_fname (args ! 1) then Inr (Code ERR_UNKNOWN_ANSWER, c3, files)
     else let fsize = atoi (args ! 1)
          in if fsize > 10000000 then Inr (Code ERR_UNKNOWN_ANSWER, c3, files)
             else download_c io aid (args ! 0) fsize c3 files))"

definition handle_show_asset_c :: "client_io \<Rightarrow> string \<Rightarrow> client_state \<Rightarrow> disk \<Rightarrow> tcp_cmd_result" where
  "handle_show_asset_c io input client files =
     (let fail = (\<lambda>code. Inr (Code code, None, files)) in
     case strtok [SP] input of
       (None, _) \<Rightarrow> fail ERR_NULL_ARGS
     | (Some aid, _) \<Rightarrow>
     if \<not> is_valid_aid aid then fail ERR_INVALID_AID
     else case open_tcp_connection_to_server io of
       None \<Rightarrow> fail ERR_TCP_CONN_TO_SERVER
     | Some c \<Rightarrow>
     bind_ok (send_str (''SAS '' @ fmt_prec 3 aid @ [LF]) c) (\<lambda>(rc, c1).
     if rc \<noteq> 0 then Inr (Code (send_error (c_errno c1)), Some c1, files)
     else bind_ok (show_asset_reply_c io aid c1 files) (\<lambda>(r, c2, files'). Inr (r, Some c2, files'))))"

section \<open>bid\<close>

definition determine_bid_response_error :: "string \<Rightarrow> client_reply" where
  "determine_bid_response_error status =
     (if status = ''ERR'' @ [LF] then
        Response (''Received an error message for bid command from the server (auction might not exist or ''
          @ ''client parameters might be badly formatted!)'' @ [LF])
      else if status = ''NLG'' @ [LF] then Response (''User is not logged in'' @ [LF])
      else if status = ''ILG'' @ [LF] then Response (''User cannot bid on an auction hosted by himself'' @ [LF])
      else if status = ''REF'' @ [LF] then Response (''The bid amound is too low'' @ [LF])
      else if status = ''NOK'' @ [LF] then Response (''The auction is not active'' @ [LF])
      else Code ERR_UNKNOWN_ANSWER)"

definition bid_reply_c :: "string \<Rightarrow> string \<Rightarrow> conn \<Rightarrow> (client_reply \<times> conn) outcome" where
  "bid_reply_c aid bid_text c =
     bind_ok (read_field id 8 4 c) (\<lambda>(command, c1).
     case command of
       Inl code \<Rightarrow> Inr (Code code, c1)
     | Inr command \<Rightarrow>
     if command \<noteq> ''RBD '' then Inr (Code ERR_UNKNOWN_ANSWER, c1)
     else bind_ok (read_field id 8 4 c1) (\<lambda>(status, c2).
     case status of
       Inl code \<Rightarrow> Inr (Code code, c2)
     | Inr status \<Rightarrow>
     if status \<noteq> ''ACC'' @ [LF] then Inr (determine_bid_response_error status, c2)
     else Inr (Response (''Sucessfully bidded '' @ bid_text @ '' on auction '' @ aid @ [LF]), c2)))"

definition handle_bid_c :: "client_io \<Rightarrow> string \<Rightarrow> client_state \<Rightarrow> disk \<Rightarrow> tcp_cmd_result" where
  "handle_bid_c io input client files =
     (let fail = (\<lambda>code. Inr (Code code, None, files)) in
     if \<not> logged_in client then fail ERR_NOT_LOGGED_IN
     else case strtok [SP] input of
       (None, _) \<Rightarrow> fail ERR_NULL_ARGS
     | (Some aid, r) \<Rightarrow>
     if \<not> is_valid_aid aid then fail ERR_INVALID_AID
     else case strtok [LF] r of
       (None, _) \<Rightarrow> fail ERR_NULL_ARGS
     | (Some bid_text, _) \<Rightarrow>
     if \<not> is_valid_start_value bid_text then fail ERR_INVALID_BID_VAL
     else case open_tcp_connection_to_server io of
       None \<Rightarrow> fail ERR_TCP_CONN_TO_SERVER
     | Some c \<Rightarrow>
     let bid_value = atoi bid_text;
         request = ''BID '' @ fmt_prec 6 (c_uid client) @ '' '' @ fmt_prec 8 (c_passwd client) @ '' ''
           @ fmt_prec 3 aid @ '' '' @ fmt_d bid_value @ [LF]
     in if length request \<ge> 64 then Inl OutOfBounds
        else bind_ok (send_str request c) (\<lambda>(rc, c1).
        if rc \<noteq> 0 then Inr (Code (send_error (c_errno c1)), Some c1, files)
        else bind_ok (bid_reply_c aid bid_text c1) (\<lambda>(r, c2). Inr (r, Some c2, files))))"

end
