(* ===== verification/ClientAccounts.thy ===== *)
theory ClientAccounts
  imports ClientState UdpServer
begin

text \<open>
  The account commands of the client, \<open>login\<close>, \<open>logout\<close>, \<open>unregister\<close> and \<open>exit\<close> of
  \<open>client/udp.c\<close>. A handler gets the rest of the command line; it returns its reply, the client state
  and the datagrams it sent. The second half composes them with the server's \<open>udp_round\<close>.
\<close>

type_synonym udp_cmd_result = "client_reply \<times> client_state \<times> string list"

section \<open>Handlers\<close>

definition handle_login_c :: "udp_link \<Rightarrow> string \<Rightarrow> client_state \<Rightarrow> udp_cmd_result" where
  "handle_login_c l input client =
     (if logged_in client then (Code ERR_ALREADY_LOGGED_IN, client, [])
      else case strtok [SP] input of
        (None, _) \<Rightarrow> (Code ERR_NULL_ARGS, client, [])
      | (Some uid, r) \<Rightarrow>
     if \<not> is_valid_uid uid then (Code ERR_INVALID_UID, client, [])
     else case strtok [SP] r of
        (None, _) \<Rightarrow> (Code ERR_NULL_ARGS, client, [])
      | (Some passwd, _) \<Rightarrow>
     if \<not> is_valid_passwd passwd then (Code ERR_INVALID_PASSWD, client, [])
     else case udp_exchange (''LIN '' @ fmt_prec 6 uid @ '' '' @ fmt_prec 8 passwd @ [LF]) 31 l of
        (Inl code, sent) \<Rightarrow> (Code code, client, sent)
      | (Inr buffer, sent) \<Rightarrow>
     let client' = client\<lparr>c_uid := memcpy UID_SIZE uid (c_uid client),
                         c_passwd := memcpy PASSWORD_SIZE passwd (c_passwd client), logged_in := True\<rparr>
     in if buffer = ''RLI ERR'' @ [LF] then
          (Response (''Server returned an error status for the login command'' @ [LF]), client, sent)
        else if buffer = ''RLI NOK'' @ [LF] then (Response (''Incorrect login attempt'' @ [LF]), client, sent)
        else if buffer = ''RLI REG'' @ [LF] then (Response (''New user registered'' @ [LF]), client', sent)
        else if buffer = ''RLI OK'' @ [LF] then (Response (''Successful login'' @ [LF]), client', sent)
        else (Code ERR_UNKNOWN_ANSWER, client, sent))"

definition handle_logout_c :: "udp_link \<Rightarrow> string \<Rightarrow> client_state \<Rightarrow> udp_cmd_result" where
  "handle_logout_c l input client =
     (if \<not> logged_in client then (Code ERR_NOT_LOGGED_IN, client, [])
      else case udp_exchange (''LOU '' @ fmt_prec 6 (c_uid client) @ '' '' @ fmt_prec 8 (c_passwd client) @ [LF]) 31 l of
        (Inl code, sent) \<Rightarrow> (Code code, client, sent)
      | (Inr buffer, sent) \<Rightarrow>
     if buffer = ''RLO ERR'' @ [LF] then
       (Response (''Server returned an error status for the logout command'' @ [LF]), client, sent)
     else if buffer = ''RLO NOK'' @ [LF] then (Response (''User not logged in'' @ [LF]), client, sent)
     else if buffer = ''RLO UNR'' @ [LF] then (Response (''Unknown user'' @ [LF]), client, sent)
     else if buffer = ''RLO OK'' @ [LF] then
       (Response (''Successful logout'' @ [LF]), client\<lparr>logged_in := False\<rparr>, sent)
     else (Code ERR_UNKNOWN_ANSWER, client, sent))"

definition handle_unregister_c :: "udp_link \<Rightarrow> string \<Rightarrow> client_state \<Rightarrow> udp_cmd_result" where
  "handle_unregister_c l input client =
     (if \<not> logged_in client then (Code ERR_NOT_LOGGED_IN, client, [])
      else case udp_exchange (''UNR '' @ fmt_prec 6 (c_uid client) @ '' '' @ fmt_prec 8 (c_passwd client) @ [LF]) 31 l of
        (Inl code, sent) \<Rightarrow> (Code code, client, sent)
      | (Inr buffer, sent) \<Rightarrow>
     if buffer = ''RUR ERR'' @ [LF] then
       (Response (''Server returned an error status for the unregister command'' @ [LF]), client, sent)
     else if buffer = ''RUR UNR'' @ [LF] then (Response (''Unknown user'' @ [LF]), client, sent)
     else if buffer = ''RUR NOK'' @ [LF] then (Response (''Incorrect unregister attempt'' @ [LF]), client, sent)
     else if buffer = ''RUR OK'' @ [LF] then
       (Response (''Successful unregister'' @ [LF]), client\<lparr>logged_in := False\<rparr>, sent)
     else (Code ERR_UNKNOWN_ANSWER, client, sent))"

definition handle_exit_c :: "udp_link \<Rightarrow> string \<Rightarrow> client_state \<Rightarrow> udp_cmd_result" where
  "handle_exit_c l input client =
     (if logged_in client then (Code ERR_NOT_LOGGED_OUT, client, []) else (Exits, client, []))"

section \<open>The invariant of the client state\<close>

lemma handle_login_c_ok:
  assumes "client_ok c" "handle_login_c l input c = (r, c', sent)"
  shows "client_ok c'"
proof -
  have "c' = c \<or> (\<exists>uid passwd. is_valid_uid uid \<and> is_valid_passwd passwd
      \<and> c' = c\<lparr>c_uid := memcpy 6 uid (c_uid c), c_passwd := memcpy 8 passwd (c_passwd c), logged_in := True\<rparr>)"
    using assms(2)
    by (auto simp: handle_login_c_def Let_def constants split: if_splits option.splits prod.splits sum.splits)
  then show ?thesis using assms(1) by (auto simp: client_ok_def is_valid_uid_iff is_valid_passwd_iff)
qed

lemma logged_out_cases:
  assumes "handle_logout_c l input c = (r, c', sent) \<or> handle_unregister_c l input c = (r, c', sent)"
  shows "c' = c \<or> c' = c\<lparr>logged_in := False\<rparr>"
  using assms by (auto simp: handle_logout_c_def handle_unregister_c_def split: if_splits prod.splits sum.splits)

lemma logged_out_ok: "client_ok c \<Longrightarrow> client_ok (c\<lparr>logged_in := False\<rparr>)"
  by (simp add: client_ok_def)

section \<open>The commands against the server\<close>

text \<open>
  A link that delivers the request to the server in state \<open>d\<close> at time \<open>now\<close> and its reply to the client.
  A server that crashes leaves the client waiting.
\<close>

definition server_peer :: "int \<Rightarrow> db \<Rightarrow> string \<Rightarrow> udp_answer" where
  "server_peer now d request =
     (case udp_round now request d of Inl _ \<Rightarrow> RecvFails EAGAIN | Inr (reply, _) \<Rightarrow> Datagram reply)"

definition linked :: "int \<Rightarrow> db \<Rightarrow> udp_link \<Rightarrow> bool" where
  "linked now d l \<longleftrightarrow> \<not> sendto_fails l \<and> peer l = server_peer now d"

definition link_to :: "int \<Rightarrow> db \<Rightarrow> udp_link" where
  "link_to now d = \<lparr>sendto_fails = False, peer = server_peer now d, stale_errno = None\<rparr>"

lemma linked_link_to [simp]: "linked now d (link_to now d)"
  by (simp add: linked_def link_to_def)

lemma udp_exchange_server:
  assumes "linked now d l" "udp_round now q d = Inr (msg @ [LF], d')" "length msg < m" "NUL \<notin> set msg"
  shows "udp_exchange q m l = (Inr (msg @ [LF]), [q])"
  using assms by (intro udp_exchange_answer) (auto simp: linked_def server_peer_def)

lemma account_exchange:
  assumes l: "linked now d l" and d: "users_inv d" and v: "is_valid_uid u" "is_valid_passwd pw"
  shows "\<exists>d'. udp_exchange (account_request k u pw) 31 l = (Inr (fst (account_spec k u pw (user_view d))), [account_request k u pw])
     \<and> udp_round now (account_request k u pw) d = Inr (fst (account_spec k u pw (user_view d)), d')
     \<and> users_inv d' \<and> user_view d' = snd (account_spec k u pw (user_view d))"
proof -
  obtain d' where r: "udp_round now (account_request k u pw) d = Inr (fst (account_spec k u pw (user_view d)), d')"
    and d': "users_inv d'" "user_view d' = snd (account_spec k u pw (user_view d))"
    using udp_round_account [OF d v] by blast
  have "\<exists>msg. fst (account_spec k u pw (user_view d)) = msg @ [LF] \<and> length msg < 31 \<and> NUL \<notin> set msg"
    by (cases k) (auto simp: account_spec_def split: option.splits)
  then show ?thesis using udp_exchange_server [OF l, of "account_request k u pw"] r d' by metis
qed

section \<open>Sessions of one client\<close>

text \<open>
  Account commands typed one after the other, each at its time, with every datagram the client sends
  handled by the server.
\<close>

datatype user_cmd = Login string string | Logout | Unregister

definition run_user_cmd :: "udp_link \<Rightarrow> user_cmd \<Rightarrow> client_state \<Rightarrow> udp_cmd_result" where
  "run_user_cmd l cmd c =
     (case cmd of
        Login u pw \<Rightarrow> handle_login_c l (u @ '' '' @ pw) c
      | Logout \<Rightarrow> handle_logout_c l [] c
      | Unregister \<Rightarrow> handle_unregister_c l [] c)"

fun deliver :: "int \<Rightarrow> string list \<Rightarrow> db \<Rightarrow> db outcome" where
  "deliver now [] d = Inr d"
| "deliver now (q # qs) d = bind_ok (udp_round now q d) (\<lambda>(_, d'). deliver now qs d')"

fun client_session :: "(int \<times> user_cmd) list \<Rightarrow> client_state \<Rightarrow> db \<Rightarrow> (client_reply list \<times> client_state \<times> db) outcome" where
  "client_session [] c d = Inr ([], c, d)"
| "client_session ((now, cmd) # cmds) c d =
     (case run_user_cmd (link_to now d) cmd c of
        (r, c1, sent) \<Rightarrow> bind_ok (deliver now sent d) (\<lambda>d1.
          bind_ok (client_session cmds c1 d1) (\<lambda>(rs, c2, d2). Inr (r # rs, c2, d2))))"

text \<open>
  The specification works on who is logged in at the client and on the account table of the server.
\<close>

type_synonym who = "(string \<times> string) option"

definition who_view :: "client_state \<Rightarrow> who" where
  "who_view c = (if logged_in c then Some (take 6 (c_uid c), take 8 (c_passwd c)) else None)"

definition user_cmd_spec :: "user_cmd \<Rightarrow> who \<Rightarrow> (string \<Rightarrow> (string \<times> bool) option)
    \<Rightarrow> client_reply \<times> who \<times> (string \<Rightarrow> (string \<times> bool) option)" where
  "user_cmd_spec cmd w a =
     (case (cmd, w) of
        (Login u pw, Some _) \<Rightarrow> (Code ERR_ALREADY_LOGGED_IN, w, a)
      | (Login u pw, None) \<Rightarrow>
          (case a u of
             None \<Rightarrow> (Response (''New user registered'' @ [LF]), Some (u, pw), a(u \<mapsto> (pw, True)))
           | Some (pw', _) \<Rightarrow>
               if pw' = pw then (Response (''Successful login'' @ [LF]), Some (u, pw), a(u \<mapsto> (pw, True)))
               else (Response (''Incorrect login attempt'' @ [LF]), None, a))
      | (_, None) \<Rightarrow> (Code ERR_NOT_LOGGED_IN, None, a)
      | (Logout, Some (u, pw)) \<Rightarrow>
          if a u = Some (pw, True) then (Response (''Successful logout'' @ [LF]), None, a(u \<mapsto> (pw, False)))
          else (Response (if a u = None then ''Unknown user'' @ [LF] else ''User not logged in'' @ [LF]), w, a)
      | (Unregister, Some (u, pw)) \<Rightarrow>
          if a u = Some (pw, True) then (Response (''Successful unregister'' @ [LF]), None, a(u := None))
          else (Response (if a u = None then ''Unknown user'' @ [LF] else ''Incorrect unregister attempt'' @ [LF]), w, a))"

fun client_session_spec :: "user_cmd list \<Rightarrow> who \<Rightarrow> (string \<Rightarrow> (string \<times> bool) option)
    \<Rightarrow> client_reply list \<times> who \<times> (string \<Rightarrow> (string \<times> bool) option)" where
  "client_session_spec [] w a = ([], w, a)"
| "client_session_spec (cmd # cmds) w a =
     (case user_cmd_spec cmd w a of (r, w1, a1) \<Rightarrow>
        (case client_session_spec cmds w1 a1 of (rs, w2, a2) \<Rightarrow> (r # rs, w2, a2)))"

fun user_cmd_ok :: "user_cmd \<Rightarrow> bool" where
  "user_cmd_ok (Login u pw) = (is_valid_uid u \<and> is_valid_passwd pw)"
| "user_cmd_ok _ = True"

lemma command_tokens:
  assumes "is_valid_uid u" "is_valid_passwd pw"
  shows "strtok [SP] (u @ SP # pw) = (Some u, pw)" "strtok [SP] pw = (Some pw, [])"
  using assms valid_uid_clean valid_passwd_clean by (auto intro!: strtok_until strtok_all)

lemma who_view_login [simp]:
  "is_valid_uid u \<Longrightarrow> is_valid_passwd pw \<Longrightarrow>
     who_view (c\<lparr>c_uid := memcpy 6 u x, c_passwd := memcpy 8 pw y, logged_in := True\<rparr>) = Some (u, pw)"
  by (simp add: who_view_def is_valid_uid_iff is_valid_passwd_iff)

lemma who_view_out: "\<not> logged_in c \<Longrightarrow> who_view c = None"
  by (simp add: who_view_def)

lemma login_step:
  assumes l: "linked now d l" and d: "users_inv d" and v: "is_valid_uid u" "is_valid_passwd pw" and c: "client_ok c"
  shows "\<exists>c' sent d'. handle_login_c l (u @ '' '' @ pw) c = (fst (user_cmd_spec (Login u pw) (who_view c) (user_view d)), c', sent)
     \<and> deliver now sent d = Inr d' \<and> client_ok c' \<and> users_inv d'
     \<and> (who_view c', user_view d') = snd (user_cmd_spec (Login u pw) (who_view c) (user_view d))"
proof (cases "logged_in c")
  case True
  then show ?thesis using c d by (simp add: handle_login_c_def user_cmd_spec_def who_view_def)
next
  case False
  obtain d' where x: "udp_exchange (account_request LIN u pw) 31 l
        = (Inr (fst (account_spec LIN u pw (user_view d))), [account_request LIN u pw])"
    and r: "udp_round now (account_request LIN u pw) d = Inr (fst (account_spec LIN u pw (user_view d)), d')"
    and d': "users_inv d'" "user_view d' = snd (account_spec LIN u pw (user_view d))"
    using account_exchange [OF l d v, of LIN] by blast
  obtain rep c' sent where h: "handle_login_c l (u @ '' '' @ pw) c = (rep, c', sent)" by (cases "handle_login_c l (u @ '' '' @ pw) c")
  then have "client_ok c'" by (rule handle_login_c_ok [OF c])
  then show ?thesis using h x r d' False v
    by (auto simp: handle_login_c_def command_tokens user_cmd_spec_def account_spec_def
      account_request_def constants Let_def who_view_out split: option.splits if_splits)
qed

lemma leave_step:
  assumes l: "linked now d l" and d: "users_inv d" and c: "client_ok c"
    and cmd: "(cmd, k, h) \<in> {(Logout, LOU, handle_logout_c), (Unregister, UNR, handle_unregister_c)}"
  shows "\<exists>c' sent d'. h l input c = (fst (user_cmd_spec cmd (who_view c) (user_view d)), c', sent)
     \<and> deliver now sent d = Inr d' \<and> client_ok c' \<and> users_inv d'
     \<and> (who_view c', user_view d') = snd (user_cmd_spec cmd (who_view c) (user_view d))"
proof (cases "logged_in c")
  case False
  then show ?thesis using c d cmd
    by (auto simp: handle_logout_c_def handle_unregister_c_def user_cmd_spec_def who_view_def)
next
  case True
  let ?u = "take 6 (c_uid c)" and ?pw = "take 8 (c_passwd c)"
  note v = client_okD [OF c True]
  obtain d' where x: "udp_exchange (account_request k ?u ?pw) 31 l
        = (Inr (fst (account_spec k ?u ?pw (user_view d))), [account_request k ?u ?pw])"
    and r: "udp_round now (account_request k ?u ?pw) d = Inr (fst (account_spec k ?u ?pw (user_view d)), d')"
    and d': "users_inv d'" "user_view d' = snd (account_spec k ?u ?pw (user_view d))"
    using account_exchange [OF l d v(1,2), of k] by blast
  obtain rep c' sent where h: "h l input c = (rep, c', sent)" by (cases "h l input c")
  then have "c' = c \<or> c' = c\<lparr>logged_in := False\<rparr>" using cmd by (intro logged_out_cases [of l input c rep c' sent]) auto
  then have "client_ok c'" using c logged_out_ok by auto
  then show ?thesis using h cmd x r d' True v
    by (auto simp: handle_logout_c_def handle_unregister_c_def user_cmd_spec_def who_view_def account_spec_def
      account_request_def split: option.splits if_splits)
qed

lemma user_cmd_step:
  assumes "linked now d l" "users_inv d" "client_ok c" "user_cmd_ok cmd"
  shows "\<exists>c' sent d'. run_user_cmd l cmd c = (fst (user_cmd_spec cmd (who_view c) (user_view d)), c', sent)
     \<and> deliver now sent d = Inr d' \<and> client_ok c' \<and> users_inv d'
     \<and> (who_view c', user_view d') = snd (user_cmd_spec cmd (who_view c) (user_view d))"
proof (cases cmd)
  case (Login u pw)
  then show ?thesis using login_step [OF assms(1,2) _ _ assms(3), of u pw] assms(4) by (simp add: run_user_cmd_def)
next
  case Logout
  then show ?thesis using leave_step [OF assms(1-3), of Logout LOU handle_logout_c] by (simp add: run_user_cmd_def)
next
  case Unregister
  then show ?thesis using leave_step [OF assms(1-3), of Unregister UNR handle_unregister_c] by (simp add: run_user_cmd_def)
qed

definition agrees :: "who \<Rightarrow> (string \<Rightarrow> (string \<times> bool) option) \<Rightarrow> bool" where
  "agrees w a \<longleftrightarrow> (\<forall>u pw. w = Some (u, pw) \<longrightarrow> a u = Some (pw, True))"

lemma user_cmd_agrees:
  "agrees w a \<Longrightarrow> user_cmd_spec cmd w a = (r, w', a') \<Longrightarrow> agrees w' a'"
  by (auto simp: agrees_def user_cmd_spec_def split: user_cmd.splits option.splits if_splits)

lemma session_agrees:
  "agrees w a \<Longrightarrow> client_session_spec cmds w a = (rs, w', a') \<Longrightarrow> agrees w' a'"
proof (induction cmds arbitrary: w a rs)
  case (Cons cmd cmds)
  obtain r w1 a1 where s: "user_cmd_spec cmd w a = (r, w1, a1)" by (cases "user_cmd_spec cmd w a")
  obtain rs1 where "client_session_spec cmds w1 a1 = (rs1, w', a')" using Cons.prems(2) s by (auto split: prod.splits)
  then show ?case using Cons.IH user_cmd_agrees [OF Cons.prems(1) s] by blast
qed simp

lemma client_session_sim:
  assumes "users_inv d" "client_ok c" "\<forall>(now, cmd) \<in> set cmds. user_cmd_ok cmd"
  shows "\<exists>c' d'. client_session cmds c d
       = Inr (fst (client_session_spec (map snd cmds) (who_view c) (user_view d)), c', d')
     \<and> (who_view c', user_view d') = snd (client_session_spec (map snd cmds) (who_view c) (user_view d))
     \<and> users_inv d' \<and> client_ok c'"
    using assms
proof (induction cmds arbitrary: c d)
  case (Cons x cmds)
  obtain now cmd where x: "x = (now, cmd)" by (cases x)
  obtain c1 sent d1 where s: "run_user_cmd (link_to now d) cmd c
      = (fst (user_cmd_spec cmd (who_view c) (user_view d)), c1, sent)" "deliver now sent d = Inr d1"
    and i: "client_ok c1" "users_inv d1"
    and v: "(who_view c1, user_view d1) = snd (user_cmd_spec cmd (who_view c) (user_view d))"
    using user_cmd_step [OF linked_link_to Cons.prems(1,2), of cmd now] Cons.prems(3) x by auto
  obtain c' d' where "client_session cmds c1 d1
      = Inr (fst (client_session_spec (map snd cmds) (who_view c1) (user_view d1)), c', d')"
    "(who_view c', user_view d') = snd (client_session_spec (map snd cmds) (who_view c1) (user_view d1))"
    "users_inv d'" "client_ok c'"
    using Cons.IH [OF i(2,1)] Cons.prems(3) by auto
  then show ?case using s v x by (auto split: prod.splits)
qed simp

text \<open>
  C7. A client and the server together implement the account commands: every sequence of \<open>login\<close>,
  \<open>logout\<close> and \<open>unregister\<close> commands typed at the client gets the texts of the table-level specification,
  and leaves the client and the server's account table in its state. A client that starts in agreement with
  the server, logged in at both or at none, stays in agreement.
\<close>

theorem client_session_refines:
  assumes "users_inv d" "client_ok c" "\<forall>(now, cmd) \<in> set cmds. user_cmd_ok cmd"
  shows "\<exists>c' d'. client_session cmds c d
       = Inr (fst (client_session_spec (map snd cmds) (who_view c) (user_view d)), c', d')
     \<and> (who_view c', user_view d') = snd (client_session_spec (map snd cmds) (who_view c) (user_view d))
     \<and> users_inv d' \<and> client_ok c' \<and> (agrees (who_view c) (user_view d) \<longrightarrow> agrees (who_view c') (user_view d'))"
proof -
  show ?thesis using client_session_sim [OF assms] session_agrees by (metis prod.collapse)
qed

definition fresh_client :: client_state where
  "fresh_client = \<lparr>logged_in = False, c_uid = replicate 7 NUL, c_passwd = replicate 9 NUL\<rparr>"

lemma fresh_client [simp]: "client_ok fresh_client" "\<not> logged_in fresh_client"
  by (simp_all add: fresh_client_def client_ok_def)

theorem client_session_refines_witness:
  "\<exists>c' d'. client_session [(5, Login ''123456'' ''password''), (6, Login ''123456'' ''password''), (7, Logout),
        (8, Login ''123456'' ''passw0rd''), (9, Unregister)] fresh_client empty_db
     = Inr ([Response (''New user registered'' @ [LF]), Code ERR_ALREADY_LOGGED_IN, Response (''Successful logout'' @ [LF]),
         Response (''Incorrect login attempt'' @ [LF]), Code ERR_NOT_LOGGED_IN], c', d')
     \<and> \<not> logged_in c' \<and> user_view d' ''123456'' = Some (''password'', False)"
proof -
  let ?cmds = "[(5, Login ''123456'' ''password''), (6, Login ''123456'' ''password''), (7, Logout),
        (8, Login ''123456'' ''passw0rd''), (9, Unregister)] :: (int \<times> user_cmd) list"
  have ok: "\<forall>(now, cmd) \<in> set ?cmds. user_cmd_ok cmd"
    by (simp add: is_valid_uid_iff is_valid_passwd_iff isdigit_def isalnum_def isalpha_def)
  from client_session_refines [OF empty_db_inv(1) fresh_client(1) ok] obtain c' d' where
    s: "client_session ?cmds fresh_client empty_db
       = Inr (fst (client_session_spec (map snd ?cmds) (who_view fresh_client) (user_view empty_db)), c', d')"
     "(who_view c', user_view d') = snd (client_session_spec (map snd ?cmds) (who_view fresh_client) (user_view empty_db))"
    by blast
  then show ?thesis
    by (intro exI [of _ c'] exI [of _ d'])
      (auto simp: user_cmd_spec_def who_view_def [of fresh_client] who_view_def [of c'] empty_db_inv(2)
        simp del: client_session.simps split: if_splits)
qed

end
