(* ===== verification/ClientLists.thy ===== *)
theory ClientLists
  imports ClientAccounts AuctionRecords
begin

text \<open>
  The list commands of the client, \<open>list\<close>, \<open>myauctions\<close> and \<open>mybids\<close> of \<open>client/udp.c\<close>: the parse of
  the reply with \<open>strtok\<close> and the loop that builds the text for the user. Every \<open>strcat\<close> to \<open>response\<close>
  is checked against the \<open>MAX_SERVER_RESPONSE\<close> bytes of the array; the bound of this theory shows that no
  answer, well-formed or not, makes a command leave it.
\<close>

type_synonym udp_list_result = "(client_reply \<times> client_state \<times> string list) outcome"

section \<open>The loop over the entries\<close>

text \<open>
  The three handlers contain the same loop, which \<open>handle_my_auctions\<close> starts with a check of the
  identifier (\<open>check\<close>). \<open>s\<close> is what \<open>strtok\<close> has left; the result is an error code or the response.
\<close>

lemma strtok_shorter:
  assumes "strtok d s = (Some tok, r)"
  shows "length r < length s"
proof -
  obtain s' t where s': "s' = dropWhile (\<lambda>c. c \<in> set d) s" and t: "t = dropWhile (\<lambda>c. c \<notin> set d) s'" by blast
  then have "s' \<noteq> []" and r: "r = drop 1 t" using assms unfolding strtok_Some_iff by auto
  then have "0 < length s'" by simp
  moreover have "length s' \<le> length s" unfolding s' by (rule length_dropWhile_le)
  moreover have "length t \<le> length s'" unfolding t by (rule length_dropWhile_le)
  moreover have "length r = length t - 1" using r by simp
  ultimately show ?thesis by linarith
qed

function auction_entries :: "(string \<Rightarrow> bool) \<Rightarrow> string \<Rightarrow> nat \<Rightarrow> string \<Rightarrow> (int + string) outcome" where
  "auction_entries check s per_line_count response =
     (case strtok [SP] s of
        (None, _) \<Rightarrow>
          if per_line_count \<noteq> 0 then
            (if length response + 1 \<ge> MAX_SERVER_RESPONSE then Inl OutOfBounds else Inr (Inr (response @ [LF])))
          else Inr (Inr response)
      | (Some auc_id, r) \<Rightarrow>
          if \<not> check auc_id then Inr (Inl ERR_UNKNOWN_ANSWER)
          else if length response + length auc_id + 1 \<ge> MAX_SERVER_RESPONSE then Inl OutOfBounds
          else case strtok [SP] r of
            (None, _) \<Rightarrow> Inr (Inl ERR_UNKNOWN_ANSWER)
          | (Some status, r') \<Rightarrow>
              if status \<noteq> ''1'' \<and> status \<noteq> ''0'' then Inr (Inl ERR_UNKNOWN_ANSWER)
              else let n = per_line_count + 1;
                       response' = response @ ''|'' @ auc_id @ (if status = ''1'' then '' - A| '' else '' - C| '')
                         @ (if n = 6 then [LF] else [])
                   in if length response' \<ge> MAX_SERVER_RESPONSE then Inl OutOfBounds
                      else auction_entries check r' (if n = 6 then 0 else n) response')"
  by pat_completeness auto
termination
proof (relation "measure (\<lambda>(check, s, n, response). length s)", goal_cases)
  case (2 check s n response x r auc_id p r1 status)
  then have "length r < length s" "length r1 < length r" using strtok_shorter by metis+
  then show ?case by simp
qed simp

declare auction_entries.simps [simp del]

section \<open>Handlers\<close>

definition list_format :: string where
  "list_format = ''Format: |{AID - Status}| 5* (6 per line)'' @ [LF] @ ''Status: A - Active, C - Closed'' @ [LF, LF]"

definition handle_list_c :: "udp_link \<Rightarrow> string \<Rightarrow> client_state \<Rightarrow> udp_list_result" where
  "handle_list_c l input client =
     (case udp_exchange (''LST'' @ [LF]) 8191 l of
        (Inl code, sent) \<Rightarrow> Inr (Code code, client, sent)
      | (Inr buffer, sent) \<Rightarrow>
     let unknown = Inr (Code ERR_UNKNOWN_ANSWER, client, sent)
     in case strtok [SP] buffer of
        (None, _) \<Rightarrow> unknown
      | (Some cmd_resp, r1) \<Rightarrow>
     if cmd_resp \<noteq> ''RLS'' then unknown
     else case strtok [LF] r1 of
        (None, _) \<Rightarrow> unknown
      | (Some payload, _) \<Rightarrow>
     if payload = ''ERR'' then
       Inr (Response (''Server returned an error status for the LST command'' @ [LF]), client, sent)
     else if payload = ''NOK'' then Inr (Response (''No auctions currently available'' @ [LF]), client, sent)
     else case strtok [SP] payload of
        (None, _) \<Rightarrow> unknown
      | (Some status, r2) \<Rightarrow>
     if status \<noteq> ''OK'' then unknown
     else case strtok [LF] r2 of
        (None, _) \<Rightarrow> unknown
      | (Some data, _) \<Rightarrow>
     bind_ok (auction_entries (\<lambda>_. True) data 0 (list_format @ ''AS Auctions:'' @ [LF])) (\<lambda>res.
       case res of Inl code \<Rightarrow> Inr (Code code, client, sent) | Inr text \<Rightarrow> Inr (Response text, client, sent)))"

text \<open>\<open>strtok(NULL, "\0")\<close> has no delimiter: it returns all that is left.\<close>

definition handle_my_auctions_c :: "udp_link \<Rightarrow> string \<Rightarrow> client_state \<Rightarrow> udp_list_result" where
  "handle_my_auctions_c l input client =
     (if \<not> logged_in client then Inr (Code ERR_NOT_LOGGED_IN, client, [])
      else case udp_exchange (''LMA '' @ fmt_prec 6 (c_uid client) @ [LF]) 8191 l of
        (Inl code, sent) \<Rightarrow> Inr (Code code, client, sent)
      | (Inr buffer, sent) \<Rightarrow>
     let unknown = Inr (Code ERR_UNKNOWN_ANSWER, client, sent)
     in case strtok [SP] buffer of
        (None, _) \<Rightarrow> unknown
      | (Some command, r1) \<Rightarrow>
     if command \<noteq> ''RMA'' then unknown
     else case strtok [LF] r1 of
        (None, _) \<Rightarrow> unknown
      | (Some payload, _) \<Rightarrow>
     if payload = ''ERR'' then
       Inr (Response (''Server returned an error status for the myauctions command'' @ [LF]), client, sent)
     else if payload = ''NOK'' then Inr (Response (''No auctions currently available'' @ [LF]), client, sent)
     else if payload = ''NLG'' then Inr (Response (''User is not logged in'' @ [LF]), client, sent)
     else case strtok [SP] payload of
        (None, _) \<Rightarrow> unknown
      | (Some status, r2) \<Rightarrow>
     if status \<noteq> ''OK'' then unknown
     else case strtok [] r2 of
        (None, _) \<Rightarrow> unknown
      | (Some data, _) \<Rightarrow>
     bind_ok (auction_entries is_valid_aid data 0
         (list_format @ ''Auctions for user '' @ fmt_prec 6 (c_uid client) @ [LF])) (\<lambda>res.
       case res of Inl code \<Rightarrow> Inr (Code code, client, sent) | Inr text \<Rightarrow> Inr (Response text, client, sent)))"

text \<open>There is no branch for the status \<open>NLG\<close>, which the server does send.\<close>

definition handle_my_bids_c :: "udp_link \<Rightarrow> string \<Rightarrow> client_state \<Rightarrow> udp_list_result" where
  "handle_my_bids_c l input client =
     (if \<not> logged_in client then Inr (Code ERR_NOT_LOGGED_IN, client, [])
      else case udp_exchange (''LMB '' @ fmt_prec 6 (c_uid client) @ [LF]) 8191 l of
        (Inl code, sent) \<Rightarrow> Inr (Code code, client, sent)
      | (Inr buffer, sent) \<Rightarrow>
     let unknown = Inr (Code ERR_UNKNOWN_ANSWER, client, sent)
     in case strtok [SP] buffer of
        (None, _) \<Rightarrow> unknown
      | (Some cmd_resp, r1) \<Rightarrow>
     if cmd_resp \<noteq> ''RMB'' then unknown
     else case strtok [LF] r1 of
        (None, _) \<Rightarrow> unknown
      | (Some payload, _) \<Rightarrow>
     if payload = ''ERR'' then
       Inr (Response (''Server returned an error status for the mybids command'' @ [LF]), client, sent)
     else if payload = ''NOK'' then Inr (Response (''No bids placed yet'' @ [LF]), client, sent)
     else case strtok [SP] payload of
        (None, _) \<Rightarrow> unknown
      | (Some status, r2) \<Rightarrow>
     if status \<noteq> ''OK'' then unknown
     else case strtok [] r2 of
        (None, _) \<Rightarrow> unknown
      | (Some data, _) \<Rightarrow>
     bind_ok (auction_entries (\<lambda>_. True) data 0 (list_format @ ''AS Auctions with user bids:'' @ [LF])) (\<lambda>res.
       case res of Inl code \<Rightarrow> Inr (Code code, client, sent) | Inr text \<Rightarrow> Inr (Response text, client, sent)))"

section \<open>No answer overflows the response\<close>

lemma strtok_length:
  assumes "strtok d s = (Some tok, r)"
  shows "length tok + length r \<le> length s" "r \<noteq> [] \<Longrightarrow> length tok + 1 + length r \<le> length s" "0 < length tok"
proof -
  obtain s' t where s': "s' = dropWhile (\<lambda>c. c \<in> set d) s" and t: "t = dropWhile (\<lambda>c. c \<notin> set d) s'" by blast
  then have tok: "tok = takeWhile (\<lambda>c. c \<notin> set d) s'" and r: "r = drop 1 t" using assms unfolding strtok_Some_iff by auto
  have "s' = tok @ t" unfolding tok t by simp
  then have s: "length s' = length tok + length t" by simp
  have le: "length s' \<le> length s" unfolding s' by (rule length_dropWhile_le)
  show "length tok + length r \<le> length s" using s le r by simp
  show "length tok + 1 + length r \<le> length s" if "r \<noteq> []" using that s le r by (cases t) auto
  show "0 < length tok" using strtok_SomeD(1) [OF assms] by simp
qed

lemma auction_entries_fit:
  "length response + 3 * length s + 1 < MAX_SERVER_RESPONSE \<Longrightarrow>
     auction_entries check s n response = Inr (Inl ERR_UNKNOWN_ANSWER)
     \<or> (\<exists>text. auction_entries check s n response = Inr (Inr text) \<and> length text < MAX_SERVER_RESPONSE)"
proof (induction check s n response rule: auction_entries.induct)
  case (1 check s n response)
  obtain tok r where t1: "strtok [SP] s = (tok, r)" by (cases "strtok [SP] s")
  show ?case
  proof (cases tok)
    case None
    then show ?thesis using t1 "1.prems" by (simp add: auction_entries.simps)
  next
    case (Some a)
    obtain tok' r' where t2: "strtok [SP] r = (tok', r')" by (cases "strtok [SP] r")
    show ?thesis
    proof (cases "check a \<and> (tok' = Some ''1'' \<or> tok' = Some ''0'')")
      case False
      then show ?thesis using t1 t2 Some strtok_length(1) [of "[SP]" s a r] "1.prems"
        by (subst (1 2) auction_entries.simps) (auto split: option.splits)
    next
      case True
      then obtain st where st: "tok' = Some st" "st = ''1'' \<or> st = ''0''" and a: "check a" by blast
      have "r \<noteq> []" using t2 st(1) by auto
      then have len: "length a + 1 + length r \<le> length s" "0 < length a" "1 + length r' \<le> length r"
        using strtok_length [of "[SP]" s a r] strtok_length [of "[SP]" r st r'] t1 t2 Some st by auto
      let ?resp = "response @ ''|'' @ a @ (if st = ''1'' then '' - A| '' else '' - C| '') @ (if n + 1 = 6 then [LF] else [])"
      have grow: "length ?resp \<le> length response + length a + 8" by simp
      then have b: "length ?resp + 3 * length r' + 1 < MAX_SERVER_RESPONSE" "length ?resp < MAX_SERVER_RESPONSE"
        using len "1.prems" by linarith+
      have ok: "\<not> length response + length a + 1 \<ge> MAX_SERVER_RESPONSE" using len "1.prems" by linarith
      have step: "auction_entries check s n response = auction_entries check r' (if n + 1 = 6 then 0 else n + 1) ?resp"
        using st(2) by (elim disjE; subst auction_entries.simps) (use t1 t2 Some st(1) a ok b(2) in \<open>simp_all add: Let_def not_le\<close>)
      have "st \<noteq> ''1'' \<and> st \<noteq> ''0'' \<longleftrightarrow> False" using st by blast
      then show ?thesis unfolding step
        by (intro "1.IH" [OF t1 [symmetric] Some _ ok t2 [symmetric] st(1) _ refl refl _ b(1)]) (use a b(2) in \<open>simp_all add: not_le\<close>)
    qed
  qed
qed

text \<open>A reply that is an error code of the table, or a text that fits in \<open>response\<close>.\<close>

definition reply_fits :: "client_reply \<Rightarrow> bool" where
  "reply_fits r \<longleftrightarrow> (case r of Code n \<Rightarrow> 1 \<le> n \<and> n \<le> 28 | Response text \<Rightarrow> length text < MAX_SERVER_RESPONSE | Exits \<Rightarrow> True)"

lemma reply_fits_simps [simp]:
  "reply_fits (Code n) \<longleftrightarrow> 1 \<le> n \<and> n \<le> 28"
  "reply_fits (Response text) \<longleftrightarrow> length text < MAX_SERVER_RESPONSE"
  "reply_fits Exits"
  by (simp_all add: reply_fits_def)

lemma udp_exchange_code:
  "udp_exchange request m l = (Inl code, sent) \<Longrightarrow> 1 \<le> code \<and> code \<le> 28"
  by (rule udp_exchange_cases [of request m l]) (auto simp: client_err_defs)

lemma udp_exchange_length: "udp_exchange request m l = (Inr s, sent) \<Longrightarrow> length s \<le> m"
  by (rule udp_exchange_cases [of request m l]) auto

lemma udp_exchange_sent: "udp_exchange q m l = (x, sent) \<Longrightarrow> sent = [] \<or> sent = [q]"
  by (auto simp: udp_exchange_def send_udp_request_def split: if_splits prod.splits)

lemma entries_reply_fits:
  assumes "udp_exchange q 8191 l = (Inr s, sent0)" "strtok d1 s = (Some w1, r1)" "strtok d2 r1 = (Some w2, r2)"
    "strtok d3 w2 = (Some w3, r3)" "strtok d4 r3 = (Some data, r4)" "length header \<le> 200"
  shows "\<exists>r. bind_ok (auction_entries check data 0 header)
       (case_sum (\<lambda>code. Inr (Code code, client, sent)) (\<lambda>text. Inr (Response text, client, sent)))
     = Inr (r, client, sent) \<and> reply_fits r \<and> r \<noteq> Exits"
proof -
  have "length data \<le> 8191"
    using udp_exchange_length [OF assms(1)] strtok_length(1) [OF assms(2)] strtok_length(1) [OF assms(3)]
      strtok_length(1) [OF assms(4)] strtok_length(1) [OF assms(5)] by linarith
  then show ?thesis using auction_entries_fit [of header data check 0] assms(6)
    by (auto simp: MAX_SERVER_RESPONSE_def ERR_UNKNOWN_ANSWER_def)
qed

lemma list_codes:
  "reply_fits (Code ERR_UNKNOWN_ANSWER)" "reply_fits (Code ERR_NOT_LOGGED_IN)"
  "udp_exchange q m l = (Inl n, sent) \<Longrightarrow> reply_fits (Code n)" "k \<le> 100 \<Longrightarrow> k < MAX_SERVER_RESPONSE"
  using udp_exchange_code by (simp_all add: client_err_defs MAX_SERVER_RESPONSE_def)

lemma list_handlers_fit:
  "\<exists>r sent. handle_list_c l input c = Inr (r, c, sent) \<and> reply_fits r \<and> r \<noteq> Exits
     \<and> (sent = [] \<or> sent = [''LST'' @ [LF]])"
  "logged_in c \<Longrightarrow> \<exists>r sent. handle_my_auctions_c l input c = Inr (r, c, sent) \<and> reply_fits r \<and> r \<noteq> Exits
     \<and> (sent = [] \<or> sent = [''LMA '' @ fmt_prec 6 (c_uid c) @ [LF]])"
  "logged_in c \<Longrightarrow> \<exists>r sent. handle_my_bids_c l input c = Inr (r, c, sent) \<and> reply_fits r \<and> r \<noteq> Exits
     \<and> (sent = [] \<or> sent = [''LMB '' @ fmt_prec 6 (c_uid c) @ [LF]])"
proof -
  have len: "length (fmt_prec 6 (c_uid c)) \<le> 6"
    using length_takeWhile_le [of "\<lambda>c. c \<noteq> NUL" "take 6 (c_uid c)"] by (simp add: fmt_prec_def cstr_def)
  obtain x1 x2 x3 s1 s2 s3 where e: "udp_exchange (''LST'' @ [LF]) 8191 l = (x1, s1)"
    "udp_exchange (''LMA '' @ fmt_prec 6 (c_uid c) @ [LF]) 8191 l = (x2, s2)"
    "udp_exchange (''LMB '' @ fmt_prec 6 (c_uid c) @ [LF]) 8191 l = (x3, s3)" by (metis surj_pair)
  note sent = e [THEN udp_exchange_sent]
  have "\<exists>r. handle_list_c l input c = Inr (r, c, s1) \<and> reply_fits r \<and> r \<noteq> Exits"
    using e(1) unfolding handle_list_c_def Let_def
    by (auto split: prod.split sum.split option.split simp: list_codes simp del: reply_fits_simps(1))
      (rule entries_reply_fits, assumption+, simp add: list_format_def)
  then show "\<exists>r sent. handle_list_c l input c = Inr (r, c, sent) \<and> reply_fits r \<and> r \<noteq> Exits
     \<and> (sent = [] \<or> sent = [''LST'' @ [LF]])" using sent(1) by blast
  have "\<exists>r. handle_my_auctions_c l input c = Inr (r, c, s2) \<and> reply_fits r \<and> r \<noteq> Exits" if "logged_in c"
    using e(2) that unfolding handle_my_auctions_c_def Let_def
    by (auto split: prod.split sum.split option.split simp: list_codes simp del: reply_fits_simps(1))
      (rule entries_reply_fits, assumption+, use len in \<open>simp add: list_format_def\<close>)
  then show "logged_in c \<Longrightarrow> \<exists>r sent. handle_my_auctions_c l input c = Inr (r, c, sent) \<and> reply_fits r \<and> r \<noteq> Exits
     \<and> (sent = [] \<or> sent = [''LMA '' @ fmt_prec 6 (c_uid c) @ [LF]])" using sent(2) by blast
  have "\<exists>r. handle_my_bids_c l input c = Inr (r, c, s3) \<and> reply_fits r \<and> r \<noteq> Exits" if "logged_in c"
    using e(3) that unfolding handle_my_bids_c_def Let_def
    by (auto split: prod.split sum.split option.split simp: list_codes simp del: reply_fits_simps(1))
      (rule entries_reply_fits, assumption+, simp add: list_format_def)
  then show "logged_in c \<Longrightarrow> \<exists>r sent. handle_my_bids_c l input c = Inr (r, c, sent) \<and> reply_fits r \<and> r \<noteq> Exits
     \<and> (sent = [] \<or> sent = [''LMB '' @ fmt_prec 6 (c_uid c) @ [LF]])" using sent(3) by blast
qed

text \<open>
  C23. No answer to \<open>list\<close>, \<open>myauctions\<close> or \<open>mybids\<close> makes the client leave its arrays: whatever arrives on
  the socket, the command ends with one of the 28 error codes or with a text shorter than the 65535 bytes
  of \<open>response\<close>, and the client state is unchanged.
\<close>

theorem list_commands_fit:
  "(\<exists>r sent. handle_list_c l input c = Inr (r, c, sent) \<and> reply_fits r)
   \<and> (\<exists>r sent. handle_my_auctions_c l input c = Inr (r, c, sent) \<and> reply_fits r)
   \<and> (\<exists>r sent. handle_my_bids_c l input c = Inr (r, c, sent) \<and> reply_fits r)"
  using list_handlers_fit [where l = l and input = input and c = c]
  by (cases "logged_in c") (auto simp: handle_my_auctions_c_def handle_my_bids_c_def list_codes simp del: reply_fits_simps(1))

section \<open>The text of a list\<close>

text \<open>
  What the user is to see: six entries per line. \<open>list_body\<close> is the payload the server sends for a list of
  identifiers and whether each is active.
\<close>

definition entry_text :: "string \<times> bool \<Rightarrow> string" where
  "entry_text e = ''|'' @ fst e @ (if snd e then '' - A| '' else '' - C| '')"

function table_text :: "(string \<times> bool) list \<Rightarrow> string" where
  "table_text es = (if es = [] then [] else concat (map entry_text (take 6 es)) @ [LF] @ table_text (drop 6 es))"
  by pat_completeness auto
termination
  by (relation "measure length") auto

declare table_text.simps [simp del]

definition list_body :: "(string \<times> bool) list \<Rightarrow> string" where
  "list_body es = concat (map (\<lambda>(a, active). '' '' @ a @ (if active then '' 1'' else '' 0'')) es)"

lemma list_body_Cons: "list_body ((a, active) # es) = SP # a @ SP # (if active then CHR ''1'' else CHR ''0'') # list_body es"
  by (simp add: list_body_def)

lemma list_body_Nil [simp]: "list_body [] = []"
  by (simp add: list_body_def)

text \<open>The loop of the handlers started at column \<open>n\<close> completes the line and goes on with whole lines.\<close>

definition rest_text :: "nat \<Rightarrow> (string \<times> bool) list \<Rightarrow> string" where
  "rest_text n es = (if n = 0 then table_text es else concat (map entry_text (take (6 - n) es)) @ [LF] @ table_text (drop (6 - n) es))"

lemma rest_text_Nil: "rest_text n [] = (if n = 0 then [] else [LF])"
  by (simp add: rest_text_def table_text.simps [of "[]"])

lemma rest_text_Cons:
  assumes "n < 6"
  shows "rest_text n (e # es) = entry_text e @ (if n + 1 = 6 then [LF] else []) @ rest_text (if n + 1 = 6 then 0 else n + 1) es"
proof -
  have first: "table_text (e # es) = entry_text e @ concat (map entry_text (take 5 es)) @ [LF] @ table_text (drop 5 es)"
    by (subst table_text.simps) simp
  have "6 - n = Suc (5 - n)" using assms by simp
  then show ?thesis using first assms by (auto simp: rest_text_def)
qed

lemma auction_entries_skip: "auction_entries check (SP # s) n response = auction_entries check s n response"
proof -
  have "strtok [SP] (SP # s) = strtok [SP] s" by (simp add: strtok_skip)
  note eq = auction_entries.simps [of check "SP # s" n response, unfolded this]
  show ?thesis by (rule trans [OF eq auction_entries.simps [of check s n response, symmetric]])
qed

lemma auction_entries_body: "auction_entries check (drop 1 (list_body es)) n response = auction_entries check (list_body es) n response"
proof (cases es)
  case (Cons e es')
  then have "list_body es = SP # drop 1 (list_body es)" by (cases e) (simp add: list_body_Cons)
  then show ?thesis using auction_entries_skip by metis
qed simp

lemma auction_entries_table:
  "\<forall>(a, active) \<in> set es. clean_word a \<and> check a \<Longrightarrow> n < 6 \<Longrightarrow>
     length response + 3 * length (list_body es) + 1 < MAX_SERVER_RESPONSE \<Longrightarrow>
     auction_entries check (list_body es) n response = Inr (Inr (response @ rest_text n es))"
proof (induction es arbitrary: n response)
  case Nil
  then show ?case by (simp add: auction_entries.simps rest_text_Nil)
next
  case (Cons e es)
  obtain a active where e: "e = (a, active)" by (cases e)
  have a: "clean_word a" "check a" using Cons.prems(1) e by auto
  let ?st = "if active then ''1'' else ''0''" and ?n = "if n + 1 = 6 then 0 else n + 1"
  let ?resp = "response @ ''|'' @ a @ (if ?st = ''1'' then '' - A| '' else '' - C| '') @ (if n + 1 = 6 then [LF] else [])"
  have body: "list_body (e # es) = SP # a @ SP # ?st @ list_body es" by (simp add: e list_body_Cons)
  have t1: "strtok [SP] (a @ SP # ?st @ list_body es) = (Some a, ?st @ list_body es)" by (rule strtok_word [OF a(1)])
  have t2: "strtok [SP] (?st @ list_body es) = (Some ?st, drop 1 (list_body es))"
  proof (cases es)
    case Nil
    then show ?thesis by (simp add: strtok_all)
  next
    case (Cons e' es')
    then show ?thesis using strtok_until [of ?st "[SP]" SP] by (cases e') (simp add: list_body_Cons)
  qed
  have st: "(?st \<noteq> ''1'' \<and> ?st \<noteq> ''0'') = False" by simp
  have len: "(length response + length a + 1 \<ge> MAX_SERVER_RESPONSE) = False" "(length ?resp \<ge> MAX_SERVER_RESPONSE) = False"
    "length ?resp + 3 * length (list_body es) + 1 < MAX_SERVER_RESPONSE"
    using Cons.prems(3) a(1) by (auto simp: body clean_word_def neq_Nil_conv)
  have "auction_entries check (list_body (e # es)) n response = auction_entries check (a @ SP # ?st @ list_body es) n response"
    by (simp only: body auction_entries_skip)
  also have "\<dots> = auction_entries check (drop 1 (list_body es)) ?n ?resp"
    using a(2)
    by (subst auction_entries.simps)
      (simp only: t1 t2 prod.case option.case st if_False Let_def not_True_eq_False simp_thms len(1,2))
  also have "\<dots> = Inr (Inr (?resp @ rest_text ?n es))"
    using Cons.prems(1,2) len(3) by (simp only: auction_entries_body, intro Cons.IH) auto
  finally show ?case using rest_text_Cons [OF Cons.prems(2), of e es] by (simp add: e entry_text_def)
qed

section \<open>The handlers on a list of the server\<close>

lemma list_body_chars:
  assumes "\<forall>(a, active) \<in> set es. clean_word a" "c \<in> set (list_body es)"
  shows "c \<noteq> LF" "c \<noteq> NUL"
  using assms by (auto simp: list_body_def clean_word_def split: if_splits)

lemma list_reply_tokens:
  assumes "es \<noteq> []" "\<forall>(a, active) \<in> set es. clean_word a" "clean_word w"
  shows "strtok [SP] (w @ '' OK'' @ list_body es @ [LF]) = (Some w, ''OK'' @ list_body es @ [LF])"
    "strtok [LF] (''OK'' @ list_body es @ [LF]) = (Some (''OK'' @ list_body es), [])"
    "strtok [SP] (''OK'' @ list_body es) = (Some ''OK'', drop 1 (list_body es))"
    "strtok [LF] (drop 1 (list_body es)) = (Some (drop 1 (list_body es)), [])"
    "strtok [] (drop 1 (list_body es)) = (Some (drop 1 (list_body es)), [])"
proof -
  obtain a active es' where es: "es = (a, active) # es'" using assms(1) by (cases es) auto
  have body: "list_body es = SP # drop 1 (list_body es)" "drop 1 (list_body es) \<noteq> []"
    by (simp_all add: es list_body_Cons)
  have lf: "LF \<notin> set (list_body es)" using list_body_chars [OF assms(2)] by auto
  then have lf': "LF \<notin> set (drop 1 (list_body es))" using in_set_dropD [of LF 1 "list_body es"] by auto
  show "strtok [SP] (w @ '' OK'' @ list_body es @ [LF]) = (Some w, ''OK'' @ list_body es @ [LF])"
    using strtok_word [OF assms(3), of "''OK'' @ list_body es @ [LF]"] by simp
  show "strtok [LF] (''OK'' @ list_body es @ [LF]) = (Some (''OK'' @ list_body es), [])"
    using strtok_until [of "''OK'' @ list_body es" "[LF]" LF "[]"] lf by simp
  show "strtok [SP] (''OK'' @ list_body es) = (Some ''OK'', drop 1 (list_body es))"
    by (subst body(1), rule strtok_until) simp_all
  show "strtok [LF] (drop 1 (list_body es)) = (Some (drop 1 (list_body es)), [])"
    using body(2) lf' by (intro strtok_all) auto
  show "strtok [] (drop 1 (list_body es)) = (Some (drop 1 (list_body es)), [])"
    using body(2) by (intro strtok_all) auto
qed

lemma list_exchange:
  assumes es: "\<forall>(a, active) \<in> set es. clean_word a" "length (list_body es) \<le> 8000" and w: "clean_word w" "length w \<le> 10"
    and l: "\<not> sendto_fails l" "peer l q = Datagram (w @ '' OK'' @ list_body es @ [LF])"
  shows "udp_exchange q 8191 l = (Inr (w @ '' OK'' @ list_body es @ [LF]), [q])"
  using udp_exchange_answer [of l q "w @ '' OK'' @ list_body es" 8191] list_body_chars [OF es(1)] assms
  by (auto simp: clean_word_def)

lemma list_entries_shown:
  assumes "\<forall>(a, active) \<in> set es. clean_word a \<and> check a" "length (list_body es) \<le> 8000" "length header \<le> 200"
  shows "auction_entries check (drop 1 (list_body es)) 0 header = Inr (Inr (header @ table_text es))"
  using auction_entries_table [OF assms(1), of 0 header] assms(2,3)
  unfolding auction_entries_body by (simp add: rest_text_def MAX_SERVER_RESPONSE_def)

lemma handle_list_c_shows:
  assumes es: "es \<noteq> []" "\<forall>(a, active) \<in> set es. clean_word a" "length (list_body es) \<le> 8000"
    and l: "\<not> sendto_fails l" "peer l (''LST'' @ [LF]) = Datagram (''RLS OK'' @ list_body es @ [LF])"
  shows "handle_list_c l input c = Inr (Response (list_format @ ''AS Auctions:'' @ [LF] @ table_text es), c, [''LST'' @ [LF]])"
proof -
  have w: "clean_word ''RLS''" by (simp add: clean_word_def)
  have x: "udp_exchange (''LST'' @ [LF]) 8191 l = (Inr (''RLS'' @ '' OK'' @ list_body es @ [LF]), [''LST'' @ [LF]])"
    using list_exchange [OF es(2,3) w _ l(1)] l(2) by simp
  have check: "\<forall>(a, active) \<in> set es. clean_word a \<and> True" using es(2) by simp
  have hdr: "length (list_format @ ''AS Auctions:'' @ [LF]) \<le> 200" by (simp add: list_format_def)
  have no: "(''OK'' @ list_body es = ''ERR'') = False" "(''OK'' @ list_body es = ''NOK'') = False" by simp_all
  note t = list_reply_tokens [OF es(1,2) w] and entries = list_entries_shown [OF check es(3) hdr]
  have rls: "(''RLS'' \<noteq> ''RLS'') = False" "(''OK'' \<noteq> ''OK'') = False" by simp_all
  show ?thesis unfolding handle_list_c_def Let_def
    by (simp only: x t prod.case sum.case option.case rls no if_False entries bind_ok_simps append_assoc)
qed

lemma handle_my_auctions_c_shows:
  assumes c: "client_ok c" "logged_in c" and u: "u = take 6 (c_uid c)"
    and es: "es \<noteq> []" "\<forall>(a, active) \<in> set es. is_valid_aid a" "length (list_body es) \<le> 8000"
    and l: "\<not> sendto_fails l" "peer l (''LMA '' @ u @ [LF]) = Datagram (''RMA OK'' @ list_body es @ [LF])"
  shows "handle_my_auctions_c l input c
    = Inr (Response (list_format @ ''Auctions for user '' @ u @ [LF] @ table_text es), c, [''LMA '' @ u @ [LF]])"
proof -
  have w: "clean_word ''RMA''" by (simp add: clean_word_def)
  have check: "\<forall>(a, active) \<in> set es. clean_word a \<and> is_valid_aid a"
    using es(2) valid_aid_clean by (auto simp: clean_word_def)
  then have clean: "\<forall>(a, active) \<in> set es. clean_word a" by auto
  have x: "udp_exchange (''LMA '' @ u @ [LF]) 8191 l = (Inr (''RMA'' @ '' OK'' @ list_body es @ [LF]), [''LMA '' @ u @ [LF]])"
    using list_exchange [OF clean es(3) w _ l(1)] l(2) by simp
  have hdr: "length (list_format @ ''Auctions for user '' @ u @ [LF]) \<le> 200" by (simp add: list_format_def u)
  have no: "(''OK'' @ list_body es = ''ERR'') = False" "(''OK'' @ list_body es = ''NOK'') = False"
    "(''OK'' @ list_body es = ''NLG'') = False" by simp_all
  note t = list_reply_tokens [OF es(1) clean w] and entries = list_entries_shown [OF check es(3) hdr]
  have fmt: "fmt_prec 6 (c_uid c) = u" using client_okD(3) [OF c] u by simp
  have rls: "(''RMA'' \<noteq> ''RMA'') = False" "(''OK'' \<noteq> ''OK'') = False" "(\<not> logged_in c) = False" using c(2) by simp_all
  show ?thesis unfolding handle_my_auctions_c_def Let_def
    by (simp only: fmt x t prod.case sum.case option.case rls no if_False entries bind_ok_simps append_assoc)
qed

end
