(* ===== verification/ClientRecord.thy ===== *)
theory ClientRecord
  imports ClientLists
begin

text \<open>
  The \<open>showrecord\<close> command of the client, \<open>handle_show_record\<close> of \<open>client/udp.c\<close>: the parse of the
  record, of its bids and of its end, and the text built from them. The arrays \<open>bids_str[16384]\<close>,
  \<open>bid_buff[64]\<close> and \<open>auction_status[128]\<close> of the function are checked where they are written.
\<close>

section \<open>The parse of the record\<close>

text \<open>\<open>need s f\<close>: a word that is missing or not valid ends the command with \<open>ERR_UNKNOWN_ANSWER\<close> (\<open>None\<close>).\<close>

definition need :: "string option \<times> string \<Rightarrow> (string \<Rightarrow> bool) \<Rightarrow> (string \<Rightarrow> string \<Rightarrow> 'a option outcome) \<Rightarrow> 'a option outcome" where
  "need tok valid f =
     (case tok of
        (None, _) \<Rightarrow> Inr None
      | (Some w, r) \<Rightarrow> if \<not> valid w then Inr None else f w r)"

text \<open>A date and a time, checked together.\<close>

definition need_date_time :: "string \<Rightarrow> (string \<Rightarrow> string \<Rightarrow> string \<Rightarrow> 'a option outcome) \<Rightarrow> 'a option outcome" where
  "need_date_time s f =
     need (strtok [SP] s) (\<lambda>_. True) (\<lambda>date r.
     need (strtok [SP] r) (\<lambda>_. True) (\<lambda>time r'.
     bind_ok (is_valid_date_time date time) (\<lambda>ok. if \<not> ok then Inr None else f date time r')))"

text \<open>The head of the record; the result is the text of the response and the position after it.\<close>

definition record_info :: "string \<Rightarrow> string \<Rightarrow> (string \<times> string) option outcome" where
  "record_info aid data =
     need (strtok [SP] data) is_valid_uid (\<lambda>host_uid r1.
     need (strtok [SP] r1) is_valid_name (\<lambda>name r2.
     need (strtok [SP] r2) is_valid_fname (\<lambda>fname r3.
     need (strtok [SP] r3) is_valid_start_value (\<lambda>sv r4.
     need_date_time r4 (\<lambda>start_date start_time r5.
     need (strtok [SP] r5) is_valid_time_active (\<lambda>time_active r6.
     Inr (Some
       (''Auction:        '' @ aid @ [LF] @
        ''Auction name:   '' @ name @ [LF] @
        ''Hosted by:      '' @ host_uid @ [LF] @
        ''Asset:          '' @ fname @ [LF] @
        ''Start Value:    '' @ sv @ [LF] @
        ''Date started:   '' @ start_date @ '' '' @ start_time @ [LF] @
        ''Time Active:    '' @ time_active @ [LF], r6))))))))"

text \<open>One bid: the text in \<open>bid_buff\<close> and the position after it.\<close>

definition record_bid :: "string \<Rightarrow> (string \<times> string) option outcome" where
  "record_bid s =
     need (strtok [SP] s) is_valid_uid (\<lambda>bidder_uid r1.
     need (strtok [SP] r1) is_valid_start_value (\<lambda>bid_value r2.
     need_date_time r2 (\<lambda>bid_date bid_time r3.
     need (strtok [SP] r3) is_valid_start_value (\<lambda>bid_sec r4.
     let bid_buff = ''|'' @ bidder_uid @ '' - '' @ bid_value @ '' - '' @ bid_date @ '' '' @ bid_time @ '' - '' @ bid_sec @ ''| ''
     in if length bid_buff \<ge> 64 then Inl OutOfBounds else Inr (Some (bid_buff, r4))))))"

lemma need_Some:
  assumes "need tok valid f = Inr (Some x)"
  obtains w r where "tok = (Some w, r)" "valid w" "f w r = Inr (Some x)"
  using assms by (auto simp: need_def split: option.splits prod.splits if_splits)

lemma need_date_time_Some:
  assumes "need_date_time s f = Inr (Some x)"
  obtains date time r1 r2 where "strtok [SP] s = (Some date, r1)" "strtok [SP] r1 = (Some time, r2)"
    "is_valid_date_time date time = Inr True" "f date time r2 = Inr (Some x)"
proof -
  obtain date r1 time r2 where d: "strtok [SP] s = (Some date, r1)" "strtok [SP] r1 = (Some time, r2)"
    and b: "bind_ok (is_valid_date_time date time) (\<lambda>ok. if \<not> ok then Inr None else f date time r2) = Inr (Some x)"
    using assms unfolding need_date_time_def by (elim need_Some) blast
  from b have "is_valid_date_time date time = Inr True" "f date time r2 = Inr (Some x)"
    by (auto simp: bind_ok_Inr_iff split: if_splits)
  with d show ?thesis by (rule that)
qed

lemma record_bid_shorter: "record_bid s = Inr (Some (b, r)) \<Longrightarrow> length r < length s"
  unfolding record_bid_def
  by (elim need_Some need_date_time_Some)
    (auto dest!: strtok_shorter simp: Let_def split: if_splits)

text \<open>
  The loop over the \<open>B\<close> entries. The result is the token that ended it with the position after it, the
  entries on the last line, and \<open>bids_str\<close>.
\<close>

function record_bids :: "string \<Rightarrow> nat \<Rightarrow> string \<Rightarrow> (string option \<times> string \<times> nat \<times> string) option outcome" where
  "record_bids s per_line_count bids_str =
     (case strtok [SP] s of
        (None, r) \<Rightarrow> Inr (Some (None, r, per_line_count, bids_str))
      | (Some token, r) \<Rightarrow>
          if token \<noteq> ''B'' then Inr (Some (Some token, r, per_line_count, bids_str))
          else case record_bid r of
            Inl f \<Rightarrow> Inl f
          | Inr None \<Rightarrow> Inr None
          | Inr (Some (bid_buff, r')) \<Rightarrow>
              let n = per_line_count + 1; bids_str' = bids_str @ bid_buff @ (if n = 2 then [LF] else [])
              in if length bids_str' \<ge> 16384 then Inl OutOfBounds
                 else record_bids r' (if n = 2 then 0 else n) bids_str')"
  by pat_completeness auto
termination
proof (relation "measure (\<lambda>(s, n, bids_str). length s)", goal_cases)
  case (2 s n bids_str x r token)
  then show ?case by (auto dest!: sym [of _ "strtok [SP] s"] strtok_shorter record_bid_shorter)
qed simp

declare record_bids.simps [simp del]

text \<open>The \<open>E\<close> entry: the text of \<open>auction_status\<close>.\<close>

definition record_status :: "string option \<Rightarrow> string \<Rightarrow> string option outcome" where
  "record_status token s =
     (case token of
        None \<Rightarrow> Inr (Some (''Status: Active'' @ [LF]))
      | Some w \<Rightarrow>
          if w \<noteq> ''E'' then Inr None
          else need_date_time s (\<lambda>end_date end_time r.
            need (strtok [LF] r) is_valid_start_value (\<lambda>end_sec_time _.
            let auction_status = ''Status:         Closed'' @ [LF] @
                                 ''End Date:       '' @ end_date @ '' '' @ end_time @ [LF] @
                                 ''End Sec Time:   '' @ end_sec_time @ [LF]
            in if length auction_status \<ge> 128 then Inl OutOfBounds else Inr (Some auction_status))))"

text \<open>From the data of the reply to the whole response.\<close>

definition record_response :: "string \<Rightarrow> string \<Rightarrow> string option outcome" where
  "record_response aid data =
     bind_ok (record_info aid data) (\<lambda>info.
     case info of
       None \<Rightarrow> Inr None
     | Some (response, r) \<Rightarrow>
     bind_ok (record_bids r 0 []) (\<lambda>res.
     case res of
       None \<Rightarrow> Inr None
     | Some (token, r', per_line_count, bids_str) \<Rightarrow>
     let bids_str' = bids_str @ (if per_line_count \<noteq> 2 then [LF] else [])
     in if length bids_str' \<ge> 16384 then Inl OutOfBounds
        else bind_ok (record_status token r') (\<lambda>status.
          case status of
            None \<Rightarrow> Inr None
          | Some auction_status \<Rightarrow>
              let text = response @ auction_status @ ''Bids:'' @ [LF] @ bids_str'
              in if length text \<ge> MAX_SERVER_RESPONSE then Inl OutOfBounds else Inr (Some text))))"

definition handle_show_record_c :: "udp_link \<Rightarrow> string \<Rightarrow> client_state \<Rightarrow> udp_list_result" where
  "handle_show_record_c l input client =
     (case strtok [SP] input of
        (None, _) \<Rightarrow> Inr (Code ERR_NULL_ARGS, client, [])
      | (Some aid, _) \<Rightarrow>
     if \<not> is_valid_aid aid then Inr (Code ERR_INVALID_AID, client, [])
     else case udp_exchange (''SRC '' @ fmt_prec 3 aid @ [LF]) 65534 l of
        (Inl code, sent) \<Rightarrow> Inr (Code code, client, sent)
      | (Inr buffer, sent) \<Rightarrow>
     let unknown = Inr (Code ERR_UNKNOWN_ANSWER, client, sent)
     in case strtok [SP] buffer of
        (None, _) \<Rightarrow> unknown
      | (Some command, r1) \<Rightarrow>
     if command \<noteq> ''RRC'' then unknown
     else case strtok [LF] r1 of
        (None, _) \<Rightarrow> unknown
      | (Some payload, _) \<Rightarrow>
     if payload = ''ERR'' then
       Inr (Response (''Server returned an error status for the showrecord command'' @ [LF]), client, sent)
     else if payload = ''NOK'' then Inr (Response (''Auction doesnt exist'' @ [LF]), client, sent)
     else case strtok [SP] payload of
        (None, _) \<Rightarrow> unknown
      | (Some status, r2) \<Rightarrow>
     if status \<noteq> ''OK'' then unknown
     else case strtok [LF] r2 of
        (None, _) \<Rightarrow> unknown
      | (Some data, _) \<Rightarrow>
     bind_ok (record_response aid data) (\<lambda>res.
       case res of None \<Rightarrow> unknown | Some text \<Rightarrow> Inr (Response text, client, sent)))"

section \<open>What the user reads\<close>

text \<open>
  A bid of a record: bidder, value, time and seconds since the start. \<open>bid_words\<close> is its form in the
  reply of the server, \<open>bid_shown\<close> its form on the screen, two per line.
\<close>

type_synonym bid_rec = "string \<times> int \<times> int \<times> int"

fun bid_rec_ok :: "bid_rec \<Rightarrow> bool" where
  "bid_rec_ok (u, v, t, x) = (is_valid_uid u \<and> 0 \<le> v \<and> v \<le> 999999 \<and> 0 \<le> t \<and> t < 2 ^ 36 \<and> 0 \<le> x \<and> x \<le> 999999)"

fun bid_words :: "bid_rec \<Rightarrow> string" where
  "bid_words (u, v, t, x) = '' B '' @ u @ '' '' @ fmt_d v @ '' '' @ datetime_str t @ '' '' @ fmt_d x"

fun bid_shown :: "bid_rec \<Rightarrow> string" where
  "bid_shown (u, v, t, x) = ''|'' @ u @ '' - '' @ fmt_d v @ '' - '' @ datetime_str t @ '' - '' @ fmt_d x @ ''| ''"

fun bids_shown :: "bid_rec list \<Rightarrow> string" where
  "bids_shown [] = []"
| "bids_shown [b] = bid_shown b"
| "bids_shown (b1 # b2 # bs) = bid_shown b1 @ bid_shown b2 @ [LF] @ bids_shown bs"

definition bids_from :: "nat \<Rightarrow> bid_rec list \<Rightarrow> string" where
  "bids_from n bs = (if n = 0 then bids_shown bs else case bs of [] \<Rightarrow> [] | b # bs' \<Rightarrow> bid_shown b @ [LF] @ bids_shown bs')"

lemma bids_from_Cons:
  "n < 2 \<Longrightarrow> bids_from n (b # bs) = bid_shown b @ (if n + 1 = 2 then [LF] else []) @ bids_from (if n + 1 = 2 then 0 else n + 1) bs"
  by (cases bs) (auto simp: bids_from_def)

lemma bids_from_Nil [simp]: "bids_from n [] = []"
  by (simp add: bids_from_def)

lemma strtok_word_more:
  "clean_word w \<Longrightarrow> rst = [] \<or> hd rst = SP \<Longrightarrow> strtok [SP] (w @ rst) = (Some w, drop 1 rst)"
  using strtok_word [of w] strtok_all [of w "[SP]"] by (cases rst) (auto simp: clean_word_def)

lemma record_bid_words:
  assumes "bid_rec_ok (u, v, t, x)" "rst = [] \<or> hd rst = SP"
  shows "record_bid (u @ SP # fmt_d v @ SP # datetime_str t @ SP # fmt_d x @ rst) = Inr (Some (bid_shown (u, v, t, x), drop 1 rst))"
proof -
  have tm: "tm_ok (gmtime t)" using assms(1) by (simp add: gmtime_ok)
  have w: "clean_word u" "clean_word (fmt_d v)" "clean_word (date_word (gmtime t))" "clean_word (time_word (gmtime t))"
    "clean_word (fmt_d x)"
    using assms(1) clean_valid clean_fmt_d clean_date [OF tm] clean_time [OF tm] by auto
  have val: "is_valid_uid u" "is_valid_start_value (fmt_d v)" "is_valid_start_value (fmt_d x)"
    using assms(1) fmt_d_valid_start_value by auto
  have len: "\<not> length (bid_shown (u, v, t, x)) \<ge> 64"
    using val date_word_clean(2) [OF tm] time_word_clean(2) [OF tm]
    by (simp add: datetime_words is_valid_uid_iff is_valid_start_value_iff)
  have shown: "bid_shown (u, v, t, x) = ''|'' @ u @ '' - '' @ fmt_d v @ '' - '' @ date_word (gmtime t) @ '' '' @
      time_word (gmtime t) @ '' - '' @ fmt_d x @ ''| ''"
    by (simp add: datetime_words)
  note tok = strtok_word [OF w(1)] strtok_word [OF w(2)] strtok_word [OF w(3)] strtok_word [OF w(4)] strtok_word_more [OF w(5) assms(2)]
  show ?thesis
    unfolding record_bid_def need_def need_date_time_def datetime_words
    by (simp only: tok prod.case option.case val not_True_eq_False if_False date_time_words_valid [OF tm] bind_ok_simps Let_def
      shown [symmetric] len)
qed

lemma record_bids_skip: "record_bids (SP # s) n acc = record_bids s n acc"
proof -
  have "strtok [SP] (SP # s) = strtok [SP] s" by (simp add: strtok_skip)
  note eq = record_bids.simps [of "SP # s" n acc, unfolded this]
  show ?thesis by (rule trans [OF eq record_bids.simps [of s n acc, symmetric]])
qed

lemma record_bids_drop: "s = [] \<or> hd s = SP \<Longrightarrow> record_bids (drop 1 s) n acc = record_bids s n acc"
  using record_bids_skip by (cases s) auto

lemma record_bids_words:
  assumes tail: "tail = [] \<or> hd tail = SP" "fst (strtok [SP] tail) \<noteq> Some ''B''"
  shows "\<forall>b \<in> set bs. bid_rec_ok b \<Longrightarrow> n < 2 \<Longrightarrow> record_bids (concat (map bid_words bs) @ tail) n acc =
     (if bs \<noteq> [] \<and> length (acc @ bids_from n bs) \<ge> 16384 then Inl OutOfBounds
      else Inr (Some (fst (strtok [SP] tail), snd (strtok [SP] tail), (n + length bs) mod 2, acc @ bids_from n bs)))"
proof (induction bs arbitrary: n acc)
  case Nil
  then show ?case using tail(2) by (subst record_bids.simps) (auto split: prod.split option.split)
next
  case (Cons b bs)
  obtain u v t x where b: "b = (u, v, t, x)" by (cases b)
  let ?rst = "concat (map bid_words bs) @ tail" and ?n = "if n + 1 = 2 then 0 else n + 1"
  let ?acc = "acc @ bid_shown b @ (if n + 1 = 2 then [LF] else [])"
  have rst: "?rst = [] \<or> hd ?rst = SP" using tail(1) by (cases bs) auto
  have ok: "bid_rec_ok (u, v, t, x)" using Cons.prems b by simp
  have t0: "strtok [SP] (''B'' @ SP # r) = (Some ''B'', r)" for r by (rule strtok_word) (simp add: clean_word_def)
  have "record_bids (concat (map bid_words (b # bs)) @ tail) n acc =
      record_bids (''B'' @ SP # u @ SP # fmt_d v @ SP # datetime_str t @ SP # fmt_d x @ ?rst) n acc"
    using record_bids_skip by (simp add: b)
  also have "\<dots> = (if length ?acc \<ge> 16384 then Inl OutOfBounds else record_bids ?rst ?n ?acc)"
    unfolding record_bids.simps [of "''B'' @ SP # _"] t0
    by (simp only: prod.case option.case simp_thms if_False record_bid_words [OF ok rst] sum.case Let_def b [symmetric]
      record_bids_drop [OF rst])
  also have "\<dots> = (if length (acc @ bids_from n (b # bs)) \<ge> 16384 then Inl OutOfBounds
      else Inr (Some (fst (strtok [SP] tail), snd (strtok [SP] tail), (n + length (b # bs)) mod 2, acc @ bids_from n (b # bs))))"
  proof -
    have acc: "acc @ bids_from n (b # bs) = ?acc @ bids_from ?n bs" using bids_from_Cons [OF Cons.prems(2)] by simp
    have n: "(?n + length bs) mod 2 = (n + length (b # bs)) mod 2" using Cons.prems(2) by (cases "n = 1") auto
    have len: "length ?acc \<le> length (acc @ bids_from n (b # bs))" unfolding acc by simp
    have IH: "record_bids ?rst ?n ?acc = (if bs \<noteq> [] \<and> length (?acc @ bids_from ?n bs) \<ge> 16384 then Inl OutOfBounds
      else Inr (Some (fst (strtok [SP] tail), snd (strtok [SP] tail), (?n + length bs) mod 2, ?acc @ bids_from ?n bs)))"
      using Cons.prems by (intro Cons.IH) auto
    show ?thesis
    proof (cases "length ?acc \<ge> 16384")
      case True
      then show ?thesis using len by (simp only: if_True) simp
    next
      case False
      then show ?thesis unfolding IH acc n by (cases bs) simp_all
    qed
  qed
  finally show ?case by simp
qed

text \<open>The whole record: the line of the server and the screen of the client.\<close>

fun end_words :: "(int \<times> int) option \<Rightarrow> string" where
  "end_words None = []"
| "end_words (Some (t, x)) = '' E '' @ datetime_str t @ '' '' @ fmt_d x"

fun end_rec_ok :: "(int \<times> int) option \<Rightarrow> bool" where
  "end_rec_ok None = True"
| "end_rec_ok (Some (t, x)) = (0 \<le> t \<and> t < 2 ^ 36 \<and> 0 \<le> x \<and> x \<le> 999999)"

fun status_shown :: "(int \<times> int) option \<Rightarrow> string" where
  "status_shown None = ''Status: Active'' @ [LF]"
| "status_shown (Some (t, x)) = ''Status:         Closed'' @ [LF] @ ''End Date:       '' @ datetime_str t @ [LF] @
     ''End Sec Time:   '' @ fmt_d x @ [LF]"

definition record_words :: "string \<Rightarrow> string \<Rightarrow> string \<Rightarrow> int \<Rightarrow> int \<Rightarrow> int \<Rightarrow> bid_rec list \<Rightarrow> (int \<times> int) option \<Rightarrow> string" where
  "record_words uid name fname sv ta t bs e =
     uid @ '' '' @ name @ '' '' @ fname @ '' '' @ fmt_d sv @ '' '' @ datetime_str t @ '' '' @ fmt_d ta
       @ concat (map bid_words bs) @ end_words e"

definition info_shown :: "string \<Rightarrow> string \<Rightarrow> string \<Rightarrow> string \<Rightarrow> int \<Rightarrow> int \<Rightarrow> int \<Rightarrow> string" where
  "info_shown a uid name fname sv ta t =
     ''Auction:        '' @ a @ [LF] @ ''Auction name:   '' @ name @ [LF] @ ''Hosted by:      '' @ uid @ [LF] @
     ''Asset:          '' @ fname @ [LF] @ ''Start Value:    '' @ fmt_d sv @ [LF] @
     ''Date started:   '' @ datetime_str t @ [LF] @ ''Time Active:    '' @ fmt_d ta @ [LF]"

definition record_shown :: "string \<Rightarrow> string \<Rightarrow> string \<Rightarrow> string \<Rightarrow> int \<Rightarrow> int \<Rightarrow> int \<Rightarrow> bid_rec list \<Rightarrow> (int \<times> int) option \<Rightarrow> string" where
  "record_shown a uid name fname sv ta t bs e =
     info_shown a uid name fname sv ta t @ status_shown e @ ''Bids:'' @ [LF] @ bids_shown bs @ [LF]"

lemma record_info_words:
  assumes "start_ok uid name fname sv ta t" "rst = [] \<or> hd rst = SP"
  shows "record_info a (uid @ '' '' @ name @ '' '' @ fname @ '' '' @ fmt_d sv @ '' '' @ datetime_str t @ '' '' @ fmt_d ta @ rst)
    = Inr (Some (info_shown a uid name fname sv ta t, drop 1 rst))"
proof -
  note w = start_okD [OF assms(1)]
  have val: "is_valid_uid uid" "is_valid_name name" "is_valid_fname fname" "is_valid_start_value (fmt_d sv)"
    "is_valid_time_active (fmt_d ta)"
    using assms(1) by (simp_all add: start_ok_def fmt_d_valid_start_value fmt_d_valid_time_active)
  note tok = strtok_word [OF w(1)] strtok_word [OF w(2)] strtok_word [OF w(3)] strtok_word [OF w(4)] strtok_word [OF w(6)]
    strtok_word [OF w(7)] strtok_word_more [OF w(5) assms(2)]
  show ?thesis
    unfolding record_info_def need_def need_date_time_def datetime_words info_shown_def append_Cons append_Nil
    by (simp only: tok prod.case option.case val not_True_eq_False if_False date_time_words_valid [OF w(9)] bind_ok_simps
      append_Cons append_Nil append_assoc)
qed

lemma record_status_words:
  assumes "end_rec_ok e"
  shows "record_status (fst (strtok [SP] (end_words e))) (snd (strtok [SP] (end_words e))) = Inr (Some (status_shown e))"
proof (cases e)
  case (Some tx)
  obtain t x where e: "e = Some (t, x)" using Some by (cases tx) auto
  have tm: "tm_ok (gmtime t)" using assms by (simp add: e gmtime_ok)
  have w: "clean_word ''E''" "clean_word (date_word (gmtime t))" "clean_word (time_word (gmtime t))" "clean_word (fmt_d x)"
    using assms clean_fmt_d clean_date [OF tm] clean_time [OF tm] by (auto simp: e clean_word_def)
  have val: "is_valid_start_value (fmt_d x)" using assms by (simp add: e fmt_d_valid_start_value)
  have t0: "strtok [SP] (end_words e) = (Some ''E'', datetime_str t @ '' '' @ fmt_d x)"
    using strtok_word [OF w(1)] by (simp add: e strtok_skip)
  have len: "\<not> length (status_shown e) \<ge> 128"
    using val date_word_clean(2) [OF tm] time_word_clean(2) [OF tm]
    by (simp add: e datetime_words is_valid_start_value_iff)
  have shown: "status_shown e = ''Status:         Closed'' @ [LF] @ ''End Date:       '' @ date_word (gmtime t) @ '' '' @
      time_word (gmtime t) @ [LF] @ ''End Sec Time:   '' @ fmt_d x @ [LF]"
    by (simp add: e datetime_words)
  have E: "(''E'' \<noteq> ''E'') = False" by simp
  show ?thesis
    unfolding t0 record_status_def need_def need_date_time_def datetime_words append_Cons append_Nil fst_conv snd_conv
    by (simp only: prod.case option.case E strtok_word [OF w(2)] strtok_word [OF w(3)] strtok_line_end [OF w(4)] val
      not_True_eq_False if_False date_time_words_valid [OF tm] bind_ok_simps Let_def shown append_Cons append_Nil
      len [unfolded shown append_Cons append_Nil])
qed (simp add: record_status_def)

lemma record_shown_length:
  assumes "start_ok uid name fname sv ta t" "end_rec_ok e" "is_valid_aid a"
  shows "length (record_shown a uid name fname sv ta t bs e) \<le> 400 + length (bids_shown bs)"
proof -
  have v: "length uid = 6" "length name \<le> 10" "length fname \<le> 24" "length (fmt_d sv) \<le> 6" "length (fmt_d ta) \<le> 5"
    using assms(1) fmt_d_length_le [of sv 6] fmt_d_length_le [of ta 5]
    by (auto simp: start_ok_def is_valid_uid_iff is_valid_name_iff is_valid_fname_iff)
  have dt: "length (datetime_str z) = 19" if "tm_ok (gmtime z)" for z
    using date_word_clean(2) [OF that] time_word_clean(2) [OF that] datetime_words [of z "[]"] by simp
  have "length (status_shown e) \<le> 100"
    using assms(2) fmt_d_length_le [of "snd (the e)" 6] by (cases e) (auto simp: dt gmtime_ok)
  then show ?thesis using v dt [OF start_okD(9) [OF assms(1)]] assms(3)
    by (simp add: record_shown_def info_shown_def is_valid_aid_iff)
qed

lemma record_response_words:
  assumes "start_ok uid name fname sv ta t" "\<forall>b \<in> set bs. bid_rec_ok b" "end_rec_ok e" "is_valid_aid a"
  shows "record_response a (record_words uid name fname sv ta t bs e) =
    (if length (bids_shown bs) + 1 \<ge> 16384 then Inl OutOfBounds
     else Inr (Some (record_shown a uid name fname sv ta t bs e)))"
proof -
  let ?tail = "end_words e" and ?rst = "concat (map bid_words bs) @ end_words e"
  have tail: "?tail = [] \<or> hd ?tail = SP" "fst (strtok [SP] ?tail) \<noteq> Some ''B''"
    using strtok_word [of "''E''"] by (cases e; force simp: clean_word_def strtok_skip)+
  have rst: "?rst = [] \<or> hd ?rst = SP" using tail(1) by (cases bs) auto
  have loop: "record_bids (drop 1 ?rst) 0 [] = (if bs \<noteq> [] \<and> length (bids_shown bs) \<ge> 16384 then Inl OutOfBounds
      else Inr (Some (fst (strtok [SP] ?tail), snd (strtok [SP] ?tail), length bs mod 2, bids_shown bs)))"
    unfolding record_bids_drop [OF rst] using record_bids_words [OF tail assms(2), of 0 "[]"] by (simp add: bids_from_def)
  have mod: "length bs mod 2 \<noteq> 2" by (metis mod_less_divisor less_irrefl zero_less_numeral)
  note info = record_info_words [OF assms(1) rst, of a, folded record_words_def]
  have fit: "\<not> length (record_shown a uid name fname sv ta t bs e) \<ge> MAX_SERVER_RESPONSE" if "length (bids_shown bs) < 16384"
    using record_shown_length [OF assms(1,3,4), of bs] that by (simp add: MAX_SERVER_RESPONSE_def)
  have whole: "info_shown a uid name fname sv ta t @ status_shown e @ ''Bids:'' @ [LF] @ bids_shown bs @ [LF]
      = record_shown a uid name fname sv ta t bs e" by (simp only: record_shown_def)
  show ?thesis
  proof (cases "length (bids_shown bs) \<ge> 16384")
    case True
    then have "bs \<noteq> []" by auto
    then show ?thesis using True by (simp only: record_response_def info loop bind_ok_simps option.case prod.case if_True simp_thms) simp
  next
    case False
    then have loop': "record_bids (drop 1 ?rst) 0 [] = Inr (Some (fst (strtok [SP] ?tail), snd (strtok [SP] ?tail),
        length bs mod 2, bids_shown bs))" and fit': "(length (record_shown a uid name fname sv ta t bs e) \<ge> MAX_SERVER_RESPONSE) = False"
      using loop fit by simp_all
    have odd: "(if length bs mod 2 \<noteq> 2 then [LF] else []) = [LF]" using mod by simp
    have len: "length (bids_shown bs @ [LF]) = length (bids_shown bs) + 1" by simp
    show ?thesis
      by (simp only: record_response_def info loop' bind_ok_simps option.case prod.case odd len
        record_status_words [OF assms(3)] Let_def whole fit' if_False)
  qed
qed

section \<open>The command\<close>

definition plain :: "string \<Rightarrow> bool" where
  "plain s \<longleftrightarrow> LF \<notin> set s \<and> NUL \<notin> set s"

lemma plain_simps [simp]:
  "plain []" "plain (c # s) \<longleftrightarrow> c \<noteq> LF \<and> c \<noteq> NUL \<and> plain s" "plain (s @ s') \<longleftrightarrow> plain s \<and> plain s'"
  by (auto simp: plain_def)

lemma clean_plain: "clean_word w \<Longrightarrow> plain w"
  by (simp add: clean_word_def plain_def)

lemma datetime_plain: "tm_ok (gmtime t) \<Longrightarrow> plain (datetime_str t)"
  using datetime_words [of t "[]"] clean_plain clean_date clean_time by simp

lemma record_words_plain:
  assumes "start_ok uid name fname sv ta t" "\<forall>b \<in> set bs. bid_rec_ok b" "end_rec_ok e"
  shows "plain (record_words uid name fname sv ta t bs e)"
proof -
  have b: "plain (bid_words b)" if "b \<in> set bs" for b
    using assms(2) that clean_valid clean_fmt_d by (cases b) (force intro: datetime_plain clean_plain simp: gmtime_ok)
  have "plain (concat (map bid_words bs))" using b by (induction bs) auto
  moreover have "plain (end_words e)"
    using assms(3) by (cases e) (auto simp: datetime_plain clean_plain clean_fmt_d gmtime_ok)
  ultimately show ?thesis
    using start_okD [OF assms(1)] by (simp add: record_words_def clean_plain datetime_plain)
qed

lemma show_record_exchange:
  assumes "\<not> sendto_fails l" "peer l q = Datagram (''RRC '' @ s @ [LF])" "plain s" "length s \<le> 65000"
  shows "udp_exchange q 65534 l = (Inr (''RRC'' @ SP # s @ [LF]), [q])"
  using assms udp_exchange_answer [of l q "''RRC '' @ s" 65534] by (simp add: plain_def)

lemma show_record_c_display:
  assumes rec: "start_ok uid name fname sv ta t" "\<forall>b \<in> set bs. bid_rec_ok b" "end_rec_ok e" and a: "is_valid_aid a"
    and l: "\<not> sendto_fails l" "peer l (''SRC '' @ a @ [LF]) = Datagram (''RRC OK '' @ record_words uid name fname sv ta t bs e @ [LF])"
    and len: "length (record_words uid name fname sv ta t bs e) \<le> 64000"
  shows "handle_show_record_c l a c =
    (if length (bids_shown bs) + 1 \<ge> 16384 then Inl OutOfBounds
     else Inr (Response (record_shown a uid name fname sv ta t bs e), c, [''SRC '' @ a @ [LF]]))"
proof -
  let ?w = "record_words uid name fname sv ta t bs e"
  have p: "plain ?w" by (rule record_words_plain [OF rec])
  have ne: "?w \<noteq> []" by (simp add: record_words_def)
  have x: "udp_exchange (''SRC '' @ a @ [LF]) 65534 l = (Inr (''RRC'' @ SP # (''OK'' @ SP # ?w) @ [LF]), [''SRC '' @ a @ [LF]])"
    using show_record_exchange [OF l(1), of "''SRC '' @ a @ [LF]" "''OK'' @ SP # ?w"] l(2) p len by simp
  have w: "clean_word ''RRC''" "clean_word ''OK''" "clean_word a" using a valid_aid_clean by (simp_all add: clean_word_def)
  have pay: "strtok [LF] ((''OK'' @ SP # ?w) @ [LF]) = (Some (''OK'' @ SP # ?w), [])"
    using p by (intro strtok_until) (auto simp: plain_def)
  have data: "strtok [LF] ?w = (Some ?w, [])" using p ne by (intro strtok_all) (auto simp: plain_def)
  have tok: "strtok [SP] a = (Some a, [])" using strtok_word_more [OF w(3), of "[]"] by simp
  have no: "(''OK'' @ SP # ?w = ''ERR'') = False" "(''OK'' @ SP # ?w = ''NOK'') = False" "(''RRC'' \<noteq> ''RRC'') = False"
    "(''OK'' \<noteq> ''OK'') = False" "fmt_prec 3 a = a" "is_valid_aid a" using a by simp_all
  have "handle_show_record_c l a c = bind_ok (record_response a ?w) (\<lambda>res.
       case res of None \<Rightarrow> Inr (Code ERR_UNKNOWN_ANSWER, c, [''SRC '' @ a @ [LF]])
       | Some text \<Rightarrow> Inr (Response text, c, [''SRC '' @ a @ [LF]]))"
    unfolding handle_show_record_c_def Let_def
    by (simp only: tok no x prod.case sum.case option.case if_False not_True_eq_False strtok_word [OF w(1)] strtok_word [OF w(2)]
      pay data)
  then show ?thesis using record_response_words [OF rec a] by simp
qed

lemma bids_shown_length:
  "\<forall>b \<in> set bs. length (bid_shown b) \<le> k \<Longrightarrow> length (bids_shown bs) \<le> (k + 1) * length bs"
  by (induction bs rule: bids_shown.induct) auto

lemma bids_shown_longer: "sum_list (map (length \<circ> bid_shown) bs) \<le> length (bids_shown bs)"
  by (induction bs rule: bids_shown.induct) auto

lemma bid_shown_length:
  assumes "bid_rec_ok b"
  shows "length (bid_shown b) \<le> 49"
proof -
  obtain u v t x where b: "b = (u, v, t, x)" by (cases b)
  have tm: "tm_ok (gmtime t)" using assms by (simp add: b gmtime_ok)
  have "length (datetime_str t) = 19" using date_word_clean(2) [OF tm] time_word_clean(2) [OF tm] datetime_words [of t "[]"] by simp
  then show ?thesis using assms fmt_d_length_le [of v 6] fmt_d_length_le [of x 6] by (simp add: b is_valid_uid_iff)
qed

text \<open>
  C24. \<open>showrecord\<close> displays every well-formed record as it is, its bids two per line and in the order of the
  reply, with its end; but \<open>bids_str\<close> holds only 16384 bytes and is filled without a check, so that a
  reply whose bids need more makes the client write outside the array. The fifty bids a server of this
  repository sends stay below that bound.
\<close>

theorem show_record_display:
  assumes rec: "start_ok uid name fname sv ta t" "\<forall>b \<in> set bs. bid_rec_ok b" "end_rec_ok e" and a: "is_valid_aid a"
    and l: "\<not> sendto_fails l" "peer l (''SRC '' @ a @ [LF]) = Datagram (''RRC OK '' @ record_words uid name fname sv ta t bs e @ [LF])"
    and len: "length (record_words uid name fname sv ta t bs e) \<le> 64000"
  shows "handle_show_record_c l a c =
    (if length (bids_shown bs) + 1 \<ge> 16384 then Inl OutOfBounds
     else Inr (Response (record_shown a uid name fname sv ta t bs e), c, [''SRC '' @ a @ [LF]]))
    \<and> (length bs \<le> 50 \<longrightarrow> length (bids_shown bs) + 1 < 16384)"
proof -
  have "length (bids_shown bs) \<le> (49 + 1) * length bs"
    using bid_shown_length rec(2) by (intro bids_shown_length) auto
  then show ?thesis using show_record_c_display [OF rec a l len] by simp
qed

text \<open>A record with two bids and an end, and one with 500 bids, which overflows \<open>bids_str\<close>.\<close>

definition example_bid :: bid_rec where
  "example_bid = (''654321'', 20, 1700000100, 100)"

definition record_link :: "bid_rec list \<Rightarrow> (int \<times> int) option \<Rightarrow> udp_link" where
  "record_link bs e = \<lparr>sendto_fails = False,
     peer = (\<lambda>_. Datagram (''RRC OK '' @ record_words ''123456'' ''lamp'' ''lamp.jpg'' 10 3600 1700000000 bs e @ [LF])),
     stale_errno = None\<rparr>"

theorem show_record_display_witness:
  "(\<exists>shown. handle_show_record_c (record_link [example_bid, example_bid] (Some (1700003600, 3600))) ''001'' fresh_client
      = Inr (Response (shown @ ''Bids:'' @ [LF] @ ''|654321 - 20 - 2023-11-14 22:15:00 - 100| ''
          @ ''|654321 - 20 - 2023-11-14 22:15:00 - 100| '' @ [LF, LF]), fresh_client, [''SRC 001'' @ [LF]]))
   \<and> handle_show_record_c (record_link (replicate 500 example_bid) None) ''001'' fresh_client = Inl OutOfBounds"
proof -
  have fmt: "fmt_d 10 = ''10''" "fmt_d 20 = ''20''" "fmt_d 100 = ''100''" "fmt_d 3600 = ''3600''"
    "datetime_str 1700000000 = ''2023-11-14 22:13:20''" "datetime_str 1700000100 = ''2023-11-14 22:15:00''"
    "datetime_str 1700003600 = ''2023-11-14 23:13:20''" by code_simp+
  have s: "start_ok ''123456'' ''lamp'' ''lamp.jpg'' 10 3600 1700000000"
    by (simp add: start_ok_def is_valid_uid_iff is_valid_name_iff is_valid_fname_iff is_valid_name_char_def
      is_valid_path_char_def isdigit_def isalnum_def isalpha_def clean_word_def)
  have a: "is_valid_aid ''001''" and b: "bid_rec_ok example_bid"
    by (simp_all add: example_bid_def is_valid_aid_iff is_valid_uid_iff isdigit_def)
  have shown: "bid_shown example_bid = ''|654321 - 20 - 2023-11-14 22:15:00 - 100| ''"
    and words: "length (bid_words example_bid) = 36" by (simp_all add: example_bid_def fmt)
  have len: "length (record_words ''123456'' ''lamp'' ''lamp.jpg'' 10 3600 1700000000 bs e) \<le> 100 + length (concat (map bid_words bs))"
    if "e \<in> {None, Some (1700003600, 3600)}" for bs e
    using that by (auto simp: record_words_def fmt)
  have big: "length (concat (map bid_words (replicate k example_bid))) = 36 * k" for k
    by (induction k) (simp_all add: words)
  have "sum_list (map (length \<circ> bid_shown) (replicate 500 example_bid)) = 500 * 42"
    by (simp add: shown sum_list_replicate)
  then have over: "length (bids_shown (replicate 500 example_bid)) + 1 \<ge> 16384"
    using bids_shown_longer [of "replicate 500 example_bid"] by linarith
  have two: "bids_shown [example_bid, example_bid] = bid_shown example_bid @ bid_shown example_bid @ [LF]"
    by simp
  have "handle_show_record_c (record_link (replicate 500 example_bid) None) ''001'' fresh_client = Inl OutOfBounds"
    using show_record_display [OF s _ _ a, of "replicate 500 example_bid" None "record_link (replicate 500 example_bid) None" fresh_client]
      over b len [of None "replicate 500 example_bid"] big [of 500] by (simp add: record_link_def)
  moreover have "handle_show_record_c (record_link [example_bid, example_bid] (Some (1700003600, 3600))) ''001'' fresh_client
      = Inr (Response (record_shown ''001'' ''123456'' ''lamp'' ''lamp.jpg'' 10 3600 1700000000 [example_bid, example_bid]
          (Some (1700003600, 3600))), fresh_client, [''SRC 001'' @ [LF]])"
    using show_record_display [OF s _ _ a, of "[example_bid, example_bid]" "Some (1700003600, 3600)"
        "record_link [example_bid, example_bid] (Some (1700003600, 3600))" fresh_client]
      b len [of "Some (1700003600, 3600)" "[example_bid, example_bid]"] words by (simp add: record_link_def shown two)
  ultimately show ?thesis by (auto simp: record_shown_def two shown)
qed

end
