(* ===== verification/ClientShell.thy ===== *)
theory ClientShell
  imports ClientTcp ClientRecord
begin

text \<open>
  The command interpreter of the client: \<open>client/command_table.c\<close>, \<open>client/handlers.c\<close> and the event loop
  \<open>run_client\<close> of \<open>client/client.c\<close>, from the bytes of standard input to the texts displayed.
\<close>

section \<open>The command table\<close>

datatype command =
  C_login | C_logout | C_unregister | C_exit | C_open | C_close | C_my_auctions | C_my_bids | C_list |
  C_show_asset | C_bid | C_show_record | C_clear | C_help | C_format

definition command_table :: "(string \<times> command) list" where
  "command_table =
     [(''login'', C_login), (''logout'', C_logout), (''unregister'', C_unregister), (''exit'', C_exit),
      (''q'', C_exit), (''quit'', C_exit), (''open'', C_open), (''close'', C_close),
      (''myauctions'', C_my_auctions), (''ma'', C_my_auctions), (''mybids'', C_my_bids), (''mb'',
      C_my_bids), (''list'', C_list), (''l'', C_list), (''showasset'', C_show_asset), (''sa'',
      C_show_asset), (''bid'', C_bid), (''b'', C_bid), (''showrecord'', C_show_record), (''sr'',
      C_show_record), (''clear'', C_clear), (''help'', C_help), (''h'', C_help), (''?'', C_help),
      (''f'', C_format), (''format'', C_format)]"

definition get_handler_func :: "string \<Rightarrow> command option" where
  "get_handler_func cmd = map_of command_table cmd"

definition error_lookup_table :: "(int \<times> string) list" where
  "error_lookup_table =
     [(ERR_TIMEDOUT_UDP, ''Timed out waiting for server UDP response'' @ [LF]),
      (ERR_REQUESTING_UDP, ''Failed sending UDP request to server'' @ [LF]),
      (ERR_RECEIVING_UDP, ''Failed reading UDP response from server'' @ [LF]),
      (ERR_NULL_ARGS, ''Missing arguments for command'' @ [LF]),
      (ERR_INVALID_UID, ''The UID must be numeric string of size 6'' @ [LF]),
      (ERR_INVALID_PASSWD, ''The password must be an alphanumeric string of size 8'' @ [LF]),
      (ERR_INVALID_AID, ''The AID must be a numeric string of size 3 (0 padded)'' @ [LF]),
      (ERR_UNKNOWN_ANSWER, ''Got an unknown response message from the server'' @ [LF]),
      (ERR_FILE_DOESNT_EXIST, ''Asset file doesn'' @ [CHR 0x27] @ ''t exist'' @ [LF]),
      (ERR_INVALID_ASSET_NAME, ''Invalid asset name, must an alphanumeric with size less than 10'' @ [LF]),
      (ERR_INVALID_ASSET_FNAME, ''Invalid asset fname, might contain ilegal characters'' @ [LF]),
      (ERR_INVALID_SV, ''Invalid start value, must be a number with up to 6 digits'' @ [LF]),
      (ERR_INVALID_TA, ''Invalid time active, must be a number represented with up to 5 digits'' @ [LF]),
      (ERR_INVALID_ASSET_FILE, ''Couldn'' @ [CHR 0x27] @ ''t reach specified asset file'' @ [LF]),
      (ERR_TCP_CONN_TO_SERVER, ''Failed establishing a connection to the server'' @ [LF]),
      (ERR_TIMEOUT_TCP, ''Timed out waiting for server TCP response'' @ [LF]),
      (ERR_RECEIVING_TCP, ''Failed reading TCP response from TCP server'' @ [LF]),
      (ERR_SENDING_TCP, ''Failed sending TCP request to server'' @ [LF]),
      (ERR_NOT_LOGGED_IN, ''Must be logged in to perform this operation'' @ [LF]),
      (ERR_ALREADY_LOGGED_IN, ''A user is already logged in'' @ [LF]),
      (ERR_NOT_LOGGED_OUT, ''Please logout before performing this operation'' @ [LF]),
      (ERR_NO_COMMAND, []),
      (ERR_INVALID_COMMAND, ''Invalid command, type `help` for more information'' @ [LF]),
      (ERR_CREAT_ASSET_FILE, ''Couldn'' @ [CHR 0x27] @ ''t create asset file'' @ [LF]),
      (ERR_WRITE_ASSET_FILE, ''Failed writting contents to asset file'' @ [LF]),
      (ERR_READ_ASSET_FILE, ''Failed reading contents from asset file'' @ [LF]),
      (ERR_INVALID_BID_VAL, ''Invalid bid value, must be a number with up to 6 digits'' @ [LF]),
      (ERR_TCP_CLOSED_CONN, ''Server closed the connection'' @ [LF])]"

text \<open>The code 0 would read the element before the table.\<close>

definition get_error_msg :: "int \<Rightarrow> string option outcome" where
  "get_error_msg errcode =
     (if errcode < 0 \<or> errcode > int (length error_lookup_table) then Inr None
      else if errcode = 0 then Inl OutOfBounds
      else Inr (Some (snd (error_lookup_table ! nat (errcode - 1)))))"

section \<open>The local commands\<close>

definition handle_help_c :: client_reply where
  "handle_help_c = Response
    (''Available commands:'' @ [LF, LF] @
     ''help or h:        Print this message'' @ [LF] @
     ''format or f:      Print formats of various command'' @ [CHR 0x27] @ ''s messages'' @ [LF] @
     ''clear:            Clear terminal window'' @ [LF] @
     ''login:            Login to the AS'' @ [LF] @
     ''open:             Open a new auction'' @ [LF] @
     ''close:            Close an ongoing auction'' @ [LF] @
     ''list or l:        List all available auctions'' @ [LF] @
     ''myauctions or ma: List a user auctions'' @ [LF] @
     ''mybids or mb:     List a user bids'' @ [LF] @
     ''showasset or sa:  Show asset of an auction'' @ [LF] @
     ''showrecord or sr: Show information of an auction'' @ [LF] @
     ''bid or b:         Bid on an auction'' @ [LF] @
     ''logout:           Logout the currently logged in user'' @ [LF] @
     ''unregister:       Unregister the currently logged in user'' @ [LF] @
     ''exit or q:        Exit the program'' @ [LF])"

definition handle_clear_c :: client_reply where
  "handle_clear_c = Response (CHR 0x1B # ''[2J'' @ CHR 0x1B # ''[H'')"

definition handle_format_c :: client_reply where
  "handle_format_c = Response
    (''Messages format:'' @ [LF, LF] @
     ''list'' @ [LF] @
     ''  Format:'' @ [LF] @
     ''  |{AID - Status}| (Up to 6 auctions per line)'' @ [LF, LF] @
     ''  Status Legend:'' @ [LF] @
     ''  A - Active, C - Closed'' @ [LF, LF] @
     ''myauctions'' @ [LF] @
     ''  Format:'' @ [LF] @
     ''  |{AID - Status}| (Up to 6 auctions per line)'' @ [LF, LF] @
     ''  Status Legend:'' @ [LF] @
     ''  A - Active, C - Closed'' @ [LF, LF] @
     ''showrecord'' @ [LF] @
     ''  Format:'' @ [LF] @
     ''  {Auction Information}'' @ [LF] @
     ''  {Bids History}'' @ [LF, LF] @
     ''  Bids History Format:'' @ [LF] @
     ''  |{Bidder UID - Bid Value - Bid Date - Bid Sec Time}| (Up to 2 per line)'' @ [LF])"

section \<open>One command\<close>

record client_env =
  env_link :: udp_link
  env_io :: client_io

text \<open>
  The effect of a command: the reply, the client state, the working directory, the datagrams sent and the
  connection used.
\<close>

type_synonym cmd_result = "(client_reply \<times> client_state \<times> disk \<times> string list \<times> conn option) outcome"

definition udp_command :: "disk \<Rightarrow> udp_list_result \<Rightarrow> cmd_result" where
  "udp_command files res = bind_ok res (\<lambda>(r, client', sent). Inr (r, client', files, sent, None))"

definition tcp_command :: "client_state \<Rightarrow> tcp_cmd_result \<Rightarrow> cmd_result" where
  "tcp_command client res = bind_ok res (\<lambda>(r, c, files'). Inr (r, client, files', [], c))"

definition run_command :: "command \<Rightarrow> client_env \<Rightarrow> string \<Rightarrow> client_state \<Rightarrow> disk \<Rightarrow> cmd_result" where
  "run_command h e input client files =
     (case h of
        C_login \<Rightarrow> udp_command files (Inr (handle_login_c (env_link e) input client))
      | C_logout \<Rightarrow> udp_command files (Inr (handle_logout_c (env_link e) input client))
      | C_unregister \<Rightarrow> udp_command files (Inr (handle_unregister_c (env_link e) input client))
      | C_exit \<Rightarrow> udp_command files (Inr (handle_exit_c (env_link e) input client))
      | C_open \<Rightarrow> tcp_command client (handle_open_c (env_io e) input client files)
      | C_close \<Rightarrow> tcp_command client (handle_close_c (env_io e) input client files)
      | C_my_auctions \<Rightarrow> udp_command files (handle_my_auctions_c (env_link e) input client)
      | C_my_bids \<Rightarrow> udp_command files (handle_my_bids_c (env_link e) input client)
      | C_list \<Rightarrow> udp_command files (handle_list_c (env_link e) input client)
      | C_show_asset \<Rightarrow> tcp_command client (handle_show_asset_c (env_io e) input client files)
      | C_bid \<Rightarrow> tcp_command client (handle_bid_c (env_io e) input client files)
      | C_show_record \<Rightarrow> udp_command files (handle_show_record_c (env_link e) input client)
      | C_clear \<Rightarrow> Inr (handle_clear_c, client, files, [], None)
      | C_help \<Rightarrow> Inr (handle_help_c, client, files, [], None)
      | C_format \<Rightarrow> Inr (handle_format_c, client, files, [], None))"

text \<open>
  \<open>user_input\<close> is the array of \<open>run_client\<close>. \<open>strtok\<close> writes a zero over the delimiter after the command
  word; the handler gets the address \<open>user_input + strlen(cmd) + 1\<close>, which is the argument part only when
  the command word is at the start of the line.
\<close>

definition strtok_array :: "string \<Rightarrow> char list \<Rightarrow> char list" where
  "strtok_array d arr =
     (let s = cstr arr; k = length (takeWhile (\<lambda>c. c \<in> set d) s);
          e = k + length (takeWhile (\<lambda>c. c \<notin> set d) (drop k s))
      in if e < length s then arr[e := NUL] else arr)"

definition handle_cmd :: "client_env \<Rightarrow> char list \<Rightarrow> client_state \<Rightarrow> disk \<Rightarrow> cmd_result" where
  "handle_cmd e user_input client files =
     (case strtok [SP] (cstr user_input) of
        (None, _) \<Rightarrow> Inr (Code ERR_NO_COMMAND, client, files, [], None)
      | (Some cmd, _) \<Rightarrow>
     case get_handler_func cmd of
        None \<Rightarrow> Inr (Code ERR_INVALID_COMMAND, client, files, [], None)
      | Some h \<Rightarrow>
          run_command h e (cstr (drop (length cmd + 1) (strtok_array [SP] user_input))) client files)"

section \<open>The event loop\<close>

text \<open>\<open>fgets\<close> of at most \<open>n - 1\<close> bytes into an array; \<open>None\<close> at the end of the input.\<close>

definition c_fgets :: "nat \<Rightarrow> string \<Rightarrow> char list \<Rightarrow> (char list \<times> string) option" where
  "c_fgets n input arr =
     (if input = [] then None
      else let upto = takeWhile (\<lambda>c. c \<noteq> LF) input;
               line = take (n - 1) (upto @ (if length upto < length input then [LF] else []))
           in Some (line @ NUL # drop (length line + 1) arr, drop (length line) input))"

text \<open>
  \<open>c\<close> is a \<open>char\<close>, so the byte 0xFF compares equal to \<open>EOF\<close> and ends the loop as well.
\<close>

definition clean_stdin_buffer :: "string \<Rightarrow> string" where
  "clean_stdin_buffer input = drop 1 (dropWhile (\<lambda>c. c \<noteq> LF \<and> c \<noteq> CHR 0xFF) input)"

definition display_client :: "string \<Rightarrow> string" where
  "display_client s = take 65534 s"

definition too_large :: string where
  "too_large = ''Command too large! Type `help` for more information'' @ [LF]"

lemma c_fgets_shorter: "c_fgets 1024 input arr = Some (arr', rest') \<Longrightarrow> length rest' < length input"
  by (cases input) (auto simp: c_fgets_def Let_def)

lemma clean_stdin_shorter: "length (clean_stdin_buffer s) \<le> length s"
  using length_dropWhile_le [of "\<lambda>c. c \<noteq> LF \<and> c \<noteq> CHR 0xFF" s] by (simp add: clean_stdin_buffer_def)

lemma c_fgets_less:
  "c_fgets 1024 input arr = Some res \<Longrightarrow> (arr', rest') = res \<Longrightarrow> length rest' < length input"
  "c_fgets 1024 input arr = Some res \<Longrightarrow> (arr', rest') = res \<Longrightarrow> length (clean_stdin_buffer rest') < length input"
  using c_fgets_shorter [of input arr arr' rest'] clean_stdin_shorter [of rest'] by auto

text \<open>
  \<open>env k\<close> is the network and the system during the \<open>k\<close>-th command. The result tells whether the client
  called \<open>exit\<close>, what it displayed, its state and its working directory. A null message is displayed
  as \<open>(null)\<close>, but \<open>get_error_msg\<close> has one for every code a handler returns. The further zeros a handler
  writes over delimiters of its arguments are not tracked: the next \<open>fgets\<close> writes over the array, and what
  is left after its zero is never read (\<open>handle_cmd_line\<close> below).
\<close>

function client_loop :: "(nat \<Rightarrow> client_env) \<Rightarrow> nat \<Rightarrow> string \<Rightarrow> char list \<Rightarrow> client_state \<Rightarrow> disk
    \<Rightarrow> (bool \<times> string list \<times> client_state \<times> disk) outcome" where
  "client_loop env k input user_input client files =
     (case c_fgets 1024 input user_input of
        None \<Rightarrow> Inr (False, [], client, files)
      | Some (arr, input1) \<Rightarrow>
     let endl_idx = length (takeWhile (\<lambda>c. c \<noteq> LF) (cstr arr))
     in if arr ! endl_idx \<noteq> LF then
          (case client_loop env k (clean_stdin_buffer input1) arr client files of
             Inl f \<Rightarrow> Inl f
           | Inr (ended, out, fin) \<Rightarrow>
               Inr (ended, display_client too_large # out, fin))
        else let arr' = arr[endl_idx := NUL]
        in case handle_cmd (env k) arr' client files of
          Inl f \<Rightarrow> Inl f
        | Inr (r, client', files', _, _) \<Rightarrow>
       (case r of
          Exits \<Rightarrow> Inr (True, [display_client (''Closing sesssion'' @ [LF])], client', files')
        | Code err \<Rightarrow>
            (case get_error_msg err of
               Inl f \<Rightarrow> Inl f
             | Inr msg \<Rightarrow>
                 (case client_loop env (k + 1) input1 (strtok_array [SP] arr') client' files' of
                    Inl f \<Rightarrow> Inl f
                  | Inr (ended, out, fin) \<Rightarrow>
                      Inr (ended, display_client (case msg of None \<Rightarrow> ''(null)'' | Some s \<Rightarrow> s) # out, fin)))
        | Response text \<Rightarrow>
            (case client_loop env (k + 1) input1 (strtok_array [SP] arr') client' files' of
               Inl f \<Rightarrow> Inl f
             | Inr (ended, out, fin) \<Rightarrow> Inr (ended, display_client text # out, fin))))"
  by pat_completeness auto
termination
  by (relation "measure (\<lambda>(env, k, input, arr, client, files). length input)")
    (simp_all add: c_fgets_less)

declare client_loop.simps [simp del]

definition welcome_text :: string where
  "welcome_text = ''--- Welcome to the AS client! ---'' @ [LF]"

definition run_client :: "(nat \<Rightarrow> client_env) \<Rightarrow> string \<Rightarrow> char list \<Rightarrow> client_state \<Rightarrow> disk
    \<Rightarrow> (bool \<times> string list \<times> client_state \<times> disk) outcome" where
  "run_client env input user_input client files =
     bind_ok (client_loop env 0 input user_input (client\<lparr>logged_in := False\<rparr>) files) (\<lambda>(ended, out, fin).
     Inr (ended, display_client welcome_text # out, fin))"

section \<open>One line at a time\<close>

text \<open>
  The reference: a command line without the array. The arguments of a command at the start of the line are
  what follows the first space. When spaces come before the command word, \<open>user_input + strlen(cmd) + 1\<close>
  is an address inside the spaces or the word itself, and the handler gets the end of the word instead of
  the arguments.
\<close>

definition line_args :: "string \<Rightarrow> string \<Rightarrow> string" where
  "line_args cmd line =
     (let lead = takeWhile (\<lambda>c. c = SP) line
      in if lead = [] then drop (length cmd + 1) line else drop (length cmd + 1) (lead @ cmd))"

definition handle_line :: "client_env \<Rightarrow> string \<Rightarrow> client_state \<Rightarrow> disk \<Rightarrow> cmd_result" where
  "handle_line e line client files =
     (case strtok [SP] line of
        (None, _) \<Rightarrow> Inr (Code ERR_NO_COMMAND, client, files, [], None)
      | (Some cmd, _) \<Rightarrow>
     case map_of command_table cmd of
        None \<Rightarrow> Inr (Code ERR_INVALID_COMMAND, client, files, [], None)
      | Some h \<Rightarrow> run_command h e (line_args cmd line) client files)"

lemma cstr_drop_array:
  "n \<le> length l + 1 \<Longrightarrow> cstr (drop n (l @ NUL # NUL # junk)) = cstr (drop n l)"
proof (cases "n \<le> length l")
  case True
  have "cstr (x @ NUL # y) = cstr x" for x y by (induction x) auto
  then show ?thesis using True by simp
next
  case False
  assume "n \<le> length l + 1"
  then have "n = length l + 1" using False by simp
  then show ?thesis by simp
qed

lemma strtok_command:
  assumes "strtok [SP] line = (Some cmd, r)"
  shows "\<exists>rst. line = takeWhile (\<lambda>c. c = SP) line @ cmd @ rst \<and> SP \<notin> set cmd \<and> cmd \<noteq> [] \<and> (rst = [] \<or> hd rst = SP)"
proof -
  let ?s = "dropWhile (\<lambda>c. c = SP) line"
  have cmd: "cmd = takeWhile (\<lambda>c. c \<noteq> SP) ?s" using assms by (simp add: strtok_Some_iff)
  have "line = takeWhile (\<lambda>c. c = SP) line @ cmd @ dropWhile (\<lambda>c. c \<noteq> SP) ?s" unfolding cmd by simp
  moreover have "dropWhile (\<lambda>c. c \<noteq> SP) ?s = [] \<or> hd (dropWhile (\<lambda>c. c \<noteq> SP) ?s) = SP"
    using hd_dropWhile [of "\<lambda>c. c \<noteq> SP" ?s] by blast
  moreover have "SP \<notin> set cmd" "cmd \<noteq> []" using strtok_SomeD [OF assms] by auto
  ultimately show ?thesis by blast
qed

lemma strtok_array_line:
  assumes line: "line = lead @ cmd @ rst" and lead: "lead = takeWhile (\<lambda>c. c = SP) line"
    and cmd: "SP \<notin> set cmd" "cmd \<noteq> []" and rst: "rst = [] \<or> hd rst = SP" and nul: "NUL \<notin> set line"
  shows "strtok_array [SP] (line @ NUL # junk) = lead @ cmd @ (if rst = [] then [] else NUL # tl rst) @ NUL # junk"
proof -
  have c: "cstr (line @ NUL # junk) = line" by (rule cstr_append_nul [OF nul])
  have k: "takeWhile (\<lambda>c. c \<in> set [SP]) line = lead" using lead by simp
  have w: "takeWhile (\<lambda>c. c \<notin> set [SP]) (cmd @ rst) = cmd"
    using cmd(1) rst by (cases rst) (auto simp: takeWhile_eq_all_conv intro!: takeWhile_until)
  have d: "drop (length lead) line = cmd @ rst" by (simp add: line)
  show ?thesis unfolding strtok_array_def c Let_def k d w
    using rst by (cases rst) (auto simp: line list_update_append)
qed

lemma handle_cmd_line:
  assumes nul: "NUL \<notin> set line"
  shows "handle_cmd e (line @ NUL # NUL # junk) client files = handle_line e line client files"
proof -
  have c: "cstr (line @ NUL # NUL # junk) = line" by (rule cstr_append_nul [OF nul])
  show ?thesis
  proof (cases "fst (strtok [SP] line)")
    case None
    then show ?thesis by (cases "strtok [SP] line") (simp add: handle_cmd_def handle_line_def c)
  next
    case (Some cmd)
    then obtain r where tok: "strtok [SP] line = (Some cmd, r)" by (cases "strtok [SP] line") simp
    define lead where "lead = takeWhile (\<lambda>c. c = SP) line"
    obtain rst where line: "line = lead @ cmd @ rst" and cmd: "SP \<notin> set cmd" "cmd \<noteq> []" and rst: "rst = [] \<or> hd rst = SP"
      using strtok_command [OF tok] lead_def by blast
    let ?l = "lead @ cmd @ (if rst = [] then [] else NUL # tl rst)"
    have arr: "strtok_array [SP] (line @ NUL # NUL # junk) = ?l @ NUL # NUL # junk"
      using strtok_array_line [OF line lead_def cmd rst nul] by simp
    have nn: "NUL \<notin> set lead" "NUL \<notin> set cmd" "NUL \<notin> set rst" using nul line by auto
    have "cstr (drop (length cmd + 1) (strtok_array [SP] (line @ NUL # NUL # junk))) = cstr (drop (length cmd + 1) ?l)"
      unfolding arr by (rule cstr_drop_array) simp
    also have "\<dots> = line_args cmd line"
    proof (cases "lead = []")
      case True
      have "NUL \<notin> set (tl rst)" using nn(3) by (cases rst) auto
      moreover have "line_args cmd line = tl rst"
        unfolding line_args_def lead_def [symmetric] Let_def using True by (cases rst) (simp_all add: line)
      ultimately show ?thesis using True by (simp add: cstr_no_nul)
    next
      case False
      then have n: "length cmd + 1 \<le> length (lead @ cmd)" by (cases lead) auto
      have "drop (length cmd + 1) ?l = drop (length cmd + 1) (lead @ cmd) @ (if rst = [] then [] else NUL # tl rst)"
        using n by (simp add: drop_append)
      moreover have "NUL \<notin> set (drop (length cmd + 1) (lead @ cmd))" using nn by (auto dest: in_set_dropD)
      ultimately have "cstr (drop (length cmd + 1) ?l) = drop (length cmd + 1) (lead @ cmd)"
        using cstr_append [of "drop (length cmd + 1) (lead @ cmd)"] by simp
      then show ?thesis using False by (simp add: line_args_def lead_def [symmetric])
    qed
    finally show ?thesis using tok by (simp only: handle_cmd_def handle_line_def c get_handler_func_def prod.case option.case)
  qed
qed

text \<open>The reference session: the lines one after the other, those of more than 1022 characters refused.\<close>

fun run_lines :: "(nat \<Rightarrow> client_env) \<Rightarrow> nat \<Rightarrow> string list \<Rightarrow> client_state \<Rightarrow> disk
    \<Rightarrow> (bool \<times> string list \<times> client_state \<times> disk) outcome" where
  "run_lines env k [] client files = Inr (False, [], client, files)"
| "run_lines env k (line # lines) client files =
     (if length line > 1022 then
        bind_ok (run_lines env k lines client files) (\<lambda>(ended, out, fin).
        Inr (ended, display_client too_large # out, fin))
      else bind_ok (handle_line (env k) line client files) (\<lambda>(r, client', files', _).
        case r of
          Exits \<Rightarrow> Inr (True, [display_client (''Closing sesssion'' @ [LF])], client', files')
        | Code err \<Rightarrow>
            bind_ok (get_error_msg err) (\<lambda>msg.
            bind_ok (run_lines env (k + 1) lines client' files') (\<lambda>(ended, out, fin).
            Inr (ended, display_client (case msg of None \<Rightarrow> ''(null)'' | Some s \<Rightarrow> s) # out, fin)))
        | Response text \<Rightarrow>
            bind_ok (run_lines env (k + 1) lines client' files') (\<lambda>(ended, out, fin).
            Inr (ended, display_client text # out, fin))))"

definition stdin_of :: "string list \<Rightarrow> string" where
  "stdin_of lines = concat (map (\<lambda>line. line @ [LF]) lines)"

definition typed_line :: "string \<Rightarrow> bool" where
  "typed_line line \<longleftrightarrow> LF \<notin> set line \<and> NUL \<notin> set line \<and> CHR 0xFF \<notin> set line"

lemma c_fgets_line:
  assumes "typed_line line" "length line \<le> 1022"
  shows "c_fgets 1024 (line @ [LF] @ input) arr = Some (line @ LF # NUL # drop (length line + 2) arr, input)"
proof -
  have t: "takeWhile (\<lambda>c. c \<noteq> LF) (line @ LF # input) = line" using assms(1) by (intro takeWhile_until) (auto simp: typed_line_def)
  have "take (1024 - 1) (line @ [LF]) = line @ [LF]" using assms(2) by simp
  moreover have "length line < length (line @ LF # input)" by simp
  ultimately show ?thesis unfolding c_fgets_def append_Cons append_Nil Let_def t by (simp only: if_True) simp
qed

lemma c_fgets_long:
  assumes "typed_line line" "length line > 1022"
  shows "c_fgets 1024 (line @ [LF] @ input) arr = Some (take 1023 line @ NUL # drop 1024 arr, drop 1023 line @ [LF] @ input)"
proof -
  have t: "takeWhile (\<lambda>c. c \<noteq> LF) (line @ LF # input) = line" using assms(1) by (intro takeWhile_until) (auto simp: typed_line_def)
  have "take 1023 (line @ [LF]) = take 1023 line" "length (take 1023 line) = 1023" using assms(2) by simp_all
  then show ?thesis by (simp add: c_fgets_def t Let_def)
qed

lemma endl_line:
  assumes "typed_line line"
  shows "length (takeWhile (\<lambda>c. c \<noteq> LF) (cstr (line @ LF # NUL # junk))) = length line"
    "length (takeWhile (\<lambda>c. c \<noteq> LF) (cstr (line @ NUL # junk))) = length line"
proof -
  have "cstr ((line @ [LF]) @ NUL # junk) = line @ [LF]" using assms by (intro cstr_append_nul) (simp add: typed_line_def)
  moreover have "takeWhile (\<lambda>c. c \<noteq> LF) (line @ [LF]) = line" using assms by (intro takeWhile_until) (auto simp: typed_line_def)
  ultimately show "length (takeWhile (\<lambda>c. c \<noteq> LF) (cstr (line @ LF # NUL # junk))) = length line"
    by (simp only: append_assoc append_Cons append_Nil)
  have "cstr (line @ NUL # junk) = line" using assms by (intro cstr_append_nul) (simp add: typed_line_def)
  moreover have "takeWhile (\<lambda>c. c \<noteq> LF) line = line" using assms by (intro takeWhile_all) (auto simp: typed_line_def)
  ultimately show "length (takeWhile (\<lambda>c. c \<noteq> LF) (cstr (line @ NUL # junk))) = length line" by (simp only:)
qed

lemma clean_rest_of_line:
  assumes "typed_line line"
  shows "clean_stdin_buffer (drop n line @ [LF] @ input) = input"
proof -
  have "dropWhile (\<lambda>c. c \<noteq> LF \<and> c \<noteq> CHR 0xFF) (drop n line @ LF # input) = LF # input"
    using assms by (intro dropWhile_until) (auto simp: typed_line_def dest: in_set_dropD)
  then show ?thesis by (simp add: clean_stdin_buffer_def)
qed

lemma client_loop_lines:
  "\<forall>line \<in> set lines. typed_line line \<Longrightarrow>
     client_loop env k (stdin_of lines) arr client files = run_lines env k lines client files"
proof (induction lines arbitrary: k arr client files)
  case Nil
  then show ?case by (simp add: stdin_of_def client_loop.simps c_fgets_def)
next
  case (Cons line lines)
  have typed: "typed_line line" and rest: "\<forall>line \<in> set lines. typed_line line" using Cons.prems by auto
  have input: "stdin_of (line # lines) = line @ [LF] @ stdin_of lines" by (simp add: stdin_of_def)
  note IH = Cons.IH [OF rest]
  show ?case
  proof (cases "length line > 1022")
    case True
    have ne: "(take 1023 line @ NUL # drop 1024 arr) ! length (take 1023 line) \<noteq> LF" by (simp add: nth_append)
    have endl: "length (takeWhile (\<lambda>c. c \<noteq> LF) (cstr (take 1023 line @ NUL # drop 1024 arr))) = length (take 1023 line)"
      using typed by (intro endl_line) (auto simp: typed_line_def dest: in_set_takeD)
    show ?thesis
      unfolding client_loop.simps [of env k "line @ [LF] @ stdin_of lines"] input c_fgets_long [OF typed True] option.case prod.case
        Let_def endl clean_rest_of_line [OF typed] IH
      using ne True by (simp add: bind_ok_def del: length_take)
  next
    case False
    have get: "c_fgets 1024 (line @ [LF] @ stdin_of lines) arr = Some (line @ LF # NUL # drop (length line + 2) arr, stdin_of lines)"
      using False by (intro c_fgets_line typed) simp
    have at: "((line @ LF # NUL # drop (length line + 2) arr) ! length line \<noteq> LF) = False" by (simp add: nth_append)
    have upd: "(line @ LF # NUL # drop (length line + 2) arr)[length line := NUL] = line @ NUL # NUL # drop (length line + 2) arr"
      by (simp add: list_update_append)
    have nul: "NUL \<notin> set line" using typed by (simp add: typed_line_def)
    have len: "(length line > 1022) = False" using False by simp
    show ?thesis
      unfolding client_loop.simps [of env k "line @ [LF] @ stdin_of lines"] input get option.case prod.case Let_def endl_line(1) [OF typed]
        upd handle_cmd_line [OF nul] at if_False IH run_lines.simps len
      by (simp add: bind_ok_def split: sum.split prod.split client_reply.split)
  qed
qed

text \<open>
  C14. The event loop works line by line: however \<open>fgets\<close> and \<open>strtok\<close> cut up the arrays, a session over
  any lines typed at the client is the reference session, in which each line up to 1022 characters is
  handled on its own, whatever earlier lines left in the array, and a longer one is refused as a whole. It
  ends for every input.
\<close>

theorem run_client_lines:
  assumes "\<forall>line \<in> set lines. typed_line line"
  shows "run_client env (stdin_of lines) user_input client files =
     bind_ok (run_lines env 0 lines (client\<lparr>logged_in := False\<rparr>) files) (\<lambda>(ended, out, fin).
     Inr (ended, display_client welcome_text # out, fin))"
  unfolding run_client_def client_loop_lines [OF assms] by (rule refl)

text \<open>A session without a network: the arguments after leading spaces are lost.\<close>

definition offline :: client_env where
  "offline = \<lparr>env_link = \<lparr>sendto_fails = True, peer = (\<lambda>_. RecvFails EAGAIN), stale_errno = None\<rparr>,
     env_io = \<lparr>dial = None, unreadable = (\<lambda>_. False), uncreatable = (\<lambda>_. False), file_rcaps = [], file_wcaps = [],
       recv_garbage = (\<lambda>_. NUL)\<rparr>\<rparr>"

theorem run_client_lines_witness:
  "run_client (\<lambda>_. offline) (stdin_of [''showrecord 001'', '' sr 001'', ''  sr 001'', ''logout'', ''q'', ''list'']) (replicate 1024 NUL) fresh_client Map.empty
   = Inr (True, [welcome_text, ''Failed sending UDP request to server'' @ [LF], ''Missing arguments for command'' @ [LF],
        ''The AID must be a numeric string of size 3 (0 padded)'' @ [LF], ''Must be logged in to perform this operation'' @ [LF],
        ''Closing sesssion'' @ [LF]], fresh_client, Map.empty)"
proof -
  let ?lines = "[''showrecord 001'', '' sr 001'', ''  sr 001'', ''logout'', ''q'', ''list'']"
  have "\<forall>line \<in> set ?lines. typed_line line" by (simp add: typed_line_def)
  note run = run_client_lines [OF this, of "\<lambda>_. offline" "replicate 1024 NUL" fresh_client Map.empty]
  have lines: "handle_line offline ''showrecord 001'' c f = Inr (Code ERR_REQUESTING_UDP, c, f, [], None)"
    "handle_line offline '' sr 001'' c f = Inr (Code ERR_NULL_ARGS, c, f, [], None)"
    "handle_line offline ''  sr 001'' c f = Inr (Code ERR_INVALID_AID, c, f, [], None)"
    "\<not> logged_in c \<Longrightarrow> handle_line offline ''logout'' c f = Inr (Code ERR_NOT_LOGGED_IN, c, f, [], None)"
    "\<not> logged_in c \<Longrightarrow> handle_line offline ''q'' c f = Inr (Exits, c, f, [], None)" for c f
    by (simp_all add: handle_line_def line_args_def strtok_def command_table_def run_command_def udp_command_def
      handle_show_record_c_def handle_logout_c_def handle_exit_c_def is_valid_aid_iff isdigit_def udp_exchange_def
      send_udp_request_def offline_def)
  have msg: "get_error_msg ERR_REQUESTING_UDP = Inr (Some (''Failed sending UDP request to server'' @ [LF]))"
    "get_error_msg ERR_NULL_ARGS = Inr (Some (''Missing arguments for command'' @ [LF]))"
    "get_error_msg ERR_INVALID_AID = Inr (Some (''The AID must be a numeric string of size 3 (0 padded)'' @ [LF]))"
    "get_error_msg ERR_NOT_LOGGED_IN = Inr (Some (''Must be logged in to perform this operation'' @ [LF]))"
    by code_simp+
  have c: "fresh_client\<lparr>logged_in := False\<rparr> = fresh_client" by (simp add: fresh_client_def)
  show ?thesis unfolding run c by (simp add: lines msg display_client_def welcome_text_def)
qed

end
