(* ===== verification/ClientMain.thy ===== *)
theory ClientMain
  imports ServerMain ClientShell
begin

text \<open>
  \<open>client/main.c\<close> and \<open>initialize_client\<close> of \<open>client/client.c\<close>: the options, the lookup of the server and
  the socket, and then the event loop of \<open>ClientShell\<close>. What \<open>getaddrinfo\<close> and the socket calls answer is a
  parameter.
\<close>

section \<open>Options\<close>

text \<open>\<open>inet_pton(AF_INET, ...)\<close>: four decimal numbers up to 255, without leading zeros, between dots.\<close>

fun split_dots :: "string \<Rightarrow> string list" where
  "split_dots [] = [[]]"
| "split_dots (c # cs) =
     (if c = CHR ''.'' then [] # split_dots cs
      else case split_dots cs of [] \<Rightarrow> [[c]] | w # ws \<Rightarrow> (c # w) # ws)"

definition is_octet :: "string \<Rightarrow> bool" where
  "is_octet w \<longleftrightarrow> w \<noteq> [] \<and> list_all isdigit w \<and> length w \<le> 3 \<and> (1 < length w \<longrightarrow> hd w \<noteq> CHR ''0'') \<and> atoi w \<le> 255"

definition is_valid_ip_addr :: "string \<Rightarrow> bool" where
  "is_valid_ip_addr ip_str = (let ws = split_dots (cstr ip_str) in length ws = 4 \<and> list_all is_octet ws)"

record client_args =
  c_level :: nat
  c_port :: string
  c_ip :: "string option"
  warned :: "string list"

definition default_client_args :: client_args where
  "default_client_args = \<lparr>c_level = LOG_NORMAL, c_port = DEFAULT_PORT, c_ip = None, warned = []\<rparr>"

text \<open>\<open>LOG_WARN\<close> formats into an array of 2048 bytes.\<close>

definition LOG_WARN :: "string \<Rightarrow> client_args \<Rightarrow> client_args" where
  "LOG_WARN msg a = a\<lparr>warned := warned a @ [''[WARN]: '' @ take 2047 msg @ [LF]]\<rparr>"

function client_options :: "getopt_state \<Rightarrow> client_args \<Rightarrow> client_args run" where
  "client_options st a =
     (case getopt ''hdn:p:'' st of
        (No_more, _) \<Rightarrow> Goes_on a
      | (Bad_option, _) \<Rightarrow> Exit 1
      | (Option opt optarg, st') \<Rightarrow>
          if opt = CHR ''h'' then Exit 0
          else if opt = CHR ''n'' then
            client_options st'
              ((if \<not> is_valid_ip_addr (the optarg)
                then LOG_WARN (''Invalid IP literal (contiuing assuming IP is a domain): '' @ the optarg) a else a)
               \<lparr>c_ip := optarg\<rparr>)
          else if opt = CHR ''d'' then client_options st' (a\<lparr>c_level := LOG_DEBUG\<rparr>)
          else if opt = CHR ''p'' then
            client_options st'
              (if is_valid_port (the optarg) then a\<lparr>c_port := the optarg\<rparr>
               else LOG_WARN (''Ignoring invalid -p argument: '' @ the optarg) a)
          else Exit 1)"
  by pat_completeness auto
termination
  by (relation "measure (\<lambda>(st, a). state_size st)") (auto dest: getopt_shrinks [OF sym])

declare client_options.simps [simp del]

section \<open>Starting the client\<close>

datatype lookup = Lookup_error | No_address | Address string

record client_net =
  getaddrinfo :: "string option \<Rightarrow> string \<Rightarrow> lookup"
  udp_socket_made :: bool
  rcvtimeo_set :: bool
  sndtimeo_set :: bool

text \<open>The address of the server is kept beside the client state: the return code, the state, the address.\<close>

definition initialize_client :: "client_net \<Rightarrow> string option \<Rightarrow> string \<Rightarrow> client_state \<Rightarrow> int \<times> client_state \<times> string" where
  "initialize_client net ip port client =
     (case getaddrinfo net ip port of
        Lookup_error \<Rightarrow> (- 1, client, [])
      | No_address \<Rightarrow> (- 1, client, [])
      | Address a \<Rightarrow>
          if \<not> udp_socket_made net then (- 1, client, [])
          else if \<not> rcvtimeo_set net then (1, client, [])
          else if \<not> sndtimeo_set net then (1, client, [])
          else (0, client\<lparr>logged_in := False\<rparr>, a))"

text \<open>
  \<open>env addr\<close> is the network and the system as the commands meet them when the server has the address
  \<open>addr\<close>; \<open>client\<close> and \<open>user_input\<close> are what the stack held.
\<close>

definition client_main :: "client_net \<Rightarrow> (string \<Rightarrow> nat \<Rightarrow> client_env) \<Rightarrow> string list \<Rightarrow> string \<Rightarrow> char list \<Rightarrow> client_state
    \<Rightarrow> disk \<Rightarrow> (nat \<times> string list \<times> bool \<times> string list \<times> client_state \<times> disk) run outcome" where
  "client_main net env argv input user_input client files =
     (case client_options ([], argv) default_client_args of
        Exit k \<Rightarrow> Inr (Exit k)
      | Goes_on a \<Rightarrow>
          (case initialize_client net (c_ip a) (c_port a) client of
             (rc, client', addr) \<Rightarrow>
               if rc \<noteq> 0 then Inr (Exit 1)
               else bind_ok (run_client (env addr) input user_input client' files) (\<lambda>x. Inr (Goes_on (c_level a, warned a, x)))))"

section \<open>What a command line means\<close>

definition addresses :: "option_result list \<Rightarrow> string option list" where
  "addresses opts = [Some x. Option c (Some x) \<leftarrow> opts, c = CHR ''n'']"

definition warnings :: "option_result list \<Rightarrow> string list" where
  "warnings opts = concat (map (\<lambda>r. case r of
       Option c (Some x) \<Rightarrow>
         if c = CHR ''n'' \<and> \<not> is_valid_ip_addr x
         then [''[WARN]: '' @ take 2047 (''Invalid IP literal (contiuing assuming IP is a domain): '' @ x) @ [LF]]
         else if c = CHR ''p'' \<and> \<not> is_valid_port x
         then [''[WARN]: '' @ take 2047 (''Ignoring invalid -p argument: '' @ x) @ [LF]] else []
     | _ \<Rightarrow> []) opts)"

lemma client_letters:
  "takes_argument ''hdn:p:'' c = Some False \<longleftrightarrow> c \<in> {CHR ''h'', CHR ''d''}"
  "takes_argument ''hdn:p:'' c = Some True \<longleftrightarrow> c \<in> {CHR ''n'', CHR ''p''}"
  by (auto simp: takes_argument_def)

lemma client_options_meaning:
  assumes "getopt_all ''hdn:p:'' st = opts @ [No_more]"
    "\<forall>r \<in> set opts. \<exists>c arg. r = Option c arg \<and> takes_argument ''hdn:p:'' c = Some (arg \<noteq> None)"
  shows "client_options st a =
     (if Option CHR ''h'' None \<in> set opts then Exit 0
      else Goes_on \<lparr>c_level = (if Option CHR ''d'' None \<in> set opts then LOG_DEBUG else c_level a),
                    c_port = last (c_port a # ports opts), c_ip = last (c_ip a # addresses opts),
                    warned = warned a @ warnings opts\<rparr>)"
  using assms
proof (induction opts arbitrary: st a)
  case Nil
  then obtain st' where "getopt ''hdn:p:'' st = (No_more, st')"
    using getopt_all_done [of "''hdn:p:''" st] by (cases "getopt ''hdn:p:'' st") auto
  then show ?case by (simp add: client_options.simps [of st] ports_def addresses_def warnings_def)
next
  case (Cons r opts)
  obtain c arg where r: "r = Option c arg" "takes_argument ''hdn:p:'' c = Some (arg \<noteq> None)" using Cons.prems(2) by auto
  obtain st' where st': "getopt ''hdn:p:'' st = (Option c arg, st')" "getopt_all ''hdn:p:'' st' = opts @ [No_more]"
    using Cons.prems(1) r(1) by (auto elim: getopt_all_cons)
  have known: "\<forall>r \<in> set opts. \<exists>c arg. r = Option c arg \<and> takes_argument ''hdn:p:'' c = Some (arg \<noteq> None)"
    using Cons.prems(2) by simp
  note IH = Cons.IH [OF st'(2) known]
  show ?case
  proof (cases arg)
    case None
    then consider "c = CHR ''h''" | "c = CHR ''d''" using r(2) client_letters(1) [of c] by auto
    then show ?thesis
      by cases (simp_all add: None client_options.simps [of st] st'(1) IH r(1) ports_def addresses_def warnings_def)
  next
    case (Some x)
    then consider "c = CHR ''n''" | "c = CHR ''p''" using r(2) client_letters(2) [of c] by auto
    then show ?thesis
      by cases (simp_all add: Some client_options.simps [of st] st'(1) IH r(1) ports_def addresses_def warnings_def LOG_WARN_def)
  qed
qed

text \<open>
  C17. The client starts as its command line says: \<open>-h\<close> ends it with 0, a failed lookup or socket with 1;
  otherwise it runs its event loop, logged out, against the address found for the last \<open>-n\<close> (the local host
  without one) and the last valid \<open>-p\<close> or else 58078, after one warning for every argument of \<open>-n\<close> that is no IPv4
  literal and every invalid port.
\<close>

theorem client_main_starts:
  assumes "\<forall>w \<in> set ws. well_written ''hdn:p:'' w" "rest = [] \<or> hd rest = ''--''"
  shows "client_main net env (concat (map written ws) @ rest) input user_input client files =
     (let opts = concat (map meant ws)
      in if Option CHR ''h'' None \<in> set opts then Inr (Exit 0)
         else case getaddrinfo net (last (None # addresses opts)) (chosen_port opts) of
           Address a \<Rightarrow>
             if udp_socket_made net \<and> rcvtimeo_set net \<and> sndtimeo_set net
             then bind_ok (run_client (env a) input user_input (client\<lparr>logged_in := False\<rparr>) files)
               (\<lambda>x. Inr (Goes_on (if Option CHR ''d'' None \<in> set opts then LOG_DEBUG else LOG_NORMAL, warnings opts, x)))
             else Inr (Exit 1)
         | _ \<Rightarrow> Inr (Exit 1))"
proof -
  let ?opts = "concat (map meant ws)"
  have all: "getopt_all ''hdn:p:'' ([], concat (map written ws) @ rest) = ?opts @ [No_more]"
    using assms by (intro getopt_reads_back) (auto simp: takes_argument_def)
  have known: "\<forall>r \<in> set ?opts. \<exists>c arg. r = Option c arg \<and> takes_argument ''hdn:p:'' c = Some (arg \<noteq> None)"
    using assms(1) meant_known by fastforce
  have o: "client_options ([], concat (map written ws) @ rest) default_client_args =
     (if Option CHR ''h'' None \<in> set ?opts then Exit 0
      else Goes_on \<lparr>c_level = (if Option CHR ''d'' None \<in> set ?opts then LOG_DEBUG else LOG_NORMAL), c_port = chosen_port ?opts,
                    c_ip = last (None # addresses ?opts), warned = warnings ?opts\<rparr>)"
    using client_options_meaning [OF all known, of default_client_args]
    by (simp add: default_client_args_def chosen_port_def)
  define ip where "ip = last (None # addresses ?opts)"
  define p where "p = chosen_port ?opts"
  define level where "level = (if Option CHR ''d'' None \<in> set ?opts then LOG_DEBUG else LOG_NORMAL)"
  define h where "h \<longleftrightarrow> Option CHR ''h'' None \<in> set ?opts"
  note parts = ip_def [symmetric] p_def [symmetric] level_def [symmetric] h_def [symmetric]
  show ?thesis
    unfolding client_main_def o Let_def initialize_client_def parts
    by (cases h; cases "getaddrinfo net ip p") simp_all
qed

theorem client_main_starts_witness:
  "client_main \<lparr>getaddrinfo = (\<lambda>ip port. if port = ''58000'' then Address (the ip) else Lookup_error),
       udp_socket_made = True, rcvtimeo_set = True, sndtimeo_set = True\<rparr> (\<lambda>_ _. offline)
       [''-n'', ''127.0.0.01'', ''-dp58000''] [] (replicate 1024 NUL) fresh_client Map.empty
     = Inr (Goes_on (LOG_DEBUG, [''[WARN]: Invalid IP literal (contiuing assuming IP is a domain): 127.0.0.01'' @ [LF]],
         False, [''--- Welcome to the AS client! ---'' @ [LF]], fresh_client, Map.empty))"
proof -
  let ?ws = "[Valued [] CHR ''n'' ''127.0.0.01'' False, Valued ''d'' CHR ''p'' ''58000'' True]"
  let ?net = "\<lparr>getaddrinfo = (\<lambda>ip port. if port = ''58000'' then Address (the ip) else Lookup_error),
       udp_socket_made = True, rcvtimeo_set = True, sndtimeo_set = True\<rparr>"
  have w: "\<forall>w \<in> set ?ws. well_written ''hdn:p:'' w" by (simp add: takes_argument_def)
  have v: "is_valid_port ''58000''" "\<not> is_valid_ip_addr ''127.0.0.01''" by code_simp+
  have run: "run_client (\<lambda>_. offline) [] (replicate 1024 NUL) fresh_client Map.empty
     = Inr (False, [''--- Welcome to the AS client! ---'' @ [LF]], fresh_client, Map.empty)"
    by (simp add: run_client_def client_loop.simps c_fgets_def display_client_def welcome_text_def fresh_client_def)
  have f: "fresh_client\<lparr>logged_in := False\<rparr> = fresh_client" by (simp add: fresh_client_def)
  show ?thesis
    using client_main_starts [OF w, of "[]" ?net "\<lambda>_ _. offline" "[]" "replicate 1024 NUL" fresh_client Map.empty] v run
    by (simp add: chosen_port_def ports_def addresses_def warnings_def f)
qed

end
