(* ===== verification/ClientAuctions.thy ===== *)
theory ClientAuctions
  imports ClientLists UdpAuctions AuctionHouse
begin

text \<open>
  The \<open>list\<close> command of the client against the server's \<open>udp_round\<close>: what the user reads is the abstract
  auction house of \<open>AuctionHouse\<close>.
\<close>

definition is_ended :: "house \<Rightarrow> string \<Rightarrow> bool" where
  "is_ended h a \<longleftrightarrow> (case h a of None \<Rightarrow> False | Some r \<Rightarrow> ended r)"

text \<open>The auctions of a house of \<open>n\<close> auctions, in order, with their status.\<close>

definition house_entries :: "house \<Rightarrow> int \<Rightarrow> (string \<times> bool) list" where
  "house_entries h n = map (\<lambda>i. (fmt_0d 3 i, \<not> is_ended h (fmt_0d 3 i))) [1..n]"

lemma house_entries_aids:
  assumes "n \<le> 999"
  shows "\<forall>(a, active) \<in> set (house_entries h n). is_valid_aid a"
  using assms by (auto simp: house_entries_def intro!: fmt_0d_valid_aid)

lemma length_list_body:
  "\<forall>(a, active) \<in> set es. is_valid_aid a \<Longrightarrow> length (list_body es) = 6 * length es"
  by (induction es) (auto simp: list_body_Cons is_valid_aid_iff)

lemma auction_words_body:
  assumes d: "sound d" and n: "n = auc_count d"
  shows "concat (map (auction_word (fs d)) [1..n]) = list_body (house_entries (auction_view d) n)"
proof -
  have "auction_word (fs d) i
      = '' '' @ fmt_0d 3 i @ (if \<not> is_ended (auction_view d) (fmt_0d 3 i) then '' 1'' else '' 0'')" if i: "i \<in> {1..n}" for i
  proof -
    have le: "i \<le> 999" using i n d db_invD(11) [of d] by (simp add: sound_def)
    then have a: "is_valid_aid (fmt_0d 3 i)" using i by (intro fmt_0d_valid_aid) simp_all
    then have ex: "exists_auction (fmt_0d 3 i) d" using exists_auction_range [OF a] i le n by auto
    obtain uid name fname sv ta t c where "auction_view d (fmt_0d 3 i) = Some \<lparr>owner = uid, start_value = sv,
        deadline = t + ta, ended = (fs_get (fs d) (end_path (fmt_0d 3 i)) \<noteq> None), bids = bid_set (fs d) (fmt_0d 3 i)\<rparr>"
      using auction_viewE [OF d a ex] by metis
    then show ?thesis by (simp add: auction_word_def is_ended_def)
  qed
  then have "map (auction_word (fs d)) [1..n] = map ((\<lambda>(a, active). '' '' @ a @ (if active then '' 1'' else '' 0''))
      \<circ> (\<lambda>i. (fmt_0d 3 i, \<not> is_ended (auction_view d) (fmt_0d 3 i)))) [1..n]"
    by (intro map_cong refl) simp
  then show ?thesis by (simp only: list_body_def house_entries_def map_map)
qed

text \<open>
  C22. \<open>list\<close> at the client shows the auction house: with the server at the other end the user reads every
  auction once, in order, six per line, with \<open>A\<close> exactly for the auctions still running after expiry at the
  time of the request, or that there is no auction.
\<close>

theorem client_list_shows_house:
  assumes d: "sound d" and l: "linked now d l"
  defines "h \<equiv> expire now (auction_view d)"
  shows "\<exists>d'. handle_list_c l input c = Inr (Response (if auc_count d = 0 then ''No auctions currently available'' @ [LF]
         else list_format @ ''AS Auctions:'' @ [LF] @ table_text (house_entries h (auc_count d))), c, [''LST'' @ [LF]])
     \<and> deliver now [''LST'' @ [LF]] d = Inr d' \<and> sound d' \<and> auction_view d' = h"
proof -
  have inv: "db_inv d" "clock_ok d" using d by (simp_all add: sound_def)
  obtain d' where d': "update_database now d = Inr (0, d')" "auc_count d' = auc_count d"
    and r: "udp_round now (''LST'' @ [LF]) d = Inr (if auc_count d = 0 then ''RLS NOK'' @ [LF]
              else ''RLS OK'' @ concat (map (auction_word (fs d')) [1..auc_count d]) @ [LF], d')"
    using list_round [OF inv, of now] by blast
  note u = update_view [OF d d'(1)]
  have v: "auction_view d' = h" using u(3) by (simp add: h_def)
  let ?es = "house_entries h (auc_count d)"
  have body: "concat (map (auction_word (fs d')) [1..auc_count d]) = list_body ?es"
    using auction_words_body [OF u(1), of "auc_count d"] d'(2) v by simp
  have le: "auc_count d \<le> 999" "0 \<le> auc_count d" using inv(1) db_invD(10,11) by auto
  note aids = house_entries_aids [OF le(1), of h]
  have "handle_list_c l input c = Inr (Response (if auc_count d = 0 then ''No auctions currently available'' @ [LF]
         else list_format @ ''AS Auctions:'' @ [LF] @ table_text ?es), c, [''LST'' @ [LF]])"
  proof (cases "auc_count d = 0")
    case True
    then have "udp_exchange (''LST'' @ [LF]) 8191 l = (Inr (''RLS NOK'' @ [LF]), [''LST'' @ [LF]])"
      using udp_exchange_server [OF l, of "''LST'' @ [LF]" "''RLS NOK''" d' 8191] r by simp
    then show ?thesis using True by (simp add: handle_list_c_def strtok_def)
  next
    case False
    have peer: "peer l (''LST'' @ [LF]) = Datagram (''RLS OK'' @ list_body ?es @ [LF])" "\<not> sendto_fails l"
      using l r False by (simp_all add: linked_def server_peer_def body)
    have "?es \<noteq> []" using False le(2) by (simp add: house_entries_def)
    moreover have "\<forall>(a, active) \<in> set ?es. clean_word a" using aids valid_aid_clean by (auto simp: clean_word_def)
    moreover have "length (list_body ?es) \<le> 8000"
      using length_list_body [OF aids] le by (simp add: house_entries_def)
    ultimately show ?thesis using handle_list_c_shows [OF _ _ _ peer(2,1)] False by simp
  qed
  then show ?thesis using r u(1) v by auto
qed

theorem client_list_shows_house_witness:
  "(handle_list_c (link_to 1700000001 lamp_db) [] fresh_client
      = Inr (Response (list_format @ ''AS Auctions:'' @ [LF] @ ''|001 - A| '' @ [LF]), fresh_client, [''LST'' @ [LF]]))
   \<and> (handle_list_c (link_to 1700003600 lamp_db) [] fresh_client
      = Inr (Response (list_format @ ''AS Auctions:'' @ [LF] @ ''|001 - C| '' @ [LF]), fresh_client, [''LST'' @ [LF]]))"
proof -
  have aid: "fmt_0d 3 1 = ''001''" by code_simp
  have v: "is_ended (expire now (auction_view lamp_db)) ''001'' \<longleftrightarrow> 1700003600 \<le> now" for now
    using auction_view_start [OF example_fields(5) lamp_db(2,4)] lamp_db(9)
    by (simp add: is_ended_def expire_def)
  have es: "house_entries (expire now (auction_view lamp_db)) 1 = [(''001'', \<not> 1700003600 \<le> now)]" for now
    by (simp add: house_entries_def aid v)
  have n: "auc_count lamp_db = 1" using lamp_db by simp
  show ?thesis
    using client_list_shows_house [OF lamp_db(1) linked_link_to, of 1700000001 "[]" fresh_client]
      client_list_shows_house [OF lamp_db(1) linked_link_to, of 1700003600 "[]" fresh_client]
    by (simp add: n es table_text.simps entry_text_def) 
qed

end
