(* ===== verification/ClientContract.thy ===== *)
theory ClientContract
  imports ClientShell UdpSafety
begin

text \<open>
  What every command of the client guarantees, whatever the user types and the network answers: replies and
  error codes that can be displayed, datagrams the server accepts, at most one file of the working
  directory touched, and only under a harmless name.
\<close>

section \<open>Results without faults\<close>

text \<open>\<open>ok_result P m\<close>: if \<open>m\<close> does not reach a fault, its value satisfies \<open>P\<close>.\<close>

definition ok_result :: "('a \<Rightarrow> bool) \<Rightarrow> 'a outcome \<Rightarrow> bool" where
  "ok_result P m \<longleftrightarrow> (case m of Inl _ \<Rightarrow> True | Inr x \<Rightarrow> P x)"

lemma ok_result_simps [simp]:
  "ok_result P (Inl fl)"
  "ok_result P (Inr x) \<longleftrightarrow> P x"
  "ok_result P (bind_ok m f) \<longleftrightarrow> ok_result (\<lambda>x. ok_result P (f x)) m"
  by (cases m; simp add: ok_result_def)+

lemma ok_resultI: "(\<And>x. P x) \<Longrightarrow> ok_result P m"
  by (simp add: ok_result_def split: sum.split)

lemma ok_result_mono: "ok_result P m \<Longrightarrow> (\<And>x. P x \<Longrightarrow> Q x) \<Longrightarrow> ok_result Q m"
  by (cases m) simp_all

section \<open>Replies of the TCP commands\<close>

text \<open>A TCP command never ends the client.\<close>

definition tcp_fits :: "client_reply \<Rightarrow> bool" where
  "tcp_fits r \<longleftrightarrow> reply_fits r \<and> r \<noteq> Exits"

lemma tcp_fits_simps [simp]:
  "tcp_fits (Code n) \<longleftrightarrow> 1 \<le> n \<and> n \<le> 28"
  "tcp_fits (Response s) \<longleftrightarrow> length s < MAX_SERVER_RESPONSE"
  by (simp_all add: tcp_fits_def)

lemma read_field_ok:
  "(\<And>code c'. tcp_fits (Code code) \<Longrightarrow> Q (Inl code, c')) \<Longrightarrow> (\<And>s c'. Q (Inr s, c')) \<Longrightarrow> ok_result Q (read_field g cells n c)"
  unfolding read_field_def ok_result_simps by (rule ok_resultI) (auto simp: client_err_defs)

lemma asset_args_ok: "case fst (asset_args_loop args buf c) of Inl code \<Rightarrow> tcp_fits (Code code) | Inr _ \<Rightarrow> True"
proof (induction args buf c rule: asset_args_loop.induct)
  case (1 args buf c)
  obtain res c' where r: "recv 1 c = (res, c')" by (cases "recv 1 c")
  show ?case
  proof (cases res)
    case (Inl e)
    then show ?thesis using r by (subst asset_args_loop.simps) (simp add: client_err_defs)
  next
    case (Inr bs)
    note IH = "1.IH" [OF _ r [symmetric] Inr]
    have codes: "tcp_fits (Code ERR_TIMEOUT_TCP)" "tcp_fits (Code ERR_RECEIVING_TCP)" "tcp_fits (Code ERR_UNKNOWN_ANSWER)"
      by (simp_all add: client_err_defs)
    show ?thesis using r Inr IH codes by (subst asset_args_loop.simps) (simp del: tcp_fits_simps)
  qed
qed

lemma send_error_fits: "tcp_fits (Code (send_error errno))"
  by (simp add: send_error_def client_err_defs)

lemma short_fits: "length s \<le> 200 \<Longrightarrow> tcp_fits (Response s)"
  by (simp add: MAX_SERVER_RESPONSE_def)

lemma status_replies_fit:
  "tcp_fits (determine_open_response_error s)" "tcp_fits (determine_close_response_error s)"
  "tcp_fits (determine_show_asset_response_error s)" "tcp_fits (determine_bid_response_error s)"
  unfolding determine_open_response_error_def determine_close_response_error_def
    determine_show_asset_response_error_def determine_bid_response_error_def
  by (auto simp: client_err_defs MAX_SERVER_RESPONSE_def)

lemma length_fmt_prec: "length (fmt_prec n s) \<le> n"
  using length_takeWhile_le [of "\<lambda>c. c \<noteq> NUL" "take n s"] by (simp add: fmt_prec_def cstr_def)

lemma fmt_prec_fits: "n \<le> 10 \<Longrightarrow> length (fmt_prec n s) + 50 < MAX_SERVER_RESPONSE"
  using length_fmt_prec [of n s] by (simp add: MAX_SERVER_RESPONSE_def)

lemma valid_lengths:
  "is_valid_aid a \<Longrightarrow> length a = 3" "is_valid_start_value s \<Longrightarrow> length s \<le> 6" "is_valid_fname f \<Longrightarrow> length f \<le> 24"
  by (auto simp: validator_iffs)

lemma send_error_range: "1 \<le> send_error errno" "send_error errno \<le> 28"
  by (simp_all add: send_error_def client_err_defs)

lemma call_ok:
  "(\<And>x. Q x) \<Longrightarrow> ok_result Q (send_str s c)"
  "(\<And>x. Q x) \<Longrightarrow> ok_result Q (send_tcp_message arr n c)"
  "(\<And>y. R y) \<Longrightarrow> ok_result R (as_send_asset_file content caps fsize c)"
  "(\<And>z. S z) \<Longrightarrow> ok_result S (as_recv_asset_file buff caps fsize c)"
  by (rule ok_resultI; blast)+

lemmas fits_intros = read_field_ok short_fits status_replies_fit send_error_fits

lemma open_reply_fits: "ok_result (\<lambda>(r, c'). tcp_fits r) (open_reply_c c)"
  unfolding open_reply_c_def
  by (auto intro!: fits_intros simp: client_err_defs valid_lengths simp del: tcp_fits_simps(2)
      split: prod.split option.split)

lemma close_reply_fits: "ok_result (\<lambda>(r, c'). tcp_fits r) (close_reply_c c)"
  unfolding close_reply_c_def
  by (auto intro!: fits_intros simp: client_err_defs valid_lengths simp del: tcp_fits_simps(2)
      split: prod.split option.split)

lemma bid_reply_fits: "length aid \<le> 3 \<Longrightarrow> length v \<le> 6 \<Longrightarrow> ok_result (\<lambda>(r, c'). tcp_fits r) (bid_reply_c aid v c)"
  unfolding bid_reply_c_def
  by (auto intro!: fits_intros simp: client_err_defs valid_lengths simp del: tcp_fits_simps(2)
      split: prod.split option.split)

lemma length_fmt_d_int: "length (fmt_d (atoi s)) \<le> 11"
proof -
  have "- (2 ^ 31) \<le> atoi s" "atoi s < 2 ^ 31"
    using sint_range_size [of "word_of_int (strtol10 s) :: 32 word"] by (simp_all add: atoi_def c_int_def word_size)
  then have "length (digits (nat (atoi s))) \<le> 10" "length (digits (nat (- atoi s))) \<le> 10"
    by (intro length_digits_le; simp)+
  then show ?thesis by (simp add: fmt_d_def)
qed

text \<open>One file at most is written, under a name without directories that does not start with a dot.\<close>

definition one_file :: "disk \<Rightarrow> disk \<Rightarrow> bool" where
  "one_file files files' \<longleftrightarrow> files' = files
     \<or> (\<exists>fname content. is_valid_fname fname \<and> files' = files(fname \<mapsto> content))"

lemma one_file_simps [simp]:
  "one_file files files"
  "is_valid_fname fname \<Longrightarrow> one_file files (files(fname \<mapsto> content))"
  by (auto simp: one_file_def)

lemma asset_args_code: "asset_args_loop args buf c = (Inl code, c') \<Longrightarrow> 1 \<le> code \<and> code \<le> 28"
  using asset_args_ok [of args buf c] by simp

lemma download_fits:
  assumes "is_valid_fname fname" "length aid \<le> 3" "length (fmt_d fsize) \<le> 11"
  shows "ok_result (\<lambda>x. tcp_fits (fst x) \<and> one_file files (snd (snd x))) (download_c io aid fname fsize c files)"
proof (cases "uncreatable io fname")
  case True
  then show ?thesis by (simp add: download_c_def client_err_defs)
next
  case False
  note len = valid_lengths(3) [OF assms(1)] assms(2,3) length_fmt_prec [of 3 aid]
  show ?thesis
    unfolding download_c_def Let_def if_not_P [OF False] ok_result_simps
    using len assms(1) by (auto intro!: call_ok short_fits simp: client_err_defs send_error_range err_defs simp del: tcp_fits_simps(2))
qed

lemma show_asset_reply_fits:
  assumes "length aid \<le> 3"
  shows "ok_result (\<lambda>x. tcp_fits (fst x) \<and> one_file files (snd (snd x))) (show_asset_reply_c io aid c files)"
  unfolding show_asset_reply_c_def
  using assms
  by (auto intro!: fits_intros download_fits length_fmt_d_int simp: client_err_defs send_error_range Let_def asset_args_code
      simp del: tcp_fits_simps(2) split: prod.split sum.split dest: asset_args_code)

section \<open>The TCP commands\<close>

definition tcp_cmd_fits :: "disk \<Rightarrow> tcp_cmd_result \<Rightarrow> bool" where
  "tcp_cmd_fits files res \<longleftrightarrow> ok_result (\<lambda>x. tcp_fits (fst x) \<and> one_file files (snd (snd x))) res"

lemma ok_result_split:
  "ok_result (\<lambda>(r, c'). tcp_fits r) m \<Longrightarrow> (\<And>r c'. tcp_fits r \<Longrightarrow> Q (r, c')) \<Longrightarrow> ok_result Q m"
  by (cases m) auto

lemma open_exchange_fits: "ok_result (\<lambda>(r, c'). tcp_fits r) (open_exchange_c io info content c)"
  unfolding open_exchange_c_def
  by (auto intro!: call_ok open_reply_fits simp: client_err_defs send_error_range split: prod.split)

lemma handle_open_fits: "tcp_cmd_fits files (handle_open_c io input client files)"
  unfolding handle_open_c_def tcp_cmd_fits_def Let_def
  by (auto intro!: ok_result_split [OF open_exchange_fits] simp: client_err_defs send_error_range split: option.split prod.split)

lemma handle_close_fits: "tcp_cmd_fits files (handle_close_c io input client files)"
  unfolding handle_close_c_def tcp_cmd_fits_def Let_def
  by (auto intro!: call_ok ok_result_split [OF close_reply_fits] simp: client_err_defs send_error_range
      split: option.split prod.split)

lemma handle_bid_fits: "tcp_cmd_fits files (handle_bid_c io input client files)"
  unfolding handle_bid_c_def tcp_cmd_fits_def Let_def
  by (auto intro!: call_ok ok_result_split [OF bid_reply_fits] simp: client_err_defs send_error_range valid_lengths
      split: option.split prod.split)

lemma handle_show_asset_fits: "tcp_cmd_fits files (handle_show_asset_c io input client files)"
  unfolding handle_show_asset_c_def tcp_cmd_fits_def Let_def
  by (auto intro!: call_ok ok_result_mono [OF show_asset_reply_fits] simp: client_err_defs send_error_range valid_lengths
      split: option.split prod.split)

section \<open>The UDP commands\<close>

text \<open>
  A datagram that passes the basic checks of the server, reaches a handler and is not one of the requests
  that crash it.
\<close>

definition good_request :: "string \<Rightarrow> bool" where
  "good_request q \<longleftrightarrow> q \<noteq> [] \<and> length q \<le> 20 \<and> last q = LF \<and> NUL \<notin> set q
     \<and> get_udp_handler_fn (take 4 q) \<noteq> None \<and> \<not> malformed_show_record q"

lemma good_requests:
  assumes "is_valid_uid u" "is_valid_passwd pw" "is_valid_aid a"
  shows "good_request (''LIN '' @ u @ '' '' @ pw @ [LF])" "good_request (''LOU '' @ u @ '' '' @ pw @ [LF])"
    "good_request (''UNR '' @ u @ '' '' @ pw @ [LF])" "good_request (''LMA '' @ u @ [LF])" "good_request (''LMB '' @ u @ [LF])"
    "good_request (''LST'' @ [LF])" "good_request (''SRC '' @ a @ [LF])"
  using assms valid_uid_clean [OF assms(1)] valid_passwd_clean [OF assms(2)] aid_request [OF assms(3)] valid_aid_clean [OF assms(3)]
  by (auto simp: good_request_def malformed_show_record_def get_udp_handler_fn_def udp_command_table_def cstr_no_nul
    is_valid_uid_iff is_valid_passwd_iff is_valid_aid_iff)

definition udp_cmd_fits :: "client_state \<Rightarrow> udp_cmd_result \<Rightarrow> bool" where
  "udp_cmd_fits client x \<longleftrightarrow> reply_fits (fst x) \<and> client_ok (fst (snd x))
     \<and> (snd (snd x) = [] \<or> (\<exists>q. snd (snd x) = [q] \<and> good_request q)) \<and> (fst x = Exits \<longrightarrow> \<not> logged_in client)"

lemma udp_cmd_fits_simps [simp]:
  "udp_cmd_fits client (r, c', sent) \<longleftrightarrow> reply_fits r \<and> client_ok c'
     \<and> (sent = [] \<or> (\<exists>q. sent = [q] \<and> good_request q)) \<and> (r = Exits \<longrightarrow> \<not> logged_in client)"
  by (simp add: udp_cmd_fits_def)

text \<open>What an exchange of a good request leaves to the handler.\<close>

lemma good_exchange:
  assumes "udp_exchange q m l = (x, sent)" "good_request q"
  shows "sent = [] \<or> (\<exists>q. sent = [q] \<and> good_request q)" "x = Inl code \<Longrightarrow> 1 \<le> code \<and> code \<le> 28"
    "x = Inr s \<Longrightarrow> length s \<le> m"
  using udp_exchange_sent [OF assms(1)] udp_exchange_code udp_exchange_length assms by blast+

lemma small_fits: "n \<le> 100 \<Longrightarrow> n < MAX_SERVER_RESPONSE"
  by (simp add: MAX_SERVER_RESPONSE_def)

lemma handle_login_fits: "client_ok c \<Longrightarrow> udp_cmd_fits c (handle_login_c l input c)"
proof -
  assume c: "client_ok c"
  obtain r c' sent where h: "handle_login_c l input c = (r, c', sent)" by (cases "handle_login_c l input c")
  have "reply_fits r \<and> (sent = [] \<or> (\<exists>q. sent = [q] \<and> good_request q)) \<and> r \<noteq> Exits"
    using h good_requests(1) [OF _ _ example_fields(5)]
    by (auto simp: handle_login_c_def client_err_defs small_fits Let_def good_exchange
      split: if_splits option.splits prod.splits sum.splits dest: good_exchange)
  then show ?thesis using handle_login_c_ok [OF c h] h by auto
qed

lemma logged_in_requests:
  assumes "client_ok c" "logged_in c"
  shows "good_request (''LOU '' @ fmt_prec 6 (c_uid c) @ '' '' @ fmt_prec 8 (c_passwd c) @ [LF])"
    "good_request (''UNR '' @ fmt_prec 6 (c_uid c) @ '' '' @ fmt_prec 8 (c_passwd c) @ [LF])"
    "good_request (''LMA '' @ fmt_prec 6 (c_uid c) @ [LF])" "good_request (''LMB '' @ fmt_prec 6 (c_uid c) @ [LF])"
  using client_okD [OF assms] good_requests(2,3,4,5) [OF _ _ example_fields(5)] example_fields(3) by simp_all

lemma handle_logout_fits: "client_ok c \<Longrightarrow> udp_cmd_fits c (handle_logout_c l input c)"
  using logged_in_requests(1) [of c]
  by (auto simp: handle_logout_c_def client_err_defs small_fits good_exchange logged_out_ok
      split: prod.split sum.split dest: good_exchange)

lemma handle_unregister_fits: "client_ok c \<Longrightarrow> udp_cmd_fits c (handle_unregister_c l input c)"
  using logged_in_requests(2) [of c]
  by (auto simp: handle_unregister_c_def client_err_defs small_fits good_exchange logged_out_ok
      split: prod.split sum.split dest: good_exchange)

lemma handle_exit_fits: "client_ok c \<Longrightarrow> udp_cmd_fits c (handle_exit_c l input c)"
  by (simp add: handle_exit_c_def client_err_defs)

lemma list_commands_ok:
  assumes "client_ok c"
  shows "ok_result (udp_cmd_fits c) (handle_list_c l input c)" "ok_result (udp_cmd_fits c) (handle_my_auctions_c l input c)"
    "ok_result (udp_cmd_fits c) (handle_my_bids_c l input c)"
proof -
  note lst = good_requests(6) [OF example_fields(1,3,5)]
  show "ok_result (udp_cmd_fits c) (handle_list_c l input c)"
    using list_handlers_fit(1) [of l input c] lst assms by (auto simp: udp_cmd_fits_def)
  show "ok_result (udp_cmd_fits c) (handle_my_auctions_c l input c)"
  proof (cases "logged_in c")
    case True
    then show ?thesis using list_handlers_fit(2) [OF True, of l input] logged_in_requests(3) [OF assms True] assms
      by (auto simp: udp_cmd_fits_def)
  qed (use assms in \<open>simp add: handle_my_auctions_c_def client_err_defs\<close>)
  show "ok_result (udp_cmd_fits c) (handle_my_bids_c l input c)"
  proof (cases "logged_in c")
    case True
    then show ?thesis using list_handlers_fit(3) [OF True, of l input] logged_in_requests(4) [OF assms True] assms
      by (auto simp: udp_cmd_fits_def)
  qed (use assms in \<open>simp add: handle_my_bids_c_def client_err_defs\<close>)
qed

lemma record_calls_ok:
  "(\<And>x. P x) \<Longrightarrow> ok_result P (record_info aid data)"
  "(\<And>y. Q y) \<Longrightarrow> ok_result Q (record_bids s n acc)"
  "(\<And>z. R z) \<Longrightarrow> ok_result R (record_status token s)"
  by (rule ok_resultI; blast)+

lemma record_response_ok:
  assumes "Q None" "\<And>s. length s < MAX_SERVER_RESPONSE \<Longrightarrow> Q (Some s)"
  shows "ok_result Q (record_response aid data)"
  unfolding record_response_def Let_def
  using assms by (auto split: option.split prod.split intro!: record_calls_ok)

lemma handle_show_record_ok:
  assumes "client_ok c"
  shows "ok_result (udp_cmd_fits c) (handle_show_record_c l input c)"
proof (cases "fst (strtok [SP] input)")
  case None
  then show ?thesis using assms by (cases "strtok [SP] input") (simp add: handle_show_record_c_def client_err_defs)
next
  case (Some a)
  then obtain r where tok: "strtok [SP] input = (Some a, r)" by (cases "strtok [SP] input") simp
  show ?thesis
  proof (cases "is_valid_aid a")
    case True
    then have good: "good_request (''SRC '' @ fmt_prec 3 a @ [LF])" using good_requests(7) [OF example_fields(1,3)] by simp
    obtain x sent where e: "udp_exchange (''SRC '' @ fmt_prec 3 a @ [LF]) 65534 l = (x, sent)" by (metis surj_pair)
    then have sent: "sent = [] \<or> (\<exists>q. sent = [q] \<and> good_request q)" using good by (rule good_exchange(1))
    show ?thesis
    proof (cases x)
      case (Inl code)
      then have "1 \<le> code" "code \<le> 28" using e udp_exchange_code by auto
      then show ?thesis using True sent assms e Inl by (simp add: handle_show_record_c_def tok)
    next
      case (Inr buffer)
      have unknown: "udp_cmd_fits c (Code ERR_UNKNOWN_ANSWER, c, sent)" using sent assms by (simp add: client_err_defs)
      have short: "udp_cmd_fits c (Response s, c, sent)" if "length s < MAX_SERVER_RESPONSE" for s using that sent assms by simp
      show ?thesis
        unfolding handle_show_record_c_def Let_def
        using True unknown short e [unfolded Inr] tok
        by (auto split: prod.split option.split simp: small_fits simp del: udp_cmd_fits_simps fmt_prec_valid
            intro!: record_response_ok)
    qed
  qed (use tok assms in \<open>simp add: handle_show_record_c_def client_err_defs\<close>)
qed

section \<open>Every command\<close>

definition cmd_fits :: "client_state \<Rightarrow> disk \<Rightarrow> client_reply \<times> client_state \<times> disk \<times> string list \<times> conn option \<Rightarrow> bool" where
  "cmd_fits client files x \<longleftrightarrow> (case x of (r, client', files', sent, c) \<Rightarrow>
     (case r of
        Code n \<Rightarrow> (\<exists>msg. get_error_msg n = Inr (Some msg))
      | Response s \<Rightarrow> length s < MAX_SERVER_RESPONSE
      | Exits \<Rightarrow> \<not> logged_in client)
     \<and> client_ok client' \<and> (sent = [] \<or> (\<exists>q. sent = [q] \<and> good_request q)) \<and> one_file files files')"

lemma error_msg_code: "1 \<le> n \<Longrightarrow> n \<le> 28 \<Longrightarrow> \<exists>msg. get_error_msg n = Inr (Some msg)"
  by (simp add: get_error_msg_def error_lookup_table_def)

lemma cmd_fits_iff:
  "cmd_fits client files (r, client', files', sent, c) \<longleftrightarrow> reply_fits r \<and> (r = Exits \<longrightarrow> \<not> logged_in client)
     \<and> client_ok client' \<and> (sent = [] \<or> (\<exists>q. sent = [q] \<and> good_request q)) \<and> one_file files files'"
  if "\<And>n. r = Code n \<Longrightarrow> 1 \<le> n \<and> n \<le> 28"
  using that error_msg_code by (cases r) (auto simp: cmd_fits_def)

lemma cmd_fitsI:
  "reply_fits r \<Longrightarrow> (r = Exits \<longrightarrow> \<not> logged_in client) \<Longrightarrow> client_ok client' \<Longrightarrow>
   (sent = [] \<or> (\<exists>q. sent = [q] \<and> good_request q)) \<Longrightarrow> one_file files files' \<Longrightarrow>
   cmd_fits client files (r, client', files', sent, c)"
  by (subst cmd_fits_iff) auto

lemma udp_command_fits:
  "ok_result (udp_cmd_fits client) res \<Longrightarrow> ok_result (cmd_fits client files) (udp_command files res)"
  by (cases res) (auto simp: udp_command_def intro!: cmd_fitsI)

lemma tcp_command_fits:
  "client_ok client \<Longrightarrow> tcp_cmd_fits files res \<Longrightarrow> ok_result (cmd_fits client files) (tcp_command client res)"
  by (cases res) (auto simp: tcp_command_def tcp_cmd_fits_def tcp_fits_def intro!: cmd_fitsI)

lemma run_command_fits:
  assumes "client_ok client"
  shows "ok_result (cmd_fits client files) (run_command h e input client files)"
proof -
  have "length s < MAX_SERVER_RESPONSE \<Longrightarrow> cmd_fits client files (Response s, client, files, [], None)" for s
    using assms by (simp add: cmd_fits_def)
  then have "cmd_fits client files (handle_clear_c, client, files, [], None)" "cmd_fits client files (handle_help_c, client, files, [], None)"
    "cmd_fits client files (handle_format_c, client, files, [], None)"
    by (simp_all add: handle_clear_c_def handle_help_c_def handle_format_c_def MAX_SERVER_RESPONSE_def)
  then show ?thesis
    using assms list_commands_ok handle_show_record_ok handle_login_fits handle_logout_fits handle_unregister_fits
      handle_exit_fits handle_open_fits handle_close_fits handle_bid_fits handle_show_asset_fits
    by (cases h) (simp_all add: run_command_def udp_command_fits tcp_command_fits)
qed

text \<open>
  C13. Whatever the user types and whatever the network and the file system answer, a command that stays
  inside its arrays ends in one of three ways: with an error code that has a message, with a text that fits
  in \<open>response\<close>, or with the end of a client that is logged out. It keeps the credentials of the client
  state well-formed, sends at most one datagram, which passes the checks of the server, reaches a handler
  and is none of the requests that crash it, and changes at most one file of the working directory, under a
  name without a slash that does not start with a dot.
\<close>

theorem handle_cmd_contract:
  assumes "client_ok client" "handle_cmd e user_input client files = Inr (r, client', files', sent, c)"
  shows "(case r of
            Code n \<Rightarrow> \<exists>msg. get_error_msg n = Inr (Some msg)
          | Response s \<Rightarrow> length s < MAX_SERVER_RESPONSE
          | Exits \<Rightarrow> \<not> logged_in client)
     \<and> client_ok client' \<and> (sent = [] \<or> (\<exists>q. sent = [q] \<and> good_request q)) \<and> one_file files files'"
proof -
  have codes: "cmd_fits client files (Code ERR_NO_COMMAND, client, files, [], None)"
    "cmd_fits client files (Code ERR_INVALID_COMMAND, client, files, [], None)"
    using assms(1) error_msg_code by (simp_all add: cmd_fits_def client_err_defs)
  have "ok_result (cmd_fits client files) (handle_cmd e user_input client files)"
    unfolding handle_cmd_def using codes run_command_fits [OF assms(1)] by (auto split: option.split prod.split)
  then show ?thesis using assms(2) by (simp add: cmd_fits_def)
qed

text \<open>A server that stays silent.\<close>

definition silent :: client_env where
  "silent = offline\<lparr>env_link := (env_link offline)\<lparr>sendto_fails := False\<rparr>\<rparr>"

theorem handle_cmd_contract_witness:
  "handle_cmd silent (''list'' @ [NUL, NUL]) fresh_client Map.empty
      = Inr (Code ERR_TIMEDOUT_UDP, fresh_client, Map.empty, [''LST'' @ [LF]], None)
   \<and> (\<exists>msg. get_error_msg ERR_TIMEDOUT_UDP = Inr (Some msg)) \<and> good_request (''LST'' @ [LF])"
proof -
  have r: "handle_cmd silent (''list'' @ [NUL, NUL]) fresh_client Map.empty
      = Inr (Code ERR_TIMEDOUT_UDP, fresh_client, Map.empty, [''LST'' @ [LF]], None)"
    by (simp add: handle_cmd_def strtok_def get_handler_func_def command_table_def run_command_def udp_command_def
      handle_list_c_def udp_exchange_def send_udp_request_def receive_udp_response_def offline_def silent_def
      UDP_ERR_NO_LF_MESSAGE_def client_err_defs)
  show ?thesis using handle_cmd_contract [OF fresh_client(1) r] r by simp
qed

end
