(* ===== verification/ClientExchanges.thy ===== *)
theory ClientExchanges
  imports ClientTcp ClientLists TcpExchanges UdpSafety
begin

text \<open>
  The TCP commands of the client against the server: what \<open>bid\<close>, \<open>close\<close>, \<open>open\<close> and \<open>showasset\<close> display
  and what they do to the auction house, when the server answers the bytes they send.
\<close>

section \<open>One command and the connection it is served on\<close>

text \<open>
  A command sends its whole request before it reads. \<open>tcp_exchange\<close> runs it a first time, without an
  answer, to learn the request; the server handles the request; the command runs again with the reply of
  the server on its connection. A command that does not connect leaves the server alone.
\<close>

definition tcp_exchange :: "env \<Rightarrow> (client_io \<Rightarrow> tcp_cmd_result) \<Rightarrow> client_io \<Rightarrow> db \<Rightarrow> (client_reply \<times> disk \<times> db) outcome" where
  "tcp_exchange e cmd io d =
     bind_ok (cmd (io\<lparr>dial := Some idle_conn\<rparr>)) (\<lambda>(r0, c0, files0).
     case c0 of
       None \<Rightarrow> Inr (r0, files0, d)
     | Some c0 \<Rightarrow>
         bind_ok (serve_tcp_connection e (idle_conn\<lparr>rx := [tx c0]\<rparr>) d) (\<lambda>(_, s, d').
         bind_ok (cmd (io\<lparr>dial := Some (idle_conn\<lparr>rx := [tx s]\<rparr>)\<rparr>)) (\<lambda>(r, _, files). Inr (r, files, d'))))"

text \<open>What the client does between its arguments and its connection: \<open>request\<close> is sent, the reply is read.\<close>

lemma tcp_exchange_served:
  assumes cmd: "\<And>segs. cmd (io\<lparr>dial := Some (idle_conn\<lparr>rx := segs\<rparr>)\<rparr>)
      = bind_ok (reply (idle_conn\<lparr>rx := segs, tx := request\<rparr>)) (\<lambda>(r, c, files). Inr (r, Some c, files))"
    and sent: "\<And>c. rx c = [] \<Longrightarrow> rx_end c = RxClosed \<Longrightarrow> \<exists>r c' files. reply c = Inr (r, c', files) \<and> tx c' = tx c"
    and serve: "serve_tcp_connection e (idle_conn\<lparr>rx := [request]\<rparr>) d = Inr (0, s, d')"
    and reply: "reply (idle_conn\<lparr>rx := [tx s], tx := request\<rparr>) = Inr (r, c', files)"
  shows "tcp_exchange e cmd io d = Inr (r, files, d')"
proof -
  obtain r0 c0 files0 where "reply (idle_conn\<lparr>rx := [], tx := request\<rparr>) = Inr (r0, c0, files0)" "tx c0 = request"
    using sent [of "idle_conn\<lparr>rx := [], tx := request\<rparr>"] by (auto simp: idle_conn_def)
  moreover have "idle_conn = idle_conn\<lparr>rx := []\<rparr>" by (simp add: idle_conn_def)
  ultimately have "cmd (io\<lparr>dial := Some idle_conn\<rparr>) = Inr (r0, Some c0, files0)" using cmd [of "[]"] by simp
  then show ?thesis using \<open>tx c0 = request\<close> serve cmd [of "[tx s]"] reply by (simp add: tcp_exchange_def)
qed

section \<open>Reading a reply\<close>

lemma read_field_segment:
  assumes "rx c = (w @ x) # segs" "length w = n" "0 < n" "n \<le> cells" "NUL \<notin> set w"
  shows "read_field g cells n c = Inr (Inr w, c\<lparr>rx := (if x = [] then segs else x # segs)\<rparr>)"
proof -
  have "read_tcp_stream (replicate cells NUL) n c
      = Inr (0, w @ replicate (cells - n) NUL, c\<lparr>rx := (if x = [] then segs else x # segs)\<rparr>)"
    using read_tcp_stream_delivered [of c "w @ x" segs n "replicate cells NUL"] assms
    by (auto simp: rx_drop_def)
  then show ?thesis using assms(5) by (simp add: read_field_def cstr_replicate)
qed

lemma read_field_closed:
  assumes "rx c = []" "rx_end c = RxClosed" "0 < n"
  shows "\<exists>code. read_field g cells n c = Inr (Inl code, c)"
proof -
  have "recv n c = (Inr [], c)" using assms recv_eof [of c n] by simp
  then have "read_tcp_stream (replicate cells NUL) n c = Inr (ERR_TCP_READ_CLOSED, replicate cells NUL, c)"
    using assms(3) by (simp add: read_tcp_stream_def read_tcp_loop.simps [of _ 0])
  then show ?thesis by (simp add: read_field_def err_defs)
qed

lemma lf_segment: "rx c = [[LF]] \<Longrightarrow> is_lf_in_stream c = (True, c\<lparr>rx := []\<rparr>)"
  by (simp add: is_lf_in_stream_def recv_def)

section \<open>bid\<close>

text \<open>What the client displays for each status of the protocol.\<close>

definition bid_display :: "string \<Rightarrow> string \<Rightarrow> string \<Rightarrow> client_reply" where
  "bid_display aid typed out =
     (if out = ''ACC'' then Response (''Sucessfully bidded '' @ typed @ '' on auction '' @ aid @ [LF])
      else if out = ''NLG'' then Response (''User is not logged in'' @ [LF])
      else if out = ''ILG'' then Response (''User cannot bid on an auction hosted by himself'' @ [LF])
      else if out = ''REF'' then Response (''The bid amound is too low'' @ [LF])
      else if out = ''NOK'' then Response (''The auction is not active'' @ [LF])
      else Response (''Received an error message for bid command from the server (auction might not exist or ''
             @ ''client parameters might be badly formatted!)'' @ [LF]))"

lemma bid_outcome_cases: "bid_outcome us h uid pw aid v \<in> {''ACC'', ''NLG'', ''ILG'', ''REF'', ''NOK'', ''ERR''}"
  by (auto simp: bid_outcome_def split: option.split)

lemma bid_reply_shown:
  assumes "out \<in> {''ACC'', ''NLG'', ''ILG'', ''REF'', ''NOK'', ''ERR''}" "rx c = [''RBD '' @ out @ [LF]]"
  shows "bid_reply_c aid v c = Inr (bid_display aid v out, c\<lparr>rx := []\<rparr>)"
proof -
  let ?c1 = "c\<lparr>rx := [out @ [LF]]\<rparr>"
  have r1: "read_field id 8 4 c = Inr (Inr ''RBD '', ?c1)"
    using read_field_segment [of c "''RBD ''" "out @ [LF]" "[]" 4 8] assms(2) by simp
  have out: "length out = 3" "NUL \<notin> set out" using assms(1) by auto
  have r2: "read_field id 8 4 ?c1 = Inr (Inr (out @ [LF]), c\<lparr>rx := []\<rparr>)"
    using read_field_segment [of ?c1 "out @ [LF]" "[]" "[]" 4 8] out by simp
  show ?thesis
    unfolding bid_reply_c_def r1 bind_ok_simps prod.case sum.case r2
    using assms(1) by (auto simp: bid_display_def determine_bid_response_error_def)
qed

lemma send_request: "tx_caps c = [] \<Longrightarrow> send_str s c = Inr (0, c\<lparr>tx := tx c @ s\<rparr>)"
  by (simp add: send_str_def send_tcp_message_all)

lemma bid_command:
  assumes c: "client_ok client" "logged_in client" and a: "is_valid_aid aid" and v: "is_valid_start_value v" "v \<noteq> []"
  shows "handle_bid_c (io\<lparr>dial := Some (idle_conn\<lparr>rx := segs\<rparr>)\<rparr>) (aid @ SP # v) client files =
     bind_ok (bind_ok (bid_reply_c aid v (idle_conn\<lparr>rx := segs,
         tx := bid_request (take 6 (c_uid client)) (take 8 (c_passwd client)) aid (fmt_d (atoi v))\<rparr>))
       (\<lambda>(r, c). Inr (r, c, files))) (\<lambda>(r, c, files). Inr (r, Some c, files))"
proof -
  note id = client_okD [OF c] and w = ids_clean [OF client_okD(1,2) [OF c] a]
  have "LF \<notin> set v" using v(1) digit_not_LF by (auto simp: is_valid_start_value_iff)
  then have "strtok [LF] v = (Some v, [])" using v(2) by (intro strtok_all) auto
  note tok = strtok_word [OF w(3), of v] this
  let ?req = "bid_request (take 6 (c_uid client)) (take 8 (c_passwd client)) aid (fmt_d (atoi v))"
  have req: "?req = ''BID '' @ fmt_prec 6 (c_uid client) @ '' '' @ fmt_prec 8 (c_passwd client) @ '' ''
           @ fmt_prec 3 aid @ '' '' @ fmt_d (atoi v) @ [LF]" using a by (simp add: bid_request_def id)
  have "length (fmt_d (atoi v)) \<le> 6" using valid_start_value_atoi [OF v(1)] by (intro fmt_d_length_le) auto
  then have short: "\<not> length ?req \<ge> 64" using w by (simp add: bid_request_def)
  have snd: "send_str ?req (idle_conn\<lparr>rx := segs\<rparr>) = Inr (0, idle_conn\<lparr>rx := segs, tx := ?req\<rparr>)"
    using send_request [of "idle_conn\<lparr>rx := segs\<rparr>" ?req] by (simp add: idle_conn_def)
  show ?thesis
    unfolding handle_bid_c_def Let_def open_tcp_connection_to_server_def tok option.case prod.case req [symmetric] if_not_P [OF short]
    using c(2) a v(1) by (simp add: snd) (simp add: bind_ok_def split: sum.split)
qed

text \<open>The value loop of the server reads the number the client writes, zero included.\<close>

lemma hd_digits: "0 < n \<Longrightarrow> hd (digits n) \<noteq> CHR ''0''"
proof (induction n rule: digits.induct)
  case (1 n)
  show ?case
  proof (cases "n < 10")
    case True
    have "digit_val (digit_char n) = int n" "digit_val (CHR ''0'') = 0" using True by (simp, code_simp)
    then have "digit_char n \<noteq> CHR ''0''" using "1.prems" by (metis less_irrefl of_nat_0_eq_iff)
    then show ?thesis using True by (subst digits.simps) auto
  next
    case False
    then have "hd (digits (n div 10)) \<noteq> CHR ''0''" by (intro "1.IH") auto
    then show ?thesis using False by (subst digits.simps) simp
  qed
qed

lemma bid_value_loop_number:
  assumes "0 \<le> n" "n \<le> 999999" "rx c = [fmt_d n @ [LF]]"
  shows "\<exists>ds r. bid_value_loop [] c = (Inr ds, c\<lparr>rx := r\<rparr>) \<and> atoi ds = n"
proof (cases "n = 0")
  case True
  have "fmt_d 0 = [CHR ''0'']" by code_simp
  then have zero: "fmt_d n = [CHR ''0'']" using True by simp
  have r: "recv 1 c = (Inr [CHR ''0''], c\<lparr>rx := [[LF]]\<rparr>)" "recv 1 (c\<lparr>rx := [[LF]]\<rparr>) = (Inr [LF], c\<lparr>rx := []\<rparr>)"
    using assms(3) by (simp_all add: zero recv_def)
  note r = r [unfolded One_nat_def]
  have "bid_value_loop [] c = bid_value_loop [] (c\<lparr>rx := [[LF]]\<rparr>)"
    by (subst bid_value_loop.simps) (simp add: r MAX_BID_VALUE_def)
  also have "\<dots> = (Inr [], c\<lparr>rx := []\<rparr>)"
    by (subst bid_value_loop.simps) (simp add: r MAX_BID_VALUE_def)
  finally show ?thesis using True by (auto simp: atoi_def strtol10_def c_int_id)
next
  case False
  let ?ws = "fmt_d n"
  have d: "\<forall>b \<in> set ?ws. isdigit b" using fmt_d_isdigit [OF assms(1)] by blast
  have h: "hd ?ws \<noteq> CHR ''0''" using False assms(1) hd_digits [of "nat n"] by (simp add: fmt_d_def)
  have "length ?ws \<le> 6" using assms by (intro fmt_d_length_le) auto
  then have "take 6 ?ws = ?ws" by simp
  moreover obtain r where "bid_value_loop [] c = (Inr (take 6 ([] @ ?ws)), c\<lparr>rx := r\<rparr>)"
    using bid_value_loop_digits [of ?ws "[]" c "[]"] d h assms(3) by auto
  ultimately show ?thesis using atoi_fmt_d [of n] assms(1,2) by auto
qed

lemma closed_reply:
  assumes "rx c = []" "rx_end c = RxClosed"
  shows "\<exists>r c'. bid_reply_c aid v c = Inr (r, c') \<and> tx c' = tx c"
    and "\<exists>r c'. close_reply_c c = Inr (r, c') \<and> tx c' = tx c"
    and "\<exists>r c'. open_reply_c c = Inr (r, c') \<and> tx c' = tx c"
    and "\<exists>r c' files'. show_asset_reply_c io aid c files = Inr (r, c', files') \<and> tx c' = tx c"
  using read_field_closed [OF assms, of 4 id 8] read_field_closed [OF assms, of 4 err_bool 8]
  by (auto simp: bid_reply_c_def close_reply_c_def open_reply_c_def show_asset_reply_c_def)

lemma client_bid_step:
  fixes e :: env
  assumes d: "sound d" and c: "client_ok client" "logged_in client" and a: "is_valid_aid aid"
    and v: "is_valid_start_value v" "v \<noteq> []" and now: "time_ok (clock e)"
  defines "h \<equiv> expire (clock e) (auction_view d)"
  defines "out \<equiv> bid_outcome (user_view d) h (take 6 (c_uid client)) (take 8 (c_passwd client)) aid (atoi v)"
  shows "\<exists>d'. tcp_exchange e (\<lambda>io. handle_bid_c io (aid @ SP # v) client files) io d = Inr (bid_display aid v out, files, d')
     \<and> sound d' \<and> user_view d' = user_view d
     \<and> auction_view d' = (if out = ''ACC'' then change aid (\<lambda>x. x\<lparr>bids := insert (atoi v) (bids x)\<rparr>) h else h)"
proof -
  note id = client_okD [OF c] and num = valid_start_value_atoi [OF v(1)]
  let ?ws = "fmt_d (atoi v)"
  let ?req = "bid_request (take 6 (c_uid client)) (take 8 (c_passwd client)) aid ?ws"
  let ?c = "idle_conn\<lparr>rx := [?req]\<rparr>"
  obtain ds r where loop: "bid_value_loop [] (?c\<lparr>rx := [?ws @ [LF]]\<rparr>) = (Inr ds, ?c\<lparr>rx := r\<rparr>)" and ds: "atoi ds = atoi v"
    using bid_value_loop_number [of "atoi v" "?c\<lparr>rx := [?ws @ [LF]]\<rparr>"] num by auto
  have rx: "rx ?c = [''BID '' @ take 6 (c_uid client) @ '' '' @ take 8 (c_passwd client) @ '' '' @ aid @ '' '' @ (?ws @ [LF])]"
    "?ws @ [LF] \<noteq> []" "tx_caps ?c = []" "tx ?c = []"
    by (simp_all add: bid_request_def idle_conn_def)
  have le: "atoi ds \<le> 999999" using num ds by simp
  obtain s d' where serve: "serve_tcp_connection e ?c d = Inr (0, s, d')" "tx s = ''RBD '' @ out @ [LF]"
    and d': "sound d'" "user_view d' = user_view d"
      "auction_view d' = (if out = ''ACC'' then change aid (\<lambda>x. x\<lparr>bids := insert (atoi v) (bids x)\<rparr>) h else h)"
    using bid_round [OF d id(1,2) a rx(1-3) loop le now] unfolding ds h_def [symmetric] out_def [symmetric] rx(4) by auto
  let ?reply = "\<lambda>c. bind_ok (bid_reply_c aid v c) (\<lambda>(r, c). Inr (r, c, files))"
  have "tcp_exchange e (\<lambda>io. handle_bid_c io (aid @ SP # v) client files) io d = Inr (bid_display aid v out, files, d')"
  proof (rule tcp_exchange_served [where reply = ?reply and request = ?req])
    show "\<exists>r c' files'. ?reply c = Inr (r, c', files') \<and> tx c' = tx c" if "rx c = []" "rx_end c = RxClosed" for c
      using closed_reply(1) [OF that, of aid v] by auto
    show "?reply (idle_conn\<lparr>rx := [tx s], tx := ?req\<rparr>)
        = Inr (bid_display aid v out, idle_conn\<lparr>rx := [], tx := ?req\<rparr>, files)"
      using bid_reply_shown [of out "idle_conn\<lparr>rx := [tx s], tx := ?req\<rparr>" aid v] bid_outcome_cases serve(2)
      by (simp add: out_def)
  qed (use bid_command [OF c a v] serve(1) in simp_all)
  then show ?thesis using d' by blast
qed

section \<open>close\<close>

definition close_display :: "string \<Rightarrow> client_reply" where
  "close_display out =
     (if out = ''OK'' then Response (''Auction sucessfully closed by the AS!'' @ [LF])
      else if out = ''NLG'' then Response (''User is not logged in'' @ [LF])
      else if out = ''EAU'' then Response (''Auction with given UID does not exist'' @ [LF])
      else if out = ''EOW'' then Response (''Auction is not owned by the user'' @ [LF])
      else Response (''Auction has already ended'' @ [LF]))"

lemma close_outcome_cases: "close_outcome us h uid pw aid \<in> {''OK'', ''NLG'', ''EAU'', ''EOW'', ''END''}"
  by (auto simp: close_outcome_def split: option.split)

lemma close_reply_shown:
  assumes "out \<in> {''OK'', ''NLG'', ''EAU'', ''EOW'', ''END''}" "rx c = [''RCL '' @ out @ [LF]]"
  shows "close_reply_c c = Inr (close_display out, c\<lparr>rx := []\<rparr>)"
proof (cases "out = ''OK''")
  case True
  let ?c1 = "c\<lparr>rx := [''OK'' @ [LF]]\<rparr>"
  have r1: "read_field id 8 4 c = Inr (Inr ''RCL '', ?c1)"
    using read_field_segment [of c "''RCL ''" "''OK'' @ [LF]" "[]" 4 8] assms(2) True by simp
  have r2: "read_field err_bool 4 3 ?c1 = Inr (Inr (''OK'' @ [LF]), c\<lparr>rx := []\<rparr>)"
    using read_field_segment [of ?c1 "''OK'' @ [LF]" "[]" "[]" 3 4] by simp
  show ?thesis
    unfolding close_reply_c_def r1 bind_ok_simps prod.case sum.case r2 using True by (simp add: close_display_def)
next
  case False
  let ?c1 = "c\<lparr>rx := [out @ [LF]]\<rparr>" and ?c2 = "c\<lparr>rx := [[LF]]\<rparr>"
  have out: "length out = 3" "NUL \<notin> set out" using assms(1) False by auto
  have r1: "read_field id 8 4 c = Inr (Inr ''RCL '', ?c1)"
    using read_field_segment [of c "''RCL ''" "out @ [LF]" "[]" 4 8] assms(2) by simp
  have r2: "read_field err_bool 4 3 ?c1 = Inr (Inr out, ?c2)"
    using read_field_segment [of ?c1 out "[LF]" "[]" 3 4] out by simp
  have lf: "is_lf_in_stream ?c2 = (True, c\<lparr>rx := []\<rparr>)" using lf_segment [of ?c2] by simp
  show ?thesis
    unfolding close_reply_c_def r1 bind_ok_simps prod.case sum.case r2 lf
    using assms(1) False by (auto simp: close_display_def determine_close_response_error_def)
qed

lemma send_array: "tx_caps c = [] \<Longrightarrow> send_tcp_message (in_array n s) (length s) c = Inr (0, c\<lparr>tx := tx c @ s\<rparr>)"
  by (simp add: in_array_def send_tcp_message_all)

lemma close_command:
  assumes c: "client_ok client" "logged_in client" and a: "is_valid_aid aid"
  shows "handle_close_c (io\<lparr>dial := Some (idle_conn\<lparr>rx := segs\<rparr>)\<rparr>) aid client files =
     bind_ok (bind_ok (close_reply_c (idle_conn\<lparr>rx := segs,
         tx := close_request (take 6 (c_uid client)) (take 8 (c_passwd client)) aid\<rparr>))
       (\<lambda>(r, c). Inr (r, c, files))) (\<lambda>(r, c, files). Inr (r, Some c, files))"
proof -
  note id = client_okD [OF c] and w = ids_clean [OF client_okD(1,2) [OF c] a]
  have tok: "strtok [SP] aid = (Some aid, [])"
    using w(3) by (intro strtok_all) (auto simp: clean_word_def)
  let ?req = "close_request (take 6 (c_uid client)) (take 8 (c_passwd client)) aid"
  have req: "?req = ''CLS '' @ fmt_prec 6 (c_uid client) @ '' '' @ fmt_prec 8 (c_passwd client) @ '' ''
           @ fmt_prec 3 aid @ [LF]" using a by (simp add: close_request_def id)
  have short: "\<not> length ?req \<ge> 32" using w by (simp add: close_request_def)
  have snd: "send_tcp_message (in_array 32 ?req) (length ?req) (idle_conn\<lparr>rx := segs\<rparr>) = Inr (0, idle_conn\<lparr>rx := segs, tx := ?req\<rparr>)"
    using send_array [of "idle_conn\<lparr>rx := segs\<rparr>" 32 ?req] by (simp add: idle_conn_def)
  show ?thesis
    unfolding handle_close_c_def Let_def open_tcp_connection_to_server_def tok option.case prod.case req [symmetric] if_not_P [OF short]
    using c(2) a by (simp add: snd) (simp add: bind_ok_def split: sum.split)
qed

lemma client_close_step:
  fixes e :: env
  assumes d: "sound d" and c: "client_ok client" "logged_in client" and a: "is_valid_aid aid" and now: "time_ok (clock e)"
  defines "h \<equiv> expire (clock e) (auction_view d)"
  defines "out \<equiv> close_outcome (user_view d) h (take 6 (c_uid client)) (take 8 (c_passwd client)) aid"
  shows "\<exists>d'. tcp_exchange e (\<lambda>io. handle_close_c io aid client files) io d = Inr (close_display out, files, d')
     \<and> sound d' \<and> user_view d' = user_view d
     \<and> auction_view d' = (if out = ''OK'' then change aid (\<lambda>x. x\<lparr>ended := True\<rparr>) h else h)"
proof -
  note id = client_okD [OF c]
  let ?req = "close_request (take 6 (c_uid client)) (take 8 (c_passwd client)) aid"
  let ?c = "idle_conn\<lparr>rx := [?req]\<rparr>"
  have rx: "rx ?c = [?req]" "tx_caps ?c = []" "tx ?c = []" by (simp_all add: idle_conn_def)
  obtain s d' where serve: "serve_tcp_connection e ?c d = Inr (0, s, d')" "tx s = ''RCL '' @ out @ [LF]"
    and d': "sound d'" "user_view d' = user_view d"
      "auction_view d' = (if out = ''OK'' then change aid (\<lambda>x. x\<lparr>ended := True\<rparr>) h else h)"
    using close_round [OF d id(1,2) a rx(1,2) now] unfolding h_def [symmetric] out_def [symmetric] rx(3) by auto
  let ?reply = "\<lambda>c. bind_ok (close_reply_c c) (\<lambda>(r, c). Inr (r, c, files))"
  have "tcp_exchange e (\<lambda>io. handle_close_c io aid client files) io d = Inr (close_display out, files, d')"
  proof (rule tcp_exchange_served [where reply = ?reply and request = ?req])
    show "\<exists>r c' files'. ?reply c = Inr (r, c', files') \<and> tx c' = tx c" if "rx c = []" "rx_end c = RxClosed" for c
      using closed_reply(2) [OF that] by auto
    show "?reply (idle_conn\<lparr>rx := [tx s], tx := ?req\<rparr>) = Inr (close_display out, idle_conn\<lparr>rx := [], tx := ?req\<rparr>, files)"
      using close_reply_shown [of out "idle_conn\<lparr>rx := [tx s], tx := ?req\<rparr>"] close_outcome_cases serve(2)
      by (simp add: out_def)
  qed (use close_command [OF c a] serve(1) in simp_all)
  then show ?thesis using d' by blast
qed

section \<open>open\<close>

lemma send_asset_all:
  "tx_caps c = [] \<Longrightarrow> accepting answers \<Longrightarrow> tot + int (length asset) = fsize \<Longrightarrow>
     send_asset_loop asset answers tot fsize c = Inr (0, c\<lparr>tx := tx c @ asset @ [LF]\<rparr>)"
proof (induction "length asset" arbitrary: asset answers tot c rule: less_induct)
  case less
  have block: "send_block data c = (0, c\<lparr>tx := tx c @ data\<rparr>)" for data
    using less.prems(1) by (simp add: send_block.simps [of data] send_block.simps [of "[]"] send_all)
  show ?case
  proof (cases "asset = []")
    case True
    then show ?thesis using less.prems by (subst send_asset_loop.simps) (simp add: send_tcp_message_all)
  next
    case False
    obtain n answers' where t: "transfer answers (take BUFF_SZ asset) = (Inr n, answers')" and rc: "accepting answers'"
      using less.prems(2) by (cases answers) (auto simp: transfer_def accepting_def)
    have n: "0 < n" "n \<le> length asset" using transfer_progress [OF t] False by (auto simp: BUFF_SZ_def)
    have "send_asset_loop (drop n asset) answers' (tot + int n) fsize (c\<lparr>tx := tx c @ take n asset\<rparr>)
        = Inr (0, c\<lparr>tx := tx c @ take n asset\<rparr>\<lparr>tx := tx (c\<lparr>tx := tx c @ take n asset\<rparr>) @ drop n asset @ [LF]\<rparr>)"
      using n less.prems(1,3) rc by (intro less.hyps) auto
    moreover have "take n asset @ drop n asset @ [LF] = asset @ [LF]" by (simp flip: append_assoc)
    ultimately show ?thesis
      using less.prems(3) n False by (subst send_asset_loop.simps) (simp add: t block)
  qed
qed

definition free_aid :: "house \<Rightarrow> string" where
  "free_aid h = fmt_0d 3 (int (card (dom h)) + 1)"

lemma card_house:
  assumes "sound d"
  shows "int (card (dom (auction_view d))) = auc_count d"
proof -
  have inv: "db_inv d" using assms by (simp add: sound_def)
  have cnt: "0 \<le> auc_count d" "auc_count d \<le> 999" using db_invD(10,11) [OF inv] by auto
  have "a \<in> dom (auction_view d) \<longleftrightarrow> is_valid_aid a \<and> exists_auction a d" for a
    using auction_view_exists [OF assms, of a] auction_view_None [of a d]
    by (cases "is_valid_aid a \<and> exists_auction a d") (auto simp: domIff)
  moreover have "is_valid_aid (fmt_0d 3 n)" if "1 \<le> n" "n \<le> 999" for n using that by (simp add: fmt_0d_valid_aid)
  ultimately have "dom (auction_view d) = fmt_0d 3 ` {1..auc_count d}"
    using exists_auction_range [of _ d] cnt by fastforce
  moreover have "inj_on (fmt_0d 3) {1..auc_count d}"
  proof (rule inj_onI)
    fix m n assume "m \<in> {1..auc_count d}" "n \<in> {1..auc_count d}" "fmt_0d 3 m = fmt_0d 3 n"
    moreover have "atoi (fmt_0d 3 k) = k" if "k \<in> {1..auc_count d}" for k using that cnt by (intro atoi_fmt_0d) auto
    ultimately show "m = n" by metis
  qed
  ultimately show ?thesis using cnt by (simp add: card_image)
qed

definition open_outcome :: "accounts \<Rightarrow> house \<Rightarrow> string \<Rightarrow> string \<Rightarrow> string" where
  "open_outcome us h uid pw =
     (if us uid \<noteq> Some (pw, True) then ''NLG'' else if card (dom h) \<ge> 999 then ''NOK'' else ''OK'')"

definition open_display :: "string \<Rightarrow> string \<Rightarrow> client_reply" where
  "open_display aid out =
     (if out = ''OK'' then Response (''Asset '' @ aid @ '' successfully started by the AS'' @ [LF])
      else if out = ''NLG'' then Response (''User is not logged in'' @ [LF])
      else Response (''Auction could not be started by the AS'' @ [LF]))"

lemma open_reply_shown:
  assumes "out = ''OK'' \<and> rx c = [''ROA OK '' @ aid @ [LF]] \<and> is_valid_aid aid
      \<or> out \<in> {''NLG'', ''NOK''} \<and> rx c = [''ROA '' @ out @ [LF]]"
  shows "open_reply_c c = Inr (open_display aid out, c\<lparr>rx := []\<rparr>)"
proof (cases "out = ''OK''")
  case True
  then have rx: "rx c = [''ROA '' @ ''OK '' @ aid @ [LF]]" and a: "is_valid_aid aid" using assms by auto
  have w: "clean_word aid" "length aid = 3" "NUL \<notin> set aid"
    using valid_aid_clean [OF a] a by (auto simp: clean_word_def is_valid_aid_iff)
  let ?c1 = "c\<lparr>rx := [''OK '' @ aid @ [LF]]\<rparr>" and ?c2 = "c\<lparr>rx := [aid @ [LF]]\<rparr>" and ?c3 = "c\<lparr>rx := [[LF]]\<rparr>"
  have r1: "read_field id 8 4 c = Inr (Inr ''ROA '', ?c1)"
    using read_field_segment [of c "''ROA ''" "''OK '' @ aid @ [LF]" "[]" 4 8] rx by simp
  have r2: "read_field id 4 3 ?c1 = Inr (Inr ''OK '', ?c2)"
    using read_field_segment [of ?c1 "''OK ''" "aid @ [LF]" "[]" 3 4] by simp
  have r3: "read_field id 4 3 ?c2 = Inr (Inr aid, ?c3)"
    using read_field_segment [of ?c2 aid "[LF]" "[]" 3 4] w by simp
  have lf: "is_lf_in_stream ?c3 = (True, c\<lparr>rx := []\<rparr>)" using lf_segment [of ?c3] by simp
  have tok: "strtok [LF] aid = (Some aid, [])" using w(1) by (intro strtok_all) (auto simp: clean_word_def)
  show ?thesis
    unfolding open_reply_c_def r1 bind_ok_simps prod.case sum.case r2 r3 lf tok option.case
    using True a by (simp add: open_display_def)
next
  case False
  then have rx: "rx c = [''ROA '' @ out @ [LF]]" and out: "out \<in> {''NLG'', ''NOK''}" using assms by auto
  let ?c1 = "c\<lparr>rx := [out @ [LF]]\<rparr>" and ?c2 = "c\<lparr>rx := [[LF]]\<rparr>"
  have r1: "read_field id 8 4 c = Inr (Inr ''ROA '', ?c1)"
    using read_field_segment [of c "''ROA ''" "out @ [LF]" "[]" 4 8] rx by simp
  have len: "length out = 3" "NUL \<notin> set out" using out by auto
  have r2: "read_field id 4 3 ?c1 = Inr (Inr out, ?c2)"
    using read_field_segment [of ?c1 out "[LF]" "[]" 3 4] len by simp
  have lf: "is_lf_in_stream ?c2 = (True, c\<lparr>rx := []\<rparr>)" using lf_segment [of ?c2] by simp
  show ?thesis
    unfolding open_reply_c_def r1 bind_ok_simps prod.case sum.case r2 lf
    using out by (auto simp: open_display_def determine_open_response_error_def)
qed

lemma open_command:
  assumes c: "client_ok client" "logged_in client" and ok: "start_ok uid name fname (atoi sv) (atoi ta) now"
    and w: "is_valid_start_value sv" "clean_word sv" "is_valid_time_active ta" "clean_word ta"
    and files: "files fname = Some asset" "length asset \<le> 10000000" "\<not> unreadable io fname" "accepting (file_rcaps io)"
  shows "handle_open_c (io\<lparr>dial := Some (idle_conn\<lparr>rx := segs\<rparr>)\<rparr>) (name @ SP # fname @ SP # sv @ SP # ta) client files =
     bind_ok (bind_ok (open_reply_c (idle_conn\<lparr>rx := segs,
         tx := open_request (take 6 (c_uid client)) (take 8 (c_passwd client)) name (atoi sv) (atoi ta) fname (length asset)
           @ asset @ [LF]\<rparr>))
       (\<lambda>(r, c). Inr (r, c, files))) (\<lambda>(r, c, files). Inr (r, Some c, files))"
proof -
  note id = client_okD [OF c] and st = start_okD [OF ok]
  have v: "is_valid_name name" "is_valid_fname fname" using ok by (simp_all add: start_ok_def)
  have len: "length (take 6 (c_uid client)) = 6" "length (take 8 (c_passwd client)) = 8"
    using id(1,2) by (simp_all add: is_valid_uid_iff is_valid_passwd_iff)
  have "length name \<le> 10" "length fname \<le> 24" using v by (auto simp: validator_iffs)
  moreover have "length (fmt_d (atoi sv)) \<le> 6" "length (fmt_d (atoi ta)) \<le> 5" "length (fmt_d (int (length asset))) \<le> 8"
    using ok files(2) by (auto simp: start_ok_def intro!: fmt_d_length_le)
  moreover have tok: "strtok [SP] ta = (Some ta, [])"
    using w(4) by (intro strtok_all) (auto simp: clean_word_def)
  let ?req = "open_request (take 6 (c_uid client)) (take 8 (c_passwd client)) name (atoi sv) (atoi ta) fname (length asset)"
  have req: "?req = ''OPA '' @ fmt_prec 6 (c_uid client) @ '' '' @ fmt_prec 8 (c_passwd client) @ '' '' @ name @ '' ''
           @ fmt_d (atoi sv) @ '' '' @ fmt_d (atoi ta) @ '' '' @ fname @ '' '' @ fmt_d (int (length asset)) @ '' ''"
    by (simp add: open_request_def id)
  ultimately have short: "\<not> length ?req \<ge> 128" using len by (simp add: open_request_def)
  have size: "\<not> int (length asset) > MAX_FSIZE" using files(2) by (simp add: MAX_FSIZE_def)
  have snd: "send_tcp_message (in_array 128 ?req) (length ?req) (idle_conn\<lparr>rx := segs\<rparr>) = Inr (0, idle_conn\<lparr>rx := segs, tx := ?req\<rparr>)"
    using send_array [of "idle_conn\<lparr>rx := segs\<rparr>" 128 ?req] by (simp add: idle_conn_def)
  have asset: "as_send_asset_file asset (file_rcaps io) (int (length asset)) (idle_conn\<lparr>rx := segs, tx := ?req\<rparr>)
      = Inr (0, idle_conn\<lparr>rx := segs, tx := ?req @ asset @ [LF]\<rparr>)"
    using send_asset_all [of "idle_conn\<lparr>rx := segs, tx := ?req\<rparr>" "file_rcaps io" 0 asset] files(4)
    by (simp add: as_send_asset_file_def idle_conn_def)
  have "open_exchange_c (io\<lparr>dial := Some (idle_conn\<lparr>rx := segs\<rparr>)\<rparr>) ?req asset (idle_conn\<lparr>rx := segs\<rparr>)
      = open_reply_c (idle_conn\<lparr>rx := segs, tx := ?req @ asset @ [LF]\<rparr>)"
    unfolding open_exchange_c_def if_not_P [OF short] by (simp add: snd asset)
  note exch = this
  have files1: "files fname = Some asset" "unreadable (io\<lparr>dial := x\<rparr>) fname \<longleftrightarrow> False" for x using files(1,3) by simp_all
  show ?thesis
    unfolding handle_open_c_def Let_def open_tcp_connection_to_server_def strtok_word [OF st(2)] strtok_word [OF st(3)]
      strtok_word [OF w(2)] tok option.case prod.case files(1) req [symmetric]
    using c(2) v w(1,3) files1(2) size by (simp add: exch) (simp add: bind_ok_def split: sum.split)
qed

text \<open>A new auction of the abstract house.\<close>

definition new_auction :: "string \<Rightarrow> int \<Rightarrow> int \<Rightarrow> auction" where
  "new_auction uid sv due = \<lparr>owner = uid, start_value = sv, deadline = due, ended = False, bids = {}\<rparr>"

lemma client_open_step:
  fixes e :: env
  assumes d: "sound d" and c: "client_ok client" "logged_in client"
    and ok: "start_ok (take 6 (c_uid client)) name fname (atoi sv) (atoi ta) (clock e)"
    and w: "is_valid_start_value sv" "clean_word sv" "is_valid_time_active ta" "clean_word ta"
    and files: "files fname = Some asset" "\<not> unreadable io fname" "accepting (file_rcaps io)"
    and lim: "atoi sv \<noteq> 999999" "clock e + atoi ta < 2 ^ 31" "asset \<noteq> []" "length asset \<le> 10000000" and disk: "wcaps e = []"
  defines "uid \<equiv> take 6 (c_uid client)" and "h \<equiv> auction_view d"
  defines "out \<equiv> open_outcome (user_view d) h uid (take 8 (c_passwd client))"
  shows "\<exists>d'. tcp_exchange e (\<lambda>io. handle_open_c io (name @ SP # fname @ SP # sv @ SP # ta) client files) io d
       = Inr (open_display (free_aid h) out, files, d')
     \<and> sound d' \<and> user_view d' = user_view d
     \<and> auction_view d' = (if out = ''OK'' then h(free_aid h \<mapsto> new_auction uid (atoi sv) (clock e + atoi ta)) else h)
     \<and> (out = ''OK'' \<longrightarrow> fs_get (fs d') (asset_path (free_aid h) fname) = Some (File asset)
          \<and> start_of (fs d') (free_aid h) uid name fname (atoi sv) (atoi ta) (clock e))"
proof -
  note id = client_okD [OF c]
  let ?pw = "take 8 (c_passwd client)"
  let ?req = "open_request uid ?pw name (atoi sv) (atoi ta) fname (length asset) @ asset @ [LF]"
  let ?c = "idle_conn\<lparr>rx := [?req]\<rparr>"
  have aid: "free_aid h = next_aid d" using card_house [OF d] by (simp add: free_aid_def next_aid_def h_def)
  have cnt: "auc_count d < 999 \<longleftrightarrow> \<not> card (dom h) \<ge> 999" using card_house [OF d] by (auto simp: h_def)
  have rx: "rx ?c = (open_request uid ?pw name (atoi sv) (atoi ta) fname (length asset) @ asset @ [LF]) # []" "asset @ [LF] \<noteq> []"
    "(asset @ [LF]) @ concat [] = asset @ [LF]" "tx_caps ?c = []"
    by (simp_all add: idle_conn_def)
  obtain s d' where serve: "serve_tcp_connection e ?c d = Inr (0, s, d')" and d': "sound d'" "user_view d' = user_view d"
    and eff: "if user_view d uid = Some (?pw, True) then
          if auc_count d < 999 then tx s = tx ?c @ ''ROA OK '' @ next_aid d @ [LF]
            \<and> auction_view d' = (auction_view d)(next_aid d \<mapsto>
                \<lparr>owner = uid, start_value = atoi sv, deadline = clock e + atoi ta, ended = False, bids = {}\<rparr>)
            \<and> fs_get (fs d') (asset_path (next_aid d) fname) = Some (File asset)
            \<and> start_of (fs d') (next_aid d) uid name fname (atoi sv) (atoi ta) (clock e)
          else tx s = tx ?c @ ''ROA NOK'' @ [LF] \<and> d' = d
        else tx s = tx ?c @ ''ROA NLG'' @ [LF] \<and> d' = d"
    using open_round [OF d id(1,2) ok lim rx [unfolded uid_def] disk] unfolding uid_def by blast
  have valid: "auc_count d < 999 \<Longrightarrow> is_valid_aid (next_aid d)" using d next_aid(1) by (simp add: sound_def)
  have tx: "tx ?c = []" by (simp add: idle_conn_def)
  let ?reply = "\<lambda>c. bind_ok (open_reply_c c) (\<lambda>(r, c). Inr (r, c, files))"
  have "tcp_exchange e (\<lambda>io. handle_open_c io (name @ SP # fname @ SP # sv @ SP # ta) client files) io d
      = Inr (open_display (free_aid h) out, files, d')"
  proof (rule tcp_exchange_served [where reply = ?reply and request = ?req])
    show "\<exists>r c' files'. ?reply c = Inr (r, c', files') \<and> tx c' = tx c" if "rx c = []" "rx_end c = RxClosed" for c
      using closed_reply(3) [OF that] by auto
    have "out = ''OK'' \<and> tx s = ''ROA OK '' @ next_aid d @ [LF] \<and> is_valid_aid (next_aid d)
        \<or> out \<in> {''NLG'', ''NOK''} \<and> tx s = ''ROA '' @ out @ [LF]"
      using eff cnt tx valid by (auto simp: out_def open_outcome_def split: if_splits)
    then show "?reply (idle_conn\<lparr>rx := [tx s], tx := ?req\<rparr>)
        = Inr (open_display (free_aid h) out, idle_conn\<lparr>rx := [], tx := ?req\<rparr>, files)"
      using open_reply_shown [of out "idle_conn\<lparr>rx := [tx s], tx := ?req\<rparr>" "next_aid d"] by (simp add: aid)
  qed (use open_command [OF c ok w, of files asset io, OF files(1) lim(4) files(2,3)] serve in \<open>simp_all add: uid_def\<close>)
  moreover have "auction_view d' = (if out = ''OK'' then h(free_aid h \<mapsto> new_auction uid (atoi sv) (clock e + atoi ta)) else h)"
    "out = ''OK'' \<longrightarrow> fs_get (fs d') (asset_path (free_aid h) fname) = Some (File asset)
          \<and> start_of (fs d') (free_aid h) uid name fname (atoi sv) (atoi ta) (clock e)"
    using eff cnt by (auto simp: out_def open_outcome_def aid [unfolded h_def] new_auction_def h_def split: if_splits)
  ultimately show ?thesis using d' by blast
qed

end
