(* ===== verification/ClientMarket.thy ===== *)
theory ClientMarket
  imports ClientExchanges
begin

text \<open>
  Several clients and the server as one system: sessions of account, \<open>open\<close>, \<open>close\<close> and \<open>bid\<close> commands
  typed at any of the clients refine an abstract market of accounts and auctions.
\<close>

section \<open>Account commands leave the auctions alone\<close>

definition keeps_view :: "db \<Rightarrow> udp_result \<Rightarrow> bool" where
  "keeps_view d res \<longleftrightarrow> (case res of Inl _ \<Rightarrow> True | Inr (_, _, _, d') \<Rightarrow> auction_view d' = auction_view d)"

lemma keeps_view_simps [simp]:
  "keeps_view d (udp_fail err d') \<longleftrightarrow> auction_view d' = auction_view d"
  "keeps_view d (udp_reply msg d') \<longleftrightarrow> auction_view d' = auction_view d"
  by (simp_all add: keeps_view_def udp_fail_def udp_reply_def)

lemma account_op_views:
  assumes "is_valid_uid u"
  shows "log_in_user u d = (rc, d') \<Longrightarrow> auction_view d' = auction_view d"
    "log_out_user u d = (rc, d') \<Longrightarrow> auction_view d' = auction_view d"
    "register_user u pw d = (rc, d') \<Longrightarrow> auction_view d' = auction_view d"
    "unregister_user u d = (rc, d') \<Longrightarrow> auction_view d' = auction_view d"
  using account_ops_view [OF assms] by (metis snd_conv)+

lemma account_handlers_keep_view:
  "keeps_view d (handle_login input d)" "keeps_view d (handle_logout input d)" "keeps_view d (handle_unregister input d)"
  unfolding handle_login_def handle_logout_def handle_unregister_def
  by (auto simp: account_op_views split: option.split prod.split)

lemma account_round_view:
  assumes d: "sound d" and v: "is_valid_uid u" "is_valid_passwd pw" and r: "udp_round now (account_request k u pw) d = Inr (rep, d')"
  shows "sound d' \<and> auction_view d' = auction_view d"
proof -
  let ?x = "u @ '' '' @ pw"
  have x: "length ?x \<le> 15" "NUL \<notin> set ?x"
    using valid_uid_clean [OF v(1)] valid_passwd_clean [OF v(2)] v by (auto simp: is_valid_uid_iff is_valid_passwd_iff)
  note handler = udp_round_handler [OF x, simplified append_assoc]
  note inv = sound_users_inv [OF d]
  have "\<not> malformed_show_record (account_request k u pw)"
    by (cases k) (simp_all add: account_request_def malformed_show_record_def cstr_def)
  then have "sound d'" using udp_round_step [OF d, of "account_request k u pw" now] r by (auto simp: step_ok_def)
  moreover have "auction_view d' = auction_view d"
  proof (cases k)
    case LIN
    obtain msg d1 where h: "handle_login (u @ '' '' @ pw @ [LF]) d = udp_reply msg d1" using handle_login_spec [OF inv v] by blast
    then have "udp_round now (account_request LIN u pw) d = Inr (msg, d1)"
      using handler [of "''LIN ''" H_login] by (simp add: udp_command_table_def run_udp_handler_def account_request_def)
    then show ?thesis using r LIN h account_handlers_keep_view(1) [of d "u @ '' '' @ pw @ [LF]"] by simp
  next
    case LOU
    obtain msg d1 where h: "handle_logout (u @ '' '' @ pw @ [LF]) d = udp_reply msg d1" using handle_logout_spec [OF inv v] by blast
    then have "udp_round now (account_request LOU u pw) d = Inr (msg, d1)"
      using handler [of "''LOU ''" H_logout] by (simp add: udp_command_table_def run_udp_handler_def account_request_def)
    then show ?thesis using r LOU h account_handlers_keep_view(2) [of d "u @ '' '' @ pw @ [LF]"] by simp
  next
    case UNR
    obtain msg d1 where h: "handle_unregister (u @ '' '' @ pw @ [LF]) d = udp_reply msg d1"
      using handle_unregister_spec [OF inv v] by blast
    then have "udp_round now (account_request UNR u pw) d = Inr (msg, d1)"
      using handler [of "''UNR ''" H_unregister] by (simp add: udp_command_table_def run_udp_handler_def account_request_def)
    then show ?thesis using r UNR h account_handlers_keep_view(3) [of d "u @ '' '' @ pw @ [LF]"] by simp
  qed
  ultimately show ?thesis by blast
qed

text \<open>What an account command sends: nothing, or one request with valid fields.\<close>

lemma user_cmd_sent:
  assumes "run_user_cmd l cmd c = (r, c', sent)" "client_ok c" "user_cmd_ok cmd"
  shows "sent = [] \<or> (\<exists>k u pw. sent = [account_request k u pw] \<and> is_valid_uid u \<and> is_valid_passwd pw)"
proof (cases cmd)
  case (Login u pw)
  then have v: "is_valid_uid u" "is_valid_passwd pw" using assms(3) by simp_all
  obtain x s where x: "udp_exchange (account_request LIN u pw) 31 l = (x, s)" by (metis surj_pair)
  then have s: "s = [] \<or> s = [account_request LIN u pw]" by (rule udp_exchange_sent)
  have "sent = [] \<or> sent = s"
    using assms(1) Login v x
    by (auto simp: run_user_cmd_def handle_login_c_def command_tokens Let_def account_request_def
      split: if_splits sum.splits)
  then show ?thesis using s v by blast
next
  case Logout
  show ?thesis
  proof (cases "logged_in c")
    case True
    note id = client_okD [OF assms(2) True]
    let ?q = "account_request LOU (take 6 (c_uid c)) (take 8 (c_passwd c))"
    obtain x s where x: "udp_exchange ?q 31 l = (x, s)" by (metis surj_pair)
    then have s: "s = [] \<or> s = [?q]" by (rule udp_exchange_sent)
    have "sent = s" using assms(1) Logout x True
      by (auto simp: run_user_cmd_def handle_logout_c_def account_request_def id split: if_splits sum.splits)
    then show ?thesis using s id by blast
  qed (use assms(1) Logout in \<open>simp add: run_user_cmd_def handle_logout_c_def\<close>)
next
  case Unregister
  show ?thesis
  proof (cases "logged_in c")
    case True
    note id = client_okD [OF assms(2) True]
    let ?q = "account_request UNR (take 6 (c_uid c)) (take 8 (c_passwd c))"
    obtain x s where x: "udp_exchange ?q 31 l = (x, s)" by (metis surj_pair)
    then have s: "s = [] \<or> s = [?q]" by (rule udp_exchange_sent)
    have "sent = s" using assms(1) Unregister x True
      by (auto simp: run_user_cmd_def handle_unregister_c_def account_request_def id split: if_splits sum.splits)
    then show ?thesis using s id by blast
  qed (use assms(1) Unregister in \<open>simp add: run_user_cmd_def handle_unregister_c_def\<close>)
qed

lemma account_step:
  assumes d: "sound d" and c: "client_ok c" and cmd: "user_cmd_ok cmd" and l: "linked now d l"
  shows "\<exists>c' sent d'. run_user_cmd l cmd c = (fst (user_cmd_spec cmd (who_view c) (user_view d)), c', sent)
     \<and> deliver now sent d = Inr d' \<and> client_ok c' \<and> sound d' \<and> auction_view d' = auction_view d
     \<and> (who_view c', user_view d') = snd (user_cmd_spec cmd (who_view c) (user_view d))"
proof -
  obtain c' sent d' where s: "run_user_cmd l cmd c = (fst (user_cmd_spec cmd (who_view c) (user_view d)), c', sent)"
    "deliver now sent d = Inr d'" "client_ok c'" "(who_view c', user_view d') = snd (user_cmd_spec cmd (who_view c) (user_view d))"
    using user_cmd_step [OF l sound_users_inv [OF d] c cmd] by blast
  have "sound d' \<and> auction_view d' = auction_view d"
  proof (cases "sent = []")
    case True
    then show ?thesis using s(2) d by simp
  next
    case False
    then obtain k u pw where q: "sent = [account_request k u pw]" "is_valid_uid u" "is_valid_passwd pw"
      using user_cmd_sent [OF s(1) c cmd] by blast
    then obtain rep where "udp_round now (account_request k u pw) d = Inr (rep, d')"
      using s(2) by (auto simp: bind_ok_Inr_iff)
    then show ?thesis by (rule account_round_view [OF d q(2,3)])
  qed
  then show ?thesis using s by blast
qed

section \<open>Sessions of several clients\<close>

datatype market_cmd =
    Account user_cmd
  | Place_bid string string
  | Close_auction string
  | Open_auction string string string string

text \<open>
  One command of one client, typed at the time and served in the environment \<open>e\<close>. \<open>files\<close> is the working
  directory of the client, \<open>io\<close> how its system answers.
\<close>

definition market_step :: "client_io \<Rightarrow> disk \<Rightarrow> env \<Rightarrow> market_cmd \<Rightarrow> client_state \<Rightarrow> db \<Rightarrow> (client_reply \<times> client_state \<times> db) outcome" where
  "market_step io files e cmd c d =
     (case cmd of
        Account k \<Rightarrow>
          (case run_user_cmd (link_to (clock e) d) k c of
             (r, c', sent) \<Rightarrow> bind_ok (deliver (clock e) sent d) (\<lambda>d'. Inr (r, c', d')))
      | Place_bid aid v \<Rightarrow>
          bind_ok (tcp_exchange e (\<lambda>io. handle_bid_c io (aid @ SP # v) c files) io d) (\<lambda>(r, _, d'). Inr (r, c, d'))
      | Close_auction aid \<Rightarrow>
          bind_ok (tcp_exchange e (\<lambda>io. handle_close_c io aid c files) io d) (\<lambda>(r, _, d'). Inr (r, c, d'))
      | Open_auction name fname sv ta \<Rightarrow>
          bind_ok (tcp_exchange e (\<lambda>io. handle_open_c io (name @ SP # fname @ SP # sv @ SP # ta) c files) io d)
            (\<lambda>(r, _, d'). Inr (r, c, d')))"

fun market_session :: "client_io \<Rightarrow> disk \<Rightarrow> (env \<times> nat \<times> market_cmd) list \<Rightarrow> (nat \<Rightarrow> client_state) \<Rightarrow> db
    \<Rightarrow> (client_reply list \<times> (nat \<Rightarrow> client_state) \<times> db) outcome" where
  "market_session io files [] cs d = Inr ([], cs, d)"
| "market_session io files ((e, i, cmd) # cmds) cs d =
     bind_ok (market_step io files e cmd (cs i) d) (\<lambda>(r, c', d1).
     bind_ok (market_session io files cmds (cs(i := c')) d1) (\<lambda>(rs, cs', d2). Inr (r # rs, cs', d2)))"

text \<open>The market: who is logged in at each client, the accounts, the auctions.\<close>

definition market_step_spec :: "int \<Rightarrow> market_cmd \<Rightarrow> who \<Rightarrow> accounts \<Rightarrow> house \<Rightarrow> client_reply \<times> who \<times> accounts \<times> house" where
  "market_step_spec now cmd w a h =
     (case (cmd, w) of
        (Account k, _) \<Rightarrow> (case user_cmd_spec k w a of (r, w', a') \<Rightarrow> (r, w', a', h))
      | (_, None) \<Rightarrow> (Code ERR_NOT_LOGGED_IN, w, a, h)
      | (Place_bid aid v, Some (u, pw)) \<Rightarrow>
          let h1 = expire now h; out = bid_outcome a h1 u pw aid (atoi v)
          in (bid_display aid v out, w, a,
              if out = ''ACC'' then change aid (\<lambda>x. x\<lparr>bids := insert (atoi v) (bids x)\<rparr>) h1 else h1)
      | (Close_auction aid, Some (u, pw)) \<Rightarrow>
          let h1 = expire now h; out = close_outcome a h1 u pw aid
          in (close_display out, w, a, if out = ''OK'' then change aid (\<lambda>x. x\<lparr>ended := True\<rparr>) h1 else h1)
      | (Open_auction name fname sv ta, Some (u, pw)) \<Rightarrow>
          let out = open_outcome a h u pw
          in (open_display (free_aid h) out, w, a,
              if out = ''OK'' then h(free_aid h \<mapsto> new_auction u (atoi sv) (now + atoi ta)) else h))"

fun market_spec :: "(env \<times> nat \<times> market_cmd) list \<Rightarrow> (nat \<Rightarrow> who) \<Rightarrow> accounts \<Rightarrow> house
    \<Rightarrow> client_reply list \<times> (nat \<Rightarrow> who) \<times> accounts \<times> house" where
  "market_spec [] ws a h = ([], ws, a, h)"
| "market_spec ((e, i, cmd) # cmds) ws a h =
     (case market_step_spec (clock e) cmd (ws i) a h of (r, w', a1, h1) \<Rightarrow>
        (case market_spec cmds (ws(i := w')) a1 h1 of (rs, ws', a2, h2) \<Rightarrow> (r # rs, ws', a2, h2)))"

text \<open>
  Well-formed commands. An \<open>open\<close> names a readable file of the working directory, not empty and at most ten
  million bytes; the server keeps its disk, and its clock stays where an \<open>int\<close> can hold the deadline.
\<close>

definition market_cmd_ok :: "client_io \<Rightarrow> disk \<Rightarrow> env \<Rightarrow> market_cmd \<Rightarrow> bool" where
  "market_cmd_ok io files e cmd \<longleftrightarrow> time_ok (clock e) \<and>
     (case cmd of
        Account k \<Rightarrow> user_cmd_ok k
      | Place_bid aid v \<Rightarrow> is_valid_aid aid \<and> is_valid_start_value v \<and> v \<noteq> []
      | Close_auction aid \<Rightarrow> is_valid_aid aid
      | Open_auction name fname sv ta \<Rightarrow>
          is_valid_name name \<and> name \<noteq> [] \<and> is_valid_fname fname \<and> clean_word fname
          \<and> is_valid_start_value sv \<and> clean_word sv \<and> is_valid_time_active ta \<and> clean_word ta
          \<and> atoi sv \<noteq> 999999 \<and> 0 < clock e \<and> clock e + atoi ta < 2 ^ 31
          \<and> (case files fname of None \<Rightarrow> False | Some asset \<Rightarrow> asset \<noteq> [] \<and> length asset \<le> 10000000)
          \<and> \<not> unreadable io fname \<and> accepting (file_rcaps io) \<and> wcaps e = [])"

lemma not_logged_in_commands:
  "\<not> logged_in c \<Longrightarrow> handle_bid_c io input c files = Inr (Code ERR_NOT_LOGGED_IN, None, files)"
  "\<not> logged_in c \<Longrightarrow> handle_close_c io input c files = Inr (Code ERR_NOT_LOGGED_IN, None, files)"
  "\<not> logged_in c \<Longrightarrow> handle_open_c io input c files = Inr (Code ERR_NOT_LOGGED_IN, None, files)"
  by (simp_all add: handle_bid_c_def handle_close_c_def handle_open_c_def)

lemma market_step_refines:
  assumes d: "sound d" and c: "client_ok c" and ok: "market_cmd_ok io files e cmd"
  shows "\<exists>r c' d'. market_step io files e cmd c d = Inr (r, c', d')
     \<and> (r, who_view c', user_view d', auction_view d') = market_step_spec (clock e) cmd (who_view c) (user_view d) (auction_view d)
     \<and> sound d' \<and> client_ok c'"
proof (cases "\<exists>k. cmd = Account k")
  case True
  then obtain k where k: "cmd = Account k" by blast
  obtain c' sent d' where s: "run_user_cmd (link_to (clock e) d) k c = (fst (user_cmd_spec k (who_view c) (user_view d)), c', sent)"
    "deliver (clock e) sent d = Inr d'" "client_ok c'" "sound d'" "auction_view d' = auction_view d"
    "(who_view c', user_view d') = snd (user_cmd_spec k (who_view c) (user_view d))"
    using account_step [OF d c _ linked_link_to, of k "clock e"] ok k by (auto simp: market_cmd_ok_def)
  then show ?thesis using k by (auto simp: market_step_def market_step_spec_def split: prod.splits)
next
  case tcp: False
  show ?thesis
  proof (cases "logged_in c")
    case False
    then show ?thesis using tcp d c
      by (cases cmd) (auto simp: market_step_def market_step_spec_def tcp_exchange_def not_logged_in_commands who_view_def)
  next
    case True
    have w: "who_view c = Some (take 6 (c_uid c), take 8 (c_passwd c))" using True by (simp add: who_view_def)
    have now: "time_ok (clock e)" using ok by (simp add: market_cmd_ok_def)
    show ?thesis
    proof (cases cmd)
      case (Account k)
      then show ?thesis using tcp by blast
    next
      case (Place_bid aid v)
      then have "is_valid_aid aid" "is_valid_start_value v" "v \<noteq> []" using ok by (simp_all add: market_cmd_ok_def)
      from client_bid_step [OF d c True this now, of files io] show ?thesis
        using c by (auto simp: Place_bid market_step_def market_step_spec_def w Let_def)
    next
      case (Close_auction aid)
      then have "is_valid_aid aid" using ok by (simp add: market_cmd_ok_def)
      from client_close_step [OF d c True this now, of files io] show ?thesis
        using c by (auto simp: Close_auction market_step_def market_step_spec_def w Let_def)
    next
      case (Open_auction name fname sv ta)
      note o = ok [unfolded market_cmd_ok_def Open_auction market_cmd.case]
      obtain asset where asset: "files fname = Some asset" "asset \<noteq> []" "length asset \<le> 10000000"
        using o by (auto split: option.splits)
      have st: "start_ok (take 6 (c_uid c)) name fname (atoi sv) (atoi ta) (clock e)"
        using o client_okD(1) [OF c True] valid_start_value_atoi [of sv] valid_time_active_atoi [of ta]
        by (auto simp: start_ok_def time_ok_def)
      have "is_valid_start_value sv" "clean_word sv" "is_valid_time_active ta" "clean_word ta"
        "\<not> unreadable io fname" "accepting (file_rcaps io)" "atoi sv \<noteq> 999999" "clock e + atoi ta < 2 ^ 31" "wcaps e = []"
        using o by auto
      from client_open_step [OF d c True st this(1-4), where files = files and asset = asset and io = io, OF asset(1) this(5-8) asset(2,3) this(9)] show ?thesis
        using c by (auto simp: Open_auction market_step_def market_step_spec_def w Let_def)
    qed
  qed
qed

text \<open>
  C3. Any number of clients and the server together implement one abstract market, for well-formed commands
  typed one after the other. Whatever \<open>login\<close>, \<open>logout\<close>, \<open>unregister\<close>, \<open>open\<close>, \<open>close\<close> and \<open>bid\<close> commands with valid
  arguments are typed at the clients, each client displays what the market prescribes for its user, and the
  accounts, the auctions with their deadlines and bids, and the logins at the clients end as the market says.
  The limits (\<open>market_cmd_ok\<close>): \<open>open\<close> is given a start value other than 999999 and a readable, non-empty file of at
  most 10 MB, its auction ends before 2038 and the server's disk writes whole blocks; no message is lost, each
  TCP request and reply arrives in one segment, and a command is finished before the next is typed. The market
  (\<open>market_step_spec\<close>) is what the code of this repository does: it uses \<open>bid_outcome\<close> and \<open>close_outcome\<close>, which
  differ from \<open>statement.pdf\<close> as proved with them in \<open>TcpExchanges\<close> (for one, a \<open>close\<close> by a user whom the server does
  not know or with a wrong password is told that he is not logged in, where the statement demands \<open>NOK\<close>).
\<close>

theorem market_session_refines:
  assumes "sound d" "\<And>i. client_ok (cs i)" "\<forall>(e, i, cmd) \<in> set cmds. market_cmd_ok io files e cmd"
  shows "\<exists>rs cs' d'. market_session io files cmds cs d = Inr (rs, cs', d')
     \<and> (rs, who_view \<circ> cs', user_view d', auction_view d') = market_spec cmds (who_view \<circ> cs) (user_view d) (auction_view d)
     \<and> sound d' \<and> (\<forall>i. client_ok (cs' i))"
  using assms
proof (induction cmds arbitrary: cs d)
  case Nil
  then show ?case by simp
next
  case (Cons x cmds)
  obtain e i cmd where x: "x = (e, i, cmd)" by (cases x)
  obtain r c' d1 where s: "market_step io files e cmd (cs i) d = Inr (r, c', d1)"
    "(r, who_view c', user_view d1, auction_view d1)
       = market_step_spec (clock e) cmd (who_view (cs i)) (user_view d) (auction_view d)"
    "sound d1" "client_ok c'"
    using market_step_refines [OF Cons.prems(1,2), of io files e cmd i] Cons.prems(3) x by auto
  have upd: "who_view \<circ> cs(i := c') = (who_view \<circ> cs)(i := who_view c')" by auto
  have "client_ok ((cs(i := c')) j)" for j using Cons.prems(2) s(4) by simp
  moreover have "\<forall>(e, i, cmd) \<in> set cmds. market_cmd_ok io files e cmd" using Cons.prems(3) by simp
  ultimately obtain rs cs' d' where ih: "market_session io files cmds (cs(i := c')) d1 = Inr (rs, cs', d')"
    "(rs, who_view \<circ> cs', user_view d', auction_view d')
       = market_spec cmds ((who_view \<circ> cs)(i := who_view c')) (user_view d1) (auction_view d1)"
    "sound d'" "\<forall>i. client_ok (cs' i)"
    using Cons.IH [of d1 "cs(i := c')", OF s(3), unfolded upd] by blast
  have "market_spec (x # cmds) (who_view \<circ> cs) (user_view d) (auction_view d)
      = (r # rs, who_view \<circ> cs', user_view d', auction_view d')"
    by (simp only: x market_spec.simps comp_apply s(2) [symmetric] prod.case ih(2) [symmetric])
  moreover have "market_session io files (x # cmds) cs d = Inr (r # rs, cs', d')" using s(1) ih(1) x by simp
  ultimately show ?case using ih(3,4) by metis
qed

text \<open>A seller and a buyer, from the empty database.\<close>

definition seller_io :: client_io where
  "seller_io = \<lparr>dial = None, unreadable = (\<lambda>_. False), uncreatable = (\<lambda>_. False), file_rcaps = [], file_wcaps = [],
     recv_garbage = (\<lambda>_. NUL)\<rparr>"

definition market_example :: "(env \<times> nat \<times> market_cmd) list" where
  "market_example = map (\<lambda>(t, i, cmd). (example_env\<lparr>clock := t\<rparr>, i, cmd))
     [(1700000000, 0, Account (Login ''123456'' ''password'')),
      (1700000001, 0, Open_auction ''lamp'' ''lamp.jpg'' ''10'' ''3600''),
      (1700000002, 1, Place_bid ''001'' ''20''),
      (1700000003, 1, Account (Login ''654321'' ''PASSWORD'')),
      (1700000004, 1, Place_bid ''001'' ''20''),
      (1700000005, 0, Place_bid ''001'' ''30''),
      (1700000006, 1, Close_auction ''001''),
      (1700000007, 0, Close_auction ''001''),
      (1700000008, 1, Place_bid ''001'' ''40'')]"

theorem market_session_refines_witness:
  "\<exists>cs' d'. market_session seller_io [''lamp.jpg'' \<mapsto> ''data''] market_example (\<lambda>_. fresh_client) empty_db
     = Inr ([Response (''New user registered'' @ [LF]), Response (''Asset 001 successfully started by the AS'' @ [LF]),
         Code ERR_NOT_LOGGED_IN, Response (''New user registered'' @ [LF]),
         Response (''Sucessfully bidded 20 on auction 001'' @ [LF]),
         Response (''User cannot bid on an auction hosted by himself'' @ [LF]),
         Response (''Auction is not owned by the user'' @ [LF]), Response (''Auction sucessfully closed by the AS!'' @ [LF]),
         Response (''The auction is not active'' @ [LF])], cs', d')
     \<and> auction_view d' ''001'' = Some \<lparr>owner = ''123456'', start_value = 10, deadline = 1700003601, ended = True, bids = {20}\<rparr>"
proof -
  let ?files = "[''lamp.jpg'' \<mapsto> ''data''] :: disk"
  have num: "atoi ''10'' = 10" "atoi ''20'' = 20" "atoi ''30'' = 30" "atoi ''40'' = 40" "atoi ''3600'' = 3600" by code_simp+
  have aid: "fmt_0d 3 1 = ''001''" by code_simp
  note valid = is_valid_uid_iff is_valid_passwd_iff is_valid_aid_iff is_valid_start_value_iff is_valid_time_active_iff
    is_valid_name_iff is_valid_fname_iff is_valid_name_char_def is_valid_path_char_def isdigit_def isalnum_def isalpha_def
  have ok: "\<forall>(e, i, cmd) \<in> set market_example. market_cmd_ok seller_io ?files e cmd"
    by (simp add: market_example_def market_cmd_ok_def time_ok_def valid clean_word_def num seller_io_def example_env_def accepting_def)
  have "\<not> exists_auction a empty_db" for a by (simp add: exists_auction_def empty_db_def Let_def)
  then have start: "auction_view empty_db = Map.empty" "user_view empty_db = Map.empty" "who_view \<circ> (\<lambda>_. fresh_client) = (\<lambda>_. None)"
    using auction_view_None [of _ empty_db] empty_db_inv(2) by (auto simp: who_view_def)
  have spec: "market_spec market_example (who_view \<circ> (\<lambda>_. fresh_client)) (user_view empty_db) (auction_view empty_db)
     = ([Response (''New user registered'' @ [LF]), Response (''Asset 001 successfully started by the AS'' @ [LF]),
         Code ERR_NOT_LOGGED_IN, Response (''New user registered'' @ [LF]),
         Response (''Sucessfully bidded 20 on auction 001'' @ [LF]),
         Response (''User cannot bid on an auction hosted by himself'' @ [LF]),
         Response (''Auction is not owned by the user'' @ [LF]), Response (''Auction sucessfully closed by the AS!'' @ [LF]),
         Response (''The auction is not active'' @ [LF])],
        (\<lambda>_. None)(0 \<mapsto> (''123456'', ''password''), 1 \<mapsto> (''654321'', ''PASSWORD'')),
        [''123456'' \<mapsto> (''password'', True), ''654321'' \<mapsto> (''PASSWORD'', True)],
        [''001'' \<mapsto> \<lparr>owner = ''123456'', start_value = 10, deadline = 1700003601, ended = True, bids = {20}\<rparr>])"
    unfolding start
    by (simp add: market_example_def market_step_spec_def user_cmd_spec_def bid_outcome_def close_outcome_def open_outcome_def
      open_display_def bid_display_def close_display_def free_aid_def new_auction_def expire_def change_def num aid) (rule ext, simp)
  from market_session_refines [OF empty_db_sound fresh_client(1) ok] show ?thesis
    unfolding spec by auto
qed

end
