(* ===== verification/ClientDelivery.thy ===== *)
theory ClientDelivery
  imports ClientMarket ServerRun
begin

text \<open>
  The way of an asset: from the disk of the seller through \<open>open\<close> to the server, through any run of the
  server, and through \<open>showasset\<close> to the disk of a buyer.
\<close>

section \<open>The arguments of the reply\<close>

lemma asset_arg:
  assumes "rx c = (w @ SP # rest) # segs" "SP \<notin> set w" "NUL \<notin> set (buf @ w)" "length args < 2"
    "length (buf @ w) \<le> get_show_asset_arg_len (length args)" "rest \<noteq> []"
  shows "asset_args_loop args buf c = asset_args_loop (args @ [buf @ w]) [] (c\<lparr>rx := rest # segs\<rparr>)"
  using assms
proof (induction w arbitrary: buf c)
  case Nil
  have r: "recv 1 c = (Inr [SP], c\<lparr>rx := rest # segs\<rparr>)" using Nil.prems(1,6) by (simp add: recv_def)
  have "cstr buf = buf" using Nil.prems(3) by (intro cstr_no_nul) simp
  then show ?case using Nil.prems r [unfolded One_nat_def] by (subst asset_args_loop.simps) simp
next
  case (Cons b w)
  have r: "recv 1 c = (Inr [b], c\<lparr>rx := (w @ SP # rest) # segs\<rparr>)" using Cons.prems(1) by (simp add: recv_def)
  have "b \<noteq> SP" using Cons.prems(2) by auto
  then have "asset_args_loop args buf c = asset_args_loop args (buf @ [b]) (c\<lparr>rx := (w @ SP # rest) # segs\<rparr>)"
    using Cons.prems r [unfolded One_nat_def] by (subst asset_args_loop.simps) simp
  then show ?case using Cons.IH [of "c\<lparr>rx := (w @ SP # rest) # segs\<rparr>" "buf @ [b]"] Cons.prems by simp
qed

lemma asset_args_read:
  assumes f: "is_valid_fname fname" "clean_word fname" and n: "0 \<le> n" "n \<le> 10000000" and x: "x \<noteq> []"
    and c: "rx c = [fname @ SP # fmt_d n @ SP # x]"
  shows "asset_args_loop [] [] c = (Inr [fname, fmt_d n], c\<lparr>rx := [x]\<rparr>)"
proof -
  have s: "clean_word (fmt_d n)" by (rule clean_fmt_d_any)
  have l: "length fname \<le> 24" "length (fmt_d n) \<le> 8"
    using f(1) n by (auto simp: is_valid_fname_iff intro!: fmt_d_length_le)
  have "asset_args_loop [] [] c = asset_args_loop [fname, fmt_d n] [] (c\<lparr>rx := [x]\<rparr>)"
    using f(2) s l x by (simp add: asset_arg [OF c] asset_arg clean_word_def get_show_asset_arg_len_def constants)
  also have "\<dots> = (Inr [fname, fmt_d n], c\<lparr>rx := [x]\<rparr>)" by (subst asset_args_loop.simps) simp
  finally show ?thesis .
qed

lemma digit_path_char: "isdigit b \<Longrightarrow> is_valid_path_char b \<and> b \<noteq> CHR ''.''"
  by (auto simp: isdigit_def is_valid_path_char_def)

lemma size_field:
  assumes "0 \<le> n" "n \<le> 10000000"
  shows "is_valid_fname (fmt_d n)" "atoi (fmt_d n) = n"
proof -
  have d: "isdigit b" if "b \<in> set (fmt_d n)" for b using that assms(1) by (intro fmt_d_isdigit)
  have "length (fmt_d n) \<le> 8" using assms by (intro fmt_d_length_le) auto
  moreover have "hd (fmt_d n) \<in> set (fmt_d n)" by (intro hd_in_set fmt_d_nonempty)
  ultimately show "is_valid_fname (fmt_d n)"
    using d digit_path_char fmt_d_nonempty [of n] by (auto simp: is_valid_fname_iff)
  show "atoi (fmt_d n) = n" using assms by (intro atoi_fmt_d) auto
qed

section \<open>The download\<close>

definition retrieved :: "string \<Rightarrow> string \<Rightarrow> nat \<Rightarrow> client_reply" where
  "retrieved aid fname n = Response (''Successfully retrieved auction '' @ aid @ '' asset '' @ fname @ '' of size ''
     @ fmt_d (int n) @ [LF])"

lemma show_asset_reply_shown:
  assumes f: "is_valid_fname fname" "clean_word fname" and a: "is_valid_aid aid"
    and n: "length content \<le> 10000000" and io: "\<not> uncreatable io fname" "file_wcaps io = []"
    and c: "rx c = [''RSA OK '' @ fname @ '' '' @ fmt_d (int (length content)) @ '' '' @ content @ [LF]]"
  shows "\<exists>c'. show_asset_reply_c io aid c files = Inr (retrieved aid fname (length content), c', files(fname \<mapsto> content))"
proof -
  let ?n = "int (length content)"
  let ?rest = "fname @ SP # fmt_d ?n @ SP # content @ [LF]"
  let ?c1 = "c\<lparr>rx := [''OK '' @ ?rest]\<rparr>" and ?c2 = "c\<lparr>rx := [?rest]\<rparr>" and ?c3 = "c\<lparr>rx := [content @ [LF]]\<rparr>"
  note size = size_field [of ?n, simplified, OF n]
  have r1: "read_field err_bool 8 4 c = Inr (Inr ''RSA '', ?c1)"
    using read_field_segment [of c "''RSA ''" "''OK '' @ ?rest" "[]" 4 8] c by simp
  have r2: "read_field (\<lambda>_. 0) 4 3 ?c1 = Inr (Inr ''OK '', ?c2)"
    using read_field_segment [of ?c1 "''OK ''" ?rest "[]" 3 4] by simp
  have args: "asset_args_loop [] [] ?c2 = (Inr [fname, fmt_d ?n], ?c3)"
    using asset_args_read [OF f, of ?n "content @ [LF]" ?c2] n by simp
  obtain segs where "recv_asset_loop (recv_garbage io) 0 ?n [] [] ?c3 = Inr (0, content, ?c3\<lparr>rx := segs\<rparr>)"
    using recv_asset_ok [of ?c3 content 0 ?n "recv_garbage io" "[]"] by auto
  then have down: "as_recv_asset_file (recv_garbage io) (file_wcaps io) ?n ?c3 = Inr (0, content, ?c3\<lparr>rx := segs\<rparr>)"
    by (simp add: as_recv_asset_file_def io)
  have "download_c io aid fname ?n ?c3 files = Inr (retrieved aid fname (length content), ?c3\<lparr>rx := segs\<rparr>, files(fname \<mapsto> content))"
    unfolding download_c_def if_not_P [OF io(1)] down bind_ok_simps prod.case Let_def using a by (simp add: retrieved_def)
  then have "show_asset_reply_c io aid c files
      = Inr (retrieved aid fname (length content), ?c3\<lparr>rx := segs\<rparr>, files(fname \<mapsto> content))"
    unfolding show_asset_reply_c_def r1 bind_ok_simps prod.case sum.case r2 Let_def args using f size n by simp
  then show ?thesis by blast
qed

lemma show_asset_command:
  assumes a: "is_valid_aid aid"
  shows "handle_show_asset_c (io\<lparr>dial := Some (idle_conn\<lparr>rx := segs\<rparr>)\<rparr>) aid client files =
     bind_ok (show_asset_reply_c (io\<lparr>dial := Some (idle_conn\<lparr>rx := segs\<rparr>)\<rparr>) aid
       (idle_conn\<lparr>rx := segs, tx := ''SAS '' @ aid @ [LF]\<rparr>) files) (\<lambda>(r, c, files). Inr (r, Some c, files))"
proof -
  have "clean_word aid" using valid_aid_clean [OF a] a by (auto simp: clean_word_def is_valid_aid_iff)
  then have tok: "strtok [SP] aid = (Some aid, [])" by (intro strtok_all) (auto simp: clean_word_def is_valid_aid_iff)
  have snd: "send_str (''SAS '' @ aid @ [LF]) (idle_conn\<lparr>rx := segs\<rparr>) = Inr (0, idle_conn\<lparr>rx := segs, tx := ''SAS '' @ aid @ [LF]\<rparr>)"
    using send_request [of "idle_conn\<lparr>rx := segs\<rparr>" "''SAS '' @ aid @ [LF]"] by (simp add: idle_conn_def)
  show ?thesis
    unfolding handle_show_asset_c_def Let_def open_tcp_connection_to_server_def tok option.case prod.case
      fmt_prec_valid(3) [OF a]
    using a by (simp del: append_Cons append_Nil add: snd)
qed

section \<open>From disk to disk\<close>

lemma download_step:
  assumes d: "sound d" and a: "is_valid_aid aid" "exists_auction aid d" and st: "start_of (fs d) aid uid name fname sv ta t"
    and as: "fs_get (fs d) (asset_path aid fname) = Some (File content)" "length content \<le> 10000000"
    and r: "accepting (rcaps e)" and io: "\<not> uncreatable io fname" "file_wcaps io = []"
  shows "tcp_exchange e (\<lambda>io. handle_show_asset_c io aid client files) io d
     = Inr (retrieved aid fname (length content), files(fname \<mapsto> content), d)"
proof -
  let ?req = "''SAS '' @ aid @ [LF]"
  let ?c = "idle_conn\<lparr>rx := [?req]\<rparr>"
  have f: "is_valid_fname fname" "clean_word fname" using st by (auto simp: start_of_def start_ok_def)
  have c: "rx ?c = [?req]" "tx_caps ?c = []" "tx ?c = []" by (simp_all add: idle_conn_def)
  have small: "length content < 10 ^ 18" using as(2) by simp
  obtain s where s: "serve_tcp_connection e ?c d = Inr (0, s, d)"
    "tx s = ''RSA OK '' @ fname @ '' '' @ fmt_d (int (length content)) @ '' '' @ content @ [LF]"
    using show_asset_round [OF d a(1) c(1,2) r st as(1) small] a(2) c(3) by auto
  let ?reply = "\<lambda>c. show_asset_reply_c io aid c files"
  have dial: "show_asset_reply_c (io\<lparr>dial := x\<rparr>) aid = show_asset_reply_c io aid" for x
  proof -
    have "download_c (io\<lparr>dial := x\<rparr>) = download_c io" by (intro ext) (simp add: download_c_def)
    then show ?thesis by (intro ext) (simp only: show_asset_reply_c_def)
  qed
  obtain c' where shown: "?reply (idle_conn\<lparr>rx := [tx s], tx := ?req\<rparr>)
      = Inr (retrieved aid fname (length content), c', files(fname \<mapsto> content))"
    using show_asset_reply_shown [OF f a(1) as(2) io, of "idle_conn\<lparr>rx := [tx s], tx := ?req\<rparr>" files] s(2) by auto
  show ?thesis
  proof (rule tcp_exchange_served [where reply = ?reply and request = ?req])
    show "\<exists>r c' files'. ?reply c = Inr (r, c', files') \<and> tx c' = tx c" if "rx c = []" "rx_end c = RxClosed" for c
      by (rule closed_reply(4) [OF that])
  qed (use show_asset_command [OF a(1), where io = io, unfolded dial] s(1) shown in simp_all)
qed

text \<open>
  C4. An asset arrives as it was sent. When the client of a user who is logged in opens an auction with a
  file of his working directory and the server accepts it, then after every later run in which the server
  handles requests one after the other (any datagrams, connections and restarts \<open>within_limits\<close>),
  \<open>showasset\<close> at any client, logged in or not, stores a file with the same name and the same bytes in the
  directory of that client. Both transfers arrive in one segment, reads may be short but not fail, and the
  writes of the server and of the downloading client are complete: \<open>NetIO\<close> shows what a short one does.
\<close>

theorem asset_reaches_buyer:
  assumes d: "sound d" and c: "client_ok client" "logged_in client"
    and cmd: "market_cmd_ok io files e (Open_auction name fname sv ta)"
    and acc: "open_outcome (user_view d) (auction_view d) (take 6 (c_uid client)) (take 8 (c_passwd client)) = ''OK''"
    and buyer: "accepting (rcaps e')" "\<not> uncreatable io' fname" "file_wcaps io' = []"
  shows "\<exists>d1. tcp_exchange e (\<lambda>io. handle_open_c io (name @ SP # fname @ SP # sv @ SP # ta) client files) io d
       = Inr (open_display (free_aid (auction_view d)) ''OK'', files, d1)
     \<and> (\<forall>evs d2 client' files'. server_run evs d1 = Some d2 \<longrightarrow> (\<forall>ev \<in> set evs. within_limits ev) \<longrightarrow>
          tcp_exchange e' (\<lambda>io. handle_show_asset_c io (free_aid (auction_view d)) client' files') io' d2
            = Inr (retrieved (free_aid (auction_view d)) fname (length (the (files fname))), files'(fname := files fname), d2))"
proof -
  let ?aid = "free_aid (auction_view d)"
  note o = cmd [unfolded market_cmd_ok_def market_cmd.case]
  obtain asset where asset: "files fname = Some asset" "asset \<noteq> []" "length asset \<le> 10000000"
    using o by (auto split: option.splits)
  have st: "start_ok (take 6 (c_uid client)) name fname (atoi sv) (atoi ta) (clock e)"
    using o client_okD(1) [OF c] valid_start_value_atoi [of sv] valid_time_active_atoi [of ta] by (auto simp: start_ok_def time_ok_def)
  have "is_valid_start_value sv" "clean_word sv" "is_valid_time_active ta" "clean_word ta"
    "\<not> unreadable io fname" "accepting (file_rcaps io)" "atoi sv \<noteq> 999999" "clock e + atoi ta < 2 ^ 31" "wcaps e = []"
    using o by auto
  from client_open_step [OF d c st this(1-4), where files = files and asset = asset and io = io, OF asset(1) this(5-8) asset(2,3) this(9)]
  obtain d1 where d1: "tcp_exchange e (\<lambda>io. handle_open_c io (name @ SP # fname @ SP # sv @ SP # ta) client files) io d
       = Inr (open_display ?aid ''OK'', files, d1)" "sound d1"
    and new: "auction_view d1 ?aid \<noteq> None" "fs_get (fs d1) (asset_path ?aid fname) = Some (File asset)"
      "start_of (fs d1) ?aid (take 6 (c_uid client)) name fname (atoi sv) (atoi ta) (clock e)"
    unfolding acc by auto
  have "tcp_exchange e' (\<lambda>io. handle_show_asset_c io ?aid client' files') io' d2
        = Inr (retrieved ?aid fname (length asset), files'(fname \<mapsto> asset), d2)"
    if run: "server_run evs d1 = Some d2" "\<forall>ev \<in> set evs. within_limits ev" for evs d2 client' files'
  proof -
    have s: "sound d2" "evolves (auction_view d1) (auction_view d2)" "keeps_records d1 d2"
      using server_run_ok [OF run d1(2)] by (simp_all add: step_ok_def)
    have "auction_view d2 ?aid \<noteq> None" using s(2) new(1) unfolding evolves_def by (metis not_None_eq)
    then have "is_valid_aid ?aid \<and> exists_auction ?aid d2" using auction_view_None [of ?aid d2] by (rule contrapos_np)
    then have a: "is_valid_aid ?aid" "exists_auction ?aid d2" by simp_all
    have "start_of (fs d2) ?aid (take 6 (c_uid client)) name fname (atoi sv) (atoi ta) (clock e)"
      "fs_get (fs d2) (asset_path ?aid fname) = Some (File asset)"
      using s(3) new by (auto simp: keeps_records_def start_of_def)
    from download_step [OF s(1) a this asset(3) buyer] show ?thesis .
  qed
  then show ?thesis using d1(1) asset(1) by auto
qed

definition seller :: client_state where
  "seller = \<lparr>logged_in = True, c_uid = ''123456'' @ [NUL], c_passwd = ''password'' @ [NUL]\<rparr>"

theorem asset_reaches_buyer_witness:
  "\<exists>d1. tcp_exchange (example_env\<lparr>clock := 1700000000\<rparr>)
        (\<lambda>io. handle_open_c io (''lamp lamp.jpg 10 3600'') seller [''lamp.jpg'' \<mapsto> ''data'']) seller_io two_users
      = Inr (Response (''Asset 001 successfully started by the AS'' @ [LF]), [''lamp.jpg'' \<mapsto> ''data''], d1)
     \<and> tcp_exchange example_env (\<lambda>io. handle_show_asset_c io ''001'' fresh_client Map.empty) seller_io d1
      = Inr (Response (''Successfully retrieved auction 001 asset lamp.jpg of size 4'' @ [LF]), [''lamp.jpg'' \<mapsto> ''data''], d1)"
proof -
  let ?e = "example_env\<lparr>clock := 1700000000\<rparr>" and ?files = "[''lamp.jpg'' \<mapsto> ''data''] :: disk"
  have num: "atoi ''10'' = 10" "atoi ''3600'' = 3600" "fmt_0d 3 1 = ''001''" "fmt_d 4 = ''4''" by code_simp+
  have c: "client_ok seller" "logged_in seller" "take 6 (c_uid seller) = ''123456''" "take 8 (c_passwd seller) = ''password''"
    using example_fields(1,3) by (simp_all add: seller_def client_ok_def)
  have ok: "market_cmd_ok seller_io ?files ?e (Open_auction ''lamp'' ''lamp.jpg'' ''10'' ''3600'')"
    by (simp add: market_cmd_ok_def time_ok_def clean_word_def num seller_io_def example_env_def accepting_def is_valid_start_value_iff
      is_valid_time_active_iff is_valid_name_iff is_valid_fname_iff is_valid_name_char_def is_valid_path_char_def isdigit_def isalnum_def isalpha_def)
  have card: "card (dom (auction_view two_users)) = 0" using card_house [OF two_users(1)] two_users(2) by simp
  then have aid: "free_aid (auction_view two_users) = ''001''" by (simp add: free_aid_def num)
  have acc: "open_outcome (user_view two_users) (auction_view two_users) (take 6 (c_uid seller)) (take 8 (c_passwd seller)) = ''OK''"
    using two_users(3) card by (simp add: open_outcome_def c)
  have io: "accepting (rcaps example_env)" "\<not> uncreatable seller_io ''lamp.jpg''" "file_wcaps seller_io = []"
    by (simp_all add: example_env_def seller_io_def accepting_def)
  obtain d1 where d1: "tcp_exchange ?e (\<lambda>io. handle_open_c io (''lamp'' @ SP # ''lamp.jpg'' @ SP # ''10'' @ SP # ''3600'') seller ?files)
        seller_io two_users = Inr (open_display ''001'' ''OK'', ?files, d1)"
    and buy: "\<And>evs d2 client' files'. server_run evs d1 = Some d2 \<Longrightarrow> \<forall>ev \<in> set evs. within_limits ev \<Longrightarrow>
       tcp_exchange example_env (\<lambda>io. handle_show_asset_c io ''001'' client' files') seller_io d2
         = Inr (retrieved ''001'' ''lamp.jpg'' (length (the (?files ''lamp.jpg''))), files'(''lamp.jpg'' := ?files ''lamp.jpg''), d2)"
    using asset_reaches_buyer [OF two_users(1) c(1,2) ok acc io] unfolding aid by blast
  have answered: "server_run [Serve_datagram 1700000200 (''XYZ'' @ [LF])] d1 = Some d1"
    by (simp add: udp_round_def handle_udp_command_def get_udp_handler_fn_def udp_command_table_def udp_fail_def cstr_def)
  show ?thesis
    using d1 buy [of "[Serve_datagram 1700000200 (''XYZ'' @ [LF])]" d1 fresh_client Map.empty] answered
    by (intro exI [of _ d1]) (simp add: open_display_def retrieved_def num)
qed

end
