(* ===== verification/ClientLeave.thy ===== *)
theory ClientLeave
  imports ClientAccounts
begin

text \<open>
  When can a user leave the client? \<open>handle_exit\<close> of \<open>client/udp.c\<close> refuses while the client believes to be
  logged in, and only a positive reply to \<open>logout\<close> or \<open>unregister\<close> ends that. UDP may lose the reply, and
  nothing is sent again.
\<close>

section \<open>A client that disagrees with the server\<close>

text \<open>The server does not hold the user of the client logged in with the password of the client.\<close>

definition refused :: "who \<Rightarrow> (string \<Rightarrow> (string \<times> bool) option) \<Rightarrow> bool" where
  "refused w a \<longleftrightarrow> (\<exists>u pw. w = Some (u, pw) \<and> a u \<noteq> Some (pw, True))"

lemma refused_iff: "refused (who_view c) a \<longleftrightarrow> logged_in c \<and> \<not> agrees (who_view c) a"
  by (auto simp: refused_def agrees_def who_view_def)

lemma refused_cmd: "refused w a \<Longrightarrow> \<exists>r. user_cmd_spec cmd w a = (r, w, a)"
  by (cases cmd) (auto simp: refused_def user_cmd_spec_def)

lemma refused_session: "refused w a \<Longrightarrow> snd (client_session_spec cmds w a) = (w, a)"
proof (induction cmds)
  case (Cons cmd cmds)
  obtain r where "user_cmd_spec cmd w a = (r, w, a)" using refused_cmd [OF Cons.prems] by blast
  then show ?case using Cons by (auto split: prod.splits)
qed simp

lemma who_view_logged_in: "who_view c' = who_view c \<Longrightarrow> logged_in c' = logged_in c"
  by (auto simp: who_view_def split: if_splits)

lemma refused_stays:
  assumes "users_inv d" "client_ok c" "refused (who_view c) (user_view d)" "\<forall>(now, cmd) \<in> set cmds. user_cmd_ok cmd"
  shows "\<exists>rs c' d'. client_session cmds c d = Inr (rs, c', d') \<and> who_view c' = who_view c \<and> logged_in c'
     \<and> user_view d' = user_view d \<and> users_inv d' \<and> client_ok c'"
proof -
  obtain c' d' where s: "client_session cmds c d
       = Inr (fst (client_session_spec (map snd cmds) (who_view c) (user_view d)), c', d')"
     "(who_view c', user_view d') = snd (client_session_spec (map snd cmds) (who_view c) (user_view d))"
     "users_inv d'" "client_ok c'"
    using client_session_sim [OF assms(1,2,4)] by blast
  have "logged_in c" using assms(3) by (simp add: refused_iff)
  moreover have "who_view c' = who_view c" "user_view d' = user_view d"
    using s(2) unfolding refused_session [OF assms(3)] by simp_all
  ultimately have "who_view c' = who_view c \<and> user_view d' = user_view d \<and> logged_in c'"
    using who_view_logged_in by blast
  then show ?thesis using s by blast
qed

section \<open>Leaving\<close>

lemma leave_by_logout:
  assumes "users_inv d" "client_ok c" "logged_in c" "agrees (who_view c) (user_view d)"
  shows "\<exists>c' d'. client_session [(now, Logout)] c d = Inr ([Response (''Successful logout'' @ [LF])], c', d')
     \<and> \<not> logged_in c' \<and> client_ok c' \<and> users_inv d'
     \<and> user_view d' = (user_view d)(take 6 (c_uid c) \<mapsto> (take 8 (c_passwd c), False))"
proof -
  have w: "who_view c = Some (take 6 (c_uid c), take 8 (c_passwd c))" using assms(3) by (simp add: who_view_def)
  then have a: "user_view d (take 6 (c_uid c)) = Some (take 8 (c_passwd c), True)" using assms(4) by (simp add: agrees_def)
  show ?thesis using client_session_sim [OF assms(1,2), of "[(now, Logout)]"] w a
    by (auto simp: user_cmd_spec_def who_view_def simp del: client_session.simps split: if_splits)
qed

text \<open>The request reaches the server, the reply does not reach the client: \<open>recvfrom\<close> times out.\<close>

definition reply_lost :: udp_link where
  "reply_lost = \<lparr>sendto_fails = False, peer = (\<lambda>_. RecvFails EAGAIN), stale_errno = None\<rparr>"

text \<open>A user registers at one client; the reply to the first \<open>logout\<close> is lost or not.\<close>

definition registered :: "client_state \<times> db" where
  "registered = (case client_session [(0, Login ''123456'' ''password'')] fresh_client empty_db of
     Inr (_, c, d) \<Rightarrow> (c, d) | Inl _ \<Rightarrow> (fresh_client, empty_db))"

lemma example_login: "is_valid_uid ''123456''" "is_valid_passwd ''password''"
  by (simp_all add: is_valid_uid_iff is_valid_passwd_iff isdigit_def isalnum_def isalpha_def)

lemma registered:
  "users_inv (snd registered)" "client_ok (fst registered)" "logged_in (fst registered)"
  "who_view (fst registered) = Some (''123456'', ''password'')" "agrees (who_view (fst registered)) (user_view (snd registered))"
proof -
  obtain c d where s: "client_session [(0, Login ''123456'' ''password'')] fresh_client empty_db
      = Inr ([Response (''New user registered'' @ [LF])], c, d)"
    "who_view c = Some (''123456'', ''password'')" "user_view d ''123456'' = Some (''password'', True)" "users_inv d" "client_ok c"
    using client_session_sim [OF empty_db_inv(1) fresh_client(1), of "[(0, Login ''123456'' ''password'')]"] example_login
    by (auto simp: user_cmd_spec_def who_view_def [of fresh_client] empty_db_inv(2) simp del: client_session.simps)
  then have r: "registered = (c, d)" by (simp add: registered_def)
  show "users_inv (snd registered)" "client_ok (fst registered)" "who_view (fst registered) = Some (''123456'', ''password'')"
    "agrees (who_view (fst registered)) (user_view (snd registered))"
    using s by (simp_all add: r agrees_def)
  then show "logged_in (fst registered)" by (simp add: who_view_def split: if_splits)
qed

text \<open>
  C11. A user can leave exactly when client and server agree. From a client that is logged in, some
  sequence of account commands leads to a state in which \<open>exit\<close> ends the program if and only if the
  server holds that user logged in with that password. Otherwise no sequence of commands typed at this
  client, however long, makes \<open>exit\<close> succeed.
\<close>

theorem client_can_leave_iff:
  assumes "users_inv d" "client_ok c" "logged_in c"
  shows "(\<exists>cmds rs c' d'. (\<forall>(now, cmd) \<in> set cmds. user_cmd_ok cmd) \<and> client_session cmds c d = Inr (rs, c', d')
        \<and> handle_exit_c l [] c' = (Exits, c', []))
     \<longleftrightarrow> user_view d (take 6 (c_uid c)) = Some (take 8 (c_passwd c), True)"
    (is "?leave \<longleftrightarrow> ?held")
proof
  have w: "who_view c = Some (take 6 (c_uid c), take 8 (c_passwd c))" using assms(3) by (simp add: who_view_def)
  show ?leave if ?held
  proof -
    have "agrees (who_view c) (user_view d)" using that w by (simp add: agrees_def)
    from leave_by_logout [OF assms this, of 0] obtain c' d' where
      "client_session [(0, Logout)] c d = Inr ([Response (''Successful logout'' @ [LF])], c', d')" "\<not> logged_in c'" by blast
    moreover have "\<forall>(now, cmd) \<in> set [(0, Logout)]. user_cmd_ok cmd" by simp
    ultimately show ?leave unfolding handle_exit_c_def by metis
  qed
  show ?held if leave: ?leave
  proof (rule ccontr)
    assume no: "\<not> ?held"
    then have r: "refused (who_view c) (user_view d)" using w by (simp add: refused_def)
    obtain cmds rs c' d' where s: "\<forall>(now, cmd) \<in> set cmds. user_cmd_ok cmd" "client_session cmds c d = Inr (rs, c', d')"
      "handle_exit_c l [] c' = (Exits, c', [])" using leave by blast
    then show False using refused_stays [OF assms(1,2) r s(1)] by (auto simp: handle_exit_c_def)
  qed
qed

theorem client_can_leave_iff_witness:
  "\<exists>cmds rs c' d'. client_session cmds (fst registered) (snd registered) = Inr (rs, c', d')
     \<and> handle_exit_c reply_lost [] c' = (Exits, c', [])"
proof -
  have "user_view (snd registered) (take 6 (c_uid (fst registered))) = Some (take 8 (c_passwd (fst registered)), True)"
    using registered(4,5,3) by (simp add: agrees_def who_view_def)
  then show ?thesis using client_can_leave_iff [OF registered(1-3), of reply_lost] by blast
qed

section \<open>A lost reply\<close>

lemma logout_reply_lost:
  assumes "logged_in c" "client_ok c"
  shows "handle_logout_c reply_lost input c
     = (Code ERR_TIMEDOUT_UDP, c, [account_request LOU (take 6 (c_uid c)) (take 8 (c_passwd c))])"
  using client_okD [OF assms(2,1)] assms(1)
  by (simp add: handle_logout_c_def udp_exchange_def reply_lost_def send_udp_request_def receive_udp_response_def
    account_request_def UDP_ERR_NO_LF_MESSAGE_def)

lemma lost_logout:
  assumes "users_inv d" "client_ok c" "logged_in c" "agrees (who_view c) (user_view d)"
  shows "\<exists>request d'. handle_logout_c reply_lost input c = (Code ERR_TIMEDOUT_UDP, c, [request])
     \<and> deliver now [request] d = Inr d' \<and> users_inv d'
     \<and> user_view d' = (user_view d)(take 6 (c_uid c) \<mapsto> (take 8 (c_passwd c), False))"
proof -
  let ?u = "take 6 (c_uid c)" and ?pw = "take 8 (c_passwd c)"
  have "user_view d ?u = Some (?pw, True)" using assms(3,4) by (simp add: agrees_def who_view_def)
  then obtain d' where "udp_round now (account_request LOU ?u ?pw) d = Inr (''RLO OK'' @ [LF], d')" "users_inv d'"
    "user_view d' = (user_view d)(?u \<mapsto> (?pw, False))"
    using udp_round_account [OF assms(1) client_okD(1,2) [OF assms(2,3)], of now LOU] by (auto simp: account_spec_def)
  then show ?thesis using logout_reply_lost [OF assms(3,2)] by auto
qed

text \<open>
  C15. A lost reply to \<open>logout\<close> traps the user. The client reports a time-out and stays logged in, the
  server has logged the user out; whatever account commands are typed afterwards, all answered, the client
  stays logged in and refuses \<open>exit\<close>. Only a second client helps: once the same user has logged in
  there, \<open>logout\<close> at the first one succeeds.
\<close>

theorem lost_reply_traps_client:
  assumes "users_inv d" "client_ok c" "logged_in c" "agrees (who_view c) (user_view d)"
    and "\<forall>(t, cmd) \<in> set cmds. user_cmd_ok cmd" "client_ok other" "\<not> logged_in other"
  shows "\<exists>request d1 rs c2 d2. handle_logout_c reply_lost input c = (Code ERR_TIMEDOUT_UDP, c, [request])
     \<and> deliver now [request] d = Inr d1
     \<and> client_session cmds c d1 = Inr (rs, c2, d2) \<and> handle_exit_c l [] c2 = (Code ERR_NOT_LOGGED_OUT, c2, [])
     \<and> (\<exists>other' d3 c4 d4.
          client_session [(t1, Login (take 6 (c_uid c)) (take 8 (c_passwd c)))] other d2
            = Inr ([Response (''Successful login'' @ [LF])], other', d3)
        \<and> client_session [(t2, Logout)] c2 d3 = Inr ([Response (''Successful logout'' @ [LF])], c4, d4)
        \<and> handle_exit_c l [] c4 = (Exits, c4, []))"
proof -
  let ?u = "take 6 (c_uid c)" and ?pw = "take 8 (c_passwd c)"
  note v = client_okD(1,2) [OF assms(2,3)]
  obtain request d1 where d1: "handle_logout_c reply_lost input c = (Code ERR_TIMEDOUT_UDP, c, [request])"
    "deliver now [request] d = Inr d1" "users_inv d1" "user_view d1 = (user_view d)(?u \<mapsto> (?pw, False))"
    using lost_logout [OF assms(1-4)] by blast
  have w: "who_view c = Some (?u, ?pw)" using assms(3) by (simp add: who_view_def)
  then have "refused (who_view c) (user_view d1)" using d1(4) by (simp add: refused_def)
  from refused_stays [OF d1(3) assms(2) this assms(5)] obtain rs c2 d2 where
    s: "client_session cmds c d1 = Inr (rs, c2, d2)" "who_view c2 = who_view c" "logged_in c2" "user_view d2 = user_view d1"
      "users_inv d2" "client_ok c2" by blast
  have exit2: "handle_exit_c l [] c2 = (Code ERR_NOT_LOGGED_OUT, c2, [])" using s(3) by (simp add: handle_exit_c_def)
  have "user_view d2 ?u = Some (?pw, False)" using s(4) d1(4) by simp
  then obtain other' d3 where l: "client_session [(t1, Login ?u ?pw)] other d2 = Inr ([Response (''Successful login'' @ [LF])], other', d3)"
    "users_inv d3" "user_view d3 ?u = Some (?pw, True)"
    using client_session_sim [OF s(5) assms(6), of "[(t1, Login ?u ?pw)]"] v assms(7)
    by (auto simp: user_cmd_spec_def who_view_out simp del: client_session.simps)
  have "agrees (who_view c2) (user_view d3)" using l(3) s(2) w by (simp add: agrees_def)
  from leave_by_logout [OF l(2) s(6,3) this, of t2] obtain c4 d4 where
    "client_session [(t2, Logout)] c2 d3 = Inr ([Response (''Successful logout'' @ [LF])], c4, d4)" "\<not> logged_in c4" by blast
  then have "client_session [(t2, Logout)] c2 d3 = Inr ([Response (''Successful logout'' @ [LF])], c4, d4)
     \<and> handle_exit_c l [] c4 = (Exits, c4, [])" by (simp add: handle_exit_c_def)
  then show ?thesis using d1(1,2) s(1) exit2 l(1) by blast
qed

theorem lost_reply_traps_client_witness:
  "\<exists>request d1 rs c2 d2. handle_logout_c reply_lost [] (fst registered) = (Code ERR_TIMEDOUT_UDP, fst registered, [request])
     \<and> deliver 1 [request] (snd registered) = Inr d1
     \<and> client_session [(2, Logout), (3, Unregister)] (fst registered) d1 = Inr (rs, c2, d2)
     \<and> handle_exit_c reply_lost [] c2 = (Code ERR_NOT_LOGGED_OUT, c2, [])"
proof -
  have "\<forall>(t, cmd) \<in> set [(2, Logout), (3, Unregister)]. user_cmd_ok cmd" by simp
  from lost_reply_traps_client [OF registered(1-3,5) this fresh_client] show ?thesis by blast
qed

end
