(* ===== verification/Spec2Isabelle.thy ===== *)
theory Spec2Isabelle
  imports TcpSafety NamelessAuction ClientMain ClientAuctions ClientContract ClientDelivery ClientLeave
begin

text \<open>
  Verification of the auction system of this repository: a server in C that keeps accounts and auctions
  in a directory tree, and a command-line client in C that talks to it over UDP (one datagram per command)
  and TCP (one connection per command).

  \<^bold>\<open>How the program is built\<close>

  \<^item> \<open>utils/validators.c\<close> checks every protocol field; \<open>utils/utils.c\<close> holds the transfer loops over TCP.
  \<^item> \<open>server/database.c\<close> is the only module that touches the files below \<open>ASDIR\<close>. One mutex makes each
    of its functions atomic.
  \<^item> \<open>server/udp.c\<close> and \<open>server/tcp.c\<close> hold the handlers of the commands, found through the tables of
    \<open>udp_command_table.c\<close> and \<open>tcp_command_table.c\<close>. \<open>server/server.c\<close> runs one UDP thread, one thread that
    accepts TCP connections, and thirty workers that take them from the ring of \<open>tasks_queue.c\<close>.
  \<^item> \<open>client/client.c\<close> reads command lines, \<open>handlers.c\<close> and \<open>command_table.c\<close> find the handler, and the
    handlers of \<open>client/udp.c\<close> and \<open>client/tcp.c\<close> check the arguments, send a request, check the reply and write
    the text to display.
  \<^item> The two \<open>main.c\<close> read the options with \<open>getopt\<close> and start server and client.

  \<^bold>\<open>The theories\<close>

  \<^item> \<open>Prelude\<close>: the collections of simplification rules and generic list lemmas.
  \<^item> \<open>Runs\<close>: the locales \<open>preserving\<close>, \<open>ending\<close> and \<open>settling\<close> for the runs of a step relation; the server (\<open>srv\<close>)
    and the thread pool (\<open>wk\<close>) interpret them.
  \<^item> \<open>CLib\<close>: the parts of the C library the code uses, on char lists: \<open>strtok\<close>, \<open>atoi\<close>, \<open>atol\<close>, the
    conversions of \<open>printf\<close> and \<open>scanf\<close> that occur, \<open>gmtime\<close>, 32-bit \<open>int\<close>, and the faults a C program can
    reach (\<open>fault\<close>: null pointer, out of bounds, uninitialised array). A function that can reach one returns
    an \<open>outcome\<close>, \<open>Inl\<close> the fault.
  \<^item> \<open>Validators\<close>: \<open>utils/validators.c\<close>, with the round trips of the date and number formats.
  \<^item> \<open>FileSystem\<close>: the POSIX calls of \<open>database.c\<close> on a tree (\<open>fsys\<close>), with permission errors and a full disk.
  \<^item> \<open>NetIO\<close>: \<open>utils/utils.c\<close> over a connection (\<open>conn\<close>) with any segmentation, short writes and errors.
  \<^item> \<open>DbUsers\<close>, \<open>DbAuctions\<close>, \<open>DbReports\<close>: \<open>server/database.c\<close>. The state \<open>db\<close> is the file tree and the
    static counter \<open>auc_count\<close>. The locale \<open>user_store\<close> states what the handlers need of the accounts.
  \<^item> \<open>AuctionRecords\<close>, \<open>AuctionFacts\<close>, \<open>AuctionCreation\<close>, \<open>AuctionLists\<close>: the records in the files read
    back as they were written, the invariant \<open>db_inv\<close> (with \<open>clock_ok\<close>: \<open>sound\<close>), and the effect of each
    operation on the tree.
  \<^item> \<open>AuctionLifecycle\<close>: creation, bids, end and restart as properties of the database operations.
  \<^item> \<open>AuctionHouse\<close>: the abstract state (\<open>auction_view\<close>: owner, start value, deadline, end and bids of every
    auction) and the refinement of the operations to updates of it; \<open>evolves\<close> is the history relation.
  \<^item> \<open>UdpServer\<close>, \<open>UdpAuctions\<close>, \<open>UdpSafety\<close>: \<open>server/udp.c\<close>, its tables and the loop body of
    \<open>udp_server_thread_fn\<close> (\<open>udp_round\<close>); what each datagram is answered, and what any datagram can do.
  \<^item> \<open>TcpServer\<close>, \<open>TcpExchanges\<close>: \<open>server/tcp.c\<close> and its tables; each command from the bytes of the request
    to the bytes of the reply, as a refinement of the abstract state. \<open>bid_outcome\<close> and \<open>close_outcome\<close> are what
    the code answers, \<open>statement_bid\<close> and \<open>statement_close\<close> what \<open>statement.pdf\<close> demands, and the exchanges say
    exactly where they differ. Two interleavings of handlers show what their missing atomicity allows.
  \<^item> \<open>NamelessAuction\<close>: an \<open>OPA\<close> with an empty name, from the accepted request to the crash of the server.
  \<^item> \<open>TasksQueue\<close>: the ring and the threads around it as a step relation (\<open>work_step\<close>: without arrivals and
    spurious wake-ups); the locale \<open>bounded_fifo\<close>; no client and no wake-up is lost, and the work is finished.
  \<^item> \<open>ServerRun\<close>: lists of events, each a datagram, a connection or a restart (\<open>server_does\<close>, \<open>server_run\<close>),
    handled one after the other. The properties of whole runs are below. \<open>TcpSafety\<close>: which connections can make the server leave its memory.
  \<^item> \<open>ClientState\<close>: the state of the client, its error codes, and the lines every UDP handler repeats
    (\<open>udp_exchange\<close>), over any answer of the network (\<open>udp_link\<close>).
  \<^item> \<open>ClientAccounts\<close>, \<open>ClientLeave\<close>, \<open>ClientLists\<close>, \<open>ClientAuctions\<close>, \<open>ClientRecord\<close>: \<open>client/udp.c\<close>. Sessions of
    account commands against the server, when a user can leave, the three lists, and \<open>showrecord\<close> with its
    arrays.
  \<^item> \<open>ClientTcp\<close>: \<open>client/tcp.c\<close>, each handler in the parts before and after its request is sent.
  \<^item> \<open>ClientShell\<close>, \<open>ClientContract\<close>: \<open>handlers.c\<close>, \<open>command_table.c\<close> and the event loop of \<open>client.c\<close>; what any
    command can send, store and answer.
  \<^item> \<open>ClientExchanges\<close>, \<open>ClientMarket\<close>, \<open>ClientDelivery\<close>: client and server together. \<open>tcp_exchange\<close> runs a handler
    of the client against \<open>serve_tcp_connection\<close>: the request it sends is served, and the bytes of the server are what
    it receives. \<open>market_session\<close> is any number of clients at one server, refined by \<open>market_spec\<close>; an asset goes
    from the client that opens an auction through the files of the server to the client that asks for it.
  \<^item> \<open>Getopt\<close>, \<open>ServerMain\<close>, \<open>ClientMain\<close>: \<open>getopt\<close> as documented, the two \<open>main.c\<close>, \<open>server\<close> and
    \<open>initialize_client\<close>, with the answers of the system as parameters (\<open>start_env\<close>, \<open>client_net\<close>).

  \<^bold>\<open>Hypotheses of the properties\<close>

  A sound database is one the code itself builds on a working disk. \<open>server_run\<close> keeps it as long as every event
  is \<open>within_limits\<close>, a hypothesis of each property on runs: \<open>clock_in_range\<close> keeps the clock of connections before
  January 2038, where an \<open>int\<close> of the code wraps (proved in \<open>AuctionLifecycle\<close>), and \<open>sane_open\<close> excludes the \<open>OPA\<close>
  requests with an empty name or with a line feed in the file name. The code accepts both, and the database is
  not sound afterwards (\<open>NamelessAuction\<close>). A run handles its events one after the other. In the program thirty
  workers and the UDP thread do so at the same time: each database function is atomic, the handlers are not,
  and \<open>TcpExchanges\<close> proves two interleavings that no run has (bids accepted out of order, a bid on an
  auction that has been closed).

  The request of a TCP exchange arrives in one segment, because \<open>read_tcp_stream\<close> misplaces a second one (proved in
  \<open>NetIO\<close>); \<open>serve_step_ok\<close> and \<open>tcp_connection_safe\<close> have no such hypothesis. For the same reason \<open>tcp_exchange\<close>,
  which composes client and server and models no code of its own, delivers the whole request and the whole
  reply in one segment, also where \<open>handle_open\<close> of the client sends header, blocks and line feed with separate calls.
  \<open>whole\<close> and the empty lists of capacities exclude short sends and writes, which the loops of \<open>utils.c\<close> repeat
  at a wrong offset. After a short send the requests of the client that are sent as one string
  (\<open>handle_bid_c\<close>, \<open>handle_show_asset_c\<close>) count as out of bounds in the model, where the code sends stale bytes of its array.

  \<^bold>\<open>Bounds\<close>

  No fuel is used: every loop is a total function, with the bytes still to be received, the bytes still to
  be sent or the list of entries as its measure. Numbers are \<open>int\<close>, cut to 32 bits by \<open>c_int\<close> where the code
  stores them in an \<open>int\<close>; \<open>time_ok\<close> bounds times to 2 to the power of 36, where years have four digits.

  \<^bold>\<open>Not modelled\<close>

  The logged messages and \<open>print_usage\<close>, socket options, failures of \<open>pthread\<close> calls after the start, failures of
  \<open>close\<close> and \<open>closedir\<close>, file descriptors (\<open>bid\<close> closes one twice and leaks another), \<open>free_client\<close>, which
  \<open>handle_exit\<close> calls before the process ends, and two functions nothing calls (\<open>destroy_queue\<close>,
  \<open>rollback_asset_creation\<close>). A handler reads the clock once in the model; the code calls \<open>time\<close> again in \<open>close_auction\<close>
  and \<open>bid\<close>. \<open>strtok\<close> keeps its position in a variable all threads share; here each handler has its own.
\<close>

section \<open>The server as a whole\<close>

text \<open>
  C1. The first start on an empty directory gives the empty database. From there every run in which requests
  are handled one after the other, over any datagrams, connections and restarts, stays in the sound databases:
  accounts and auctions are well-formed, the identifiers are exactly 1 to the counter, and the counter never
  exceeds 999. The limits of the run are hypotheses: connections are served before 2038, and none of them
  opens an auction with an empty name or with a line feed in the file name, which the code accepts and which
  leaves the sound databases. The disk of the model works: only the writes of an asset may be short.
\<close>

theorem server_stays_sound:
  assumes "server_run evs empty_db = Some d" "\<forall>ev \<in> set evs. within_limits ev"
  shows "init_database \<lparr>nodes = [], denied = [], full = False\<rparr> = Some (0, empty_db)
     \<and> sound d \<and> 0 \<le> auc_count d \<and> auc_count d \<le> 999"
proof -
  have "sound d" using server_run_ok [OF assms empty_db_sound] by (simp add: step_ok_def)
  then show ?thesis using first_start db_invD(10,11) [of d] by (simp add: sound_def)
qed

theorem server_stays_sound_witness:
  "\<exists>d. server_run [Serve_datagram 0 (account_request LIN ''123456'' ''password''), Restart] empty_db = Some d
     \<and> sound d \<and> user_view d ''123456'' = Some (''password'', True)"
proof -
  let ?login = "Serve_datagram 0 (account_request LIN ''123456'' ''password'')"
  obtain d where d: "udp_round 0 (account_request LIN ''123456'' ''password'') empty_db = Inr (''RLI REG'' @ [LF], d)"
    "user_view d ''123456'' = Some (''password'', True)"
    using udp_round_account [OF empty_db_inv(1) example_fields(1,3), of 0 LIN]
    by (auto simp: account_spec_def empty_db_inv(2))
  then have "sound d" using server_does_ok [of ?login empty_db d] empty_db_sound by (simp add: step_ok_def)
  then have run: "server_run [?login, Restart] empty_db = Some d" by (simp add: d(1) restart_state)
  show ?thesis using server_stays_sound [OF run] run d(2) by simp
qed

text \<open>
  C2. A run in which requests are handled one after the other neither loses nor rewrites the past: an auction
  keeps its owner, start value and deadline, every value that was accepted as a bid stays one of its bids, and
  an auction that has ended stays ended and gets no further bid, whatever clients send and however often the
  server is restarted, under the same limits on the run. With several threads at work this fails, as the
  interleavings of \<open>TcpExchanges\<close> show.
\<close>

theorem server_keeps_history:
  assumes "sound d" "server_run evs d = Some d'" "\<forall>ev \<in> set evs. within_limits ev" "auction_view d a = Some x"
  shows "\<exists>y. auction_view d' a = Some y \<and> owner y = owner x \<and> start_value y = start_value x \<and> deadline y = deadline x
     \<and> bids x \<subseteq> bids y \<and> (ended x \<longrightarrow> ended y \<and> bids y = bids x)"
  using server_run_ok [OF assms(2,3,1)] assms(4) by (simp add: step_ok_def evolves_def)

theorem server_keeps_history_witness:
  "\<exists>d. server_run [Serve_datagram 1700003600 (''LST'' @ [LF])] lamp_db = Some d \<and> d \<noteq> lamp_db
     \<and> map_option owner (auction_view d ''001'') = Some ''123456''"
proof -
  obtain d where d: "udp_round 1700003600 (''LST'' @ [LF]) lamp_db = Inr (''RLS OK 001 0'' @ [LF], d)"
    "fs_get (fs d) (end_path ''001'') \<noteq> None"
  proof -
    obtain e where "update_database 1700003600 lamp_db = Inr (0, e)"
      "udp_round 1700003600 (''LST'' @ [LF]) lamp_db = Inr (''RLS OK'' @ concat (map (auction_word (fs e)) [1..1]) @ [LF], e)"
      using list_round [OF lamp_inv, of 1700003600] by (auto simp: lamp_db(3))
    then show ?thesis using that lamp_update [of 1700003600 e] by (simp add: auction_word_def lamp_word)
  qed
  have run: "server_run [Serve_datagram 1700003600 (''LST'' @ [LF])] lamp_db = Some d" using d(1) by simp
  have "d \<noteq> lamp_db" using d(2) lamp_db(9) by auto
  then show ?thesis using server_keeps_history [OF lamp_db(1) run _ lamp_view] run by auto
qed

end
